(* ===== verification/Prelude.thy ===== *)
theory Prelude
  imports Main "HOL-Library.Word" "HOL-Library.List_Lexorder" "HOL-Library.Sublist"
begin

text \<open>
  Shared vocabulary of the development.

  Go strings in this program come from a code page decoder, from JSON or from literals, so
  they are valid UTF-8, and they are modelled as lists of runes (type \<open>str\<close>); Utf8
  says how such a list is laid out in bytes. A rune is an \<open>int\<close>, as Go's
  \<open>rune\<close> is. Byte slices are lists of 8-bit words and the \<open>atomic.Int64\<close> and
  \<open>uint64\<close> counters are 64-bit words. Go's \<open>int\<close> is an \<open>int\<close>: every
  \<open>int\<close> of the program is a length, a configured bound or a parsed number whose range
  is checked where it is made.

  The collections \<open>gw_defs\<close>, \<open>gw_simps\<close> and \<open>gw_inv\<close> hold the
  definitions, the rewrite rules and the invariant lemmas the component theories share.
\<close>

type_synonym byte = "8 word"
type_synonym rune = int
type_synonym str = "rune list"
type_synonym int64 = "64 word"
type_synonym uint64 = "64 word"

named_theorems gw_defs "definitions unfolded by the component proofs"
named_theorems gw_simps "equations of the operations"
named_theorems gw_inv "preservation of the component invariants"

subsection \<open>Literals and decimal numbers\<close>

text \<open>An ASCII literal of the source as a rune list.\<close>

primrec lit :: "string \<Rightarrow> str" where
  "lit [] = []"
| "lit (c # cs) = of_char c # lit cs"

lemma length_lit [simp]: "length (lit s) = length s"
  by (induction s) auto

lemma lit_append [simp]: "lit (s @ t) = lit s @ lit t"
  by (induction s) auto

lemma lit_eq_Nil [simp]: "lit s = [] \<longleftrightarrow> s = []"
  by (cases s) auto

text \<open>
  \<open>strconv.Itoa\<close>, \<open>strconv.FormatUint\<close> and the \<open>%d\<close> verb: the decimal
  digits of a number, without leading zeros.
\<close>

fun digits :: "nat \<Rightarrow> str" where
  "digits n = (if n < 10 then [48 + int n] else digits (n div 10) @ [48 + int (n mod 10)])"

declare digits.simps [simp del]

definition itoa :: "int \<Rightarrow> str" where
  "itoa i = (if i < 0 then 45 # digits (nat (- i)) else digits (nat i))"

definition is_digit :: "rune \<Rightarrow> bool" where
  "is_digit r \<longleftrightarrow> 48 \<le> r \<and> r \<le> 57"

lemma digits_nonempty [simp]: "digits n \<noteq> []"
  by (subst digits.simps) simp

lemma digits_are_digits: "r \<in> set (digits n) \<Longrightarrow> is_digit r"
proof (induction n rule: digits.induct)
  case (1 n)
  show ?case
  proof (cases "n < 10")
    case True
    with "1.prems" show ?thesis by (subst (asm) digits.simps) (auto simp: is_digit_def)
  next
    case False
    from "1.prems" False have "r \<in> set (digits (n div 10)) \<or> r = 48 + int (n mod 10)"
      by (subst (asm) digits.simps) auto
    with "1.IH" False show ?thesis by (auto simp: is_digit_def)
  qed
qed

text \<open>The value of a digit string, most significant digit first.\<close>

definition digits_value :: "str \<Rightarrow> nat" where
  "digits_value ds = foldl (\<lambda>acc d. acc * 10 + nat (d - 48)) 0 ds"

lemma digits_value_snoc [simp]: "digits_value (ds @ [d]) = digits_value ds * 10 + nat (d - 48)"
  by (simp add: digits_value_def)

lemma digits_value_digits [simp]: "digits_value (digits n) = n"
proof (induction n rule: digits.induct)
  case (1 n)
  show ?case
  proof (cases "n < 10")
    case True
    then show ?thesis by (subst digits.simps) (simp add: digits_value_def)
  next
    case False
    with "1.IH" have "digits_value (digits (n div 10)) = n div 10" by simp
    moreover have "nat (int (n mod 10)) = n mod 10" by simp
    ultimately show ?thesis using False
      by (subst digits.simps) (simp del: of_nat_mod zmod_int add: mult.commute)
  qed
qed

lemma digits_inject: "digits m = digits n \<longleftrightarrow> m = n"
  by (metis digits_value_digits)

subsection \<open>Lists\<close>

lemma dropWhile_takeWhile_id: "(\<forall>x \<in> set xs. P x) \<Longrightarrow> takeWhile P (xs @ ys) = xs @ takeWhile P ys"
  by (induction xs) auto

lemma takeWhile_stop: "(\<forall>x \<in> set xs. P x) \<Longrightarrow> \<not> P y \<Longrightarrow> takeWhile P (xs @ y # ys) = xs"
  by (induction xs) auto

lemma dropWhile_stop: "(\<forall>x \<in> set xs. P x) \<Longrightarrow> \<not> P y \<Longrightarrow> dropWhile P (xs @ y # ys) = y # ys"
  by (induction xs) auto

lemma dropWhile_id_hd: "xs = [] \<or> \<not> P (hd xs) \<Longrightarrow> dropWhile P xs = xs"
  by (cases xs) auto

lemma length_filter_mono_pred:
  "(\<And>x. P x \<Longrightarrow> Q x) \<Longrightarrow> length (filter P xs) \<le> length (filter Q xs)"
  by (induction xs) auto

text \<open>The last \<open>n\<close> elements, Go's \<open>xs[len(xs)-n:]\<close>.\<close>

definition last_n :: "nat \<Rightarrow> 'a list \<Rightarrow> 'a list" where
  "last_n n xs = drop (length xs - n) xs"

lemma length_last_n [simp]: "length (last_n n xs) = min n (length xs)"
  by (simp add: last_n_def)

lemma last_n_all [simp]: "length xs \<le> n \<Longrightarrow> last_n n xs = xs"
  by (simp add: last_n_def)

lemma last_n_append: "last_n n (last_n n xs @ ys) = last_n n (xs @ ys)"
proof (cases "length xs \<le> n")
  case False
  then have "drop (length ys + (length xs - n)) xs = drop (length xs + length ys - n) xs"
    by (simp add: add.commute)
  with False show ?thesis by (simp add: last_n_def)
qed simp

lemma suffix_last_n: "suffix (last_n n xs) xs"
  by (simp add: last_n_def suffix_drop)

end
