(* ===== verification/GoStrings.thy ===== *)
theory GoStrings
  imports Prelude
begin

text \<open>
  The functions of Go's \<open>strings\<close> package the program calls, on rune lists. Positions are
  rune positions: the program uses an index only to slice the same string again, so slicing at the
  rune position gives the same text as slicing at the byte position.
\<close>

subsection \<open>White space\<close>

text \<open>\<open>unicode.IsSpace\<close>: the runes with the White Space property.\<close>

definition is_space :: "rune \<Rightarrow> bool" where
  "is_space r \<longleftrightarrow>
     9 \<le> r \<and> r \<le> 13 \<or> r = 32 \<or> r = 133 \<or> r = 160 \<or> r = 5760 \<or>
     8192 \<le> r \<and> r \<le> 8202 \<or> r = 8232 \<or> r = 8233 \<or> r = 8239 \<or> r = 8287 \<or> r = 12288"

text \<open>\<open>strings.TrimSpace\<close>\<close>

definition trim_left :: "str \<Rightarrow> str" where
  "trim_left s = dropWhile is_space s"

definition trim_right :: "str \<Rightarrow> str" where
  "trim_right s = rev (dropWhile is_space (rev s))"

definition trim_space :: "str \<Rightarrow> str" where
  "trim_space s = trim_right (trim_left s)"

definition trimmed :: "str \<Rightarrow> bool" where
  "trimmed s \<longleftrightarrow> s = [] \<or> \<not> is_space (hd s) \<and> \<not> is_space (last s)"

lemma trim_space_Nil [simp]: "trim_space [] = []"
  by (simp add: trim_space_def trim_left_def trim_right_def)

lemma trim_right_last: "trim_right s = [] \<or> \<not> is_space (last (trim_right s))"
  using hd_dropWhile [of is_space "rev s"]
  by (cases "dropWhile is_space (rev s) = []") (auto simp: trim_right_def last_rev)

lemma trim_right_prefix: "prefix (trim_right s) s"
  using suffix_dropWhile [of is_space "rev s"] by (simp add: trim_right_def suffix_to_prefix)

lemma trimmed_trim_space: "trimmed (trim_space s)"
proof (cases "trim_space s")
  case (Cons a r)
  obtain z where z: "trim_left s = trim_space s @ z"
    using trim_right_prefix [of "trim_left s"] by (auto simp: trim_space_def elim: prefixE)
  with Cons have "hd (trim_left s) = a" and "trim_left s \<noteq> []" by auto
  then have "\<not> is_space a"
    using hd_dropWhile [of is_space s] by (auto simp: trim_left_def)
  with Cons trim_right_last [of "trim_left s"] show ?thesis
    by (auto simp: trimmed_def trim_space_def)
qed (simp add: trimmed_def)

lemma trim_space_id: "trimmed s \<Longrightarrow> trim_space s = s"
  by (cases "s = []")
    (auto simp: trimmed_def trim_space_def trim_left_def trim_right_def hd_rev dropWhile_id_hd)

lemma trim_space_idem [simp]: "trim_space (trim_space s) = trim_space s"
  by (rule trim_space_id) (rule trimmed_trim_space)

lemma set_trim_space: "set (trim_space s) \<subseteq> set s"
proof
  fix x
  assume "x \<in> set (trim_space s)"
  then have "x \<in> set (dropWhile is_space (rev (trim_left s)))"
    by (simp add: trim_space_def trim_right_def)
  then have "x \<in> set (trim_left s)" by (auto dest: set_dropWhileD)
  then show "x \<in> set s" by (auto simp: trim_left_def dest: set_dropWhileD)
qed

lemma trim_space_eq_Nil: "trim_space s = [] \<longleftrightarrow> (\<forall>r \<in> set s. is_space r)"
proof -
  have "trim_right t = [] \<longleftrightarrow> (\<forall>r \<in> set t. is_space r)" for t
    by (auto simp: trim_right_def dropWhile_eq_Nil_conv)
  moreover have "(\<forall>r \<in> set (trim_left s). is_space r) \<longleftrightarrow> (\<forall>r \<in> set s. is_space r)"
    by (induction s) (auto simp: trim_left_def)
  ultimately show ?thesis by (simp add: trim_space_def)
qed

subsection \<open>Searching\<close>

text \<open>\<open>strings.HasPrefix\<close>, \<open>strings.HasSuffix\<close>, \<open>strings.Contains\<close>, \<open>strings.Index\<close>\<close>

fun has_prefix :: "str \<Rightarrow> str \<Rightarrow> bool" where
  "has_prefix s [] = True"
| "has_prefix [] (p # ps) = False"
| "has_prefix (c # s) (p # ps) = (c = p \<and> has_prefix s ps)"

definition has_suffix :: "str \<Rightarrow> str \<Rightarrow> bool" where
  "has_suffix s p = has_prefix (rev s) (rev p)"

fun contains :: "str \<Rightarrow> str \<Rightarrow> bool" where
  "contains [] p = (p = [])"
| "contains (c # s) p = (has_prefix (c # s) p \<or> contains s p)"

fun index_of :: "str \<Rightarrow> str \<Rightarrow> nat option" where
  "index_of [] p = (if p = [] then Some 0 else None)"
| "index_of (c # s) p =
     (if has_prefix (c # s) p then Some 0 else map_option Suc (index_of s p))"

lemma has_prefix_iff: "has_prefix s p \<longleftrightarrow> (\<exists>t. s = p @ t)"
  by (induction s p rule: has_prefix.induct) auto

lemma contains_prefix: "has_prefix s p \<Longrightarrow> contains s p"
  by (cases s) (cases p, auto)

lemma contains_iff: "contains s p \<longleftrightarrow> (\<exists>u v. s = u @ p @ v)"
proof (induction s p rule: contains.induct)
  case (2 c s p)
  show ?case (is "?L = ?R")
  proof
    assume ?L
    then consider "has_prefix (c # s) p" | "contains s p" by auto
    then show ?R
    proof cases
      case 1
      then show ?thesis by (metis has_prefix_iff append_Nil)
    next
      case 2
      with "2.IH" show ?thesis by (metis append_Cons)
    qed
  next
    assume ?R
    then obtain u v where "c # s = u @ p @ v" by blast
    then show ?L
    proof (cases u)
      case Nil
      with \<open>c # s = u @ p @ v\<close> have "has_prefix (c # s) p" by (auto simp: has_prefix_iff)
      then show ?thesis by (rule contains_prefix)
    next
      case (Cons a u')
      with \<open>c # s = u @ p @ v\<close> "2.IH" show ?thesis by auto
    qed
  qed
qed auto

lemma contains_single [simp]: "contains s [c] \<longleftrightarrow> c \<in> set s"
  by (induction s) auto

lemma index_of_None: "index_of s p = None \<longleftrightarrow> \<not> contains s p"
  by (induction s p rule: index_of.induct) auto

lemma index_of_Some:
  "index_of s p = Some i \<Longrightarrow> i \<le> length s \<and> has_prefix (drop i s) p"
  by (induction s p arbitrary: i rule: index_of.induct) (auto split: if_splits)

subsection \<open>Splitting, joining and replacing\<close>

text \<open>\<open>strings.Split\<close> with a separator of one rune\<close>

fun split_on :: "rune \<Rightarrow> str \<Rightarrow> str list" where
  "split_on c [] = [[]]"
| "split_on c (r # rs) =
     (if r = c then [] # split_on c rs
      else case split_on c rs of [] \<Rightarrow> [[r]] | p # ps \<Rightarrow> (r # p) # ps)"

text \<open>\<open>strings.SplitN\<close> with a separator of one rune and at most two parts\<close>

definition split_n2 :: "rune \<Rightarrow> str \<Rightarrow> str list" where
  "split_n2 c s =
     (if c \<in> set s then [takeWhile (\<lambda>r. r \<noteq> c) s, tl (dropWhile (\<lambda>r. r \<noteq> c) s)] else [s])"

text \<open>\<open>strings.Join\<close>\<close>

fun join :: "str \<Rightarrow> str list \<Rightarrow> str" where
  "join sep [] = []"
| "join sep [x] = x"
| "join sep (x # y # zs) = x @ sep @ join sep (y # zs)"

text \<open>\<open>strings.ReplaceAll\<close> for a non-empty search text\<close>

function replace_all :: "str \<Rightarrow> str \<Rightarrow> str \<Rightarrow> str" where
  "replace_all old new s =
     (case s of [] \<Rightarrow> []
      | c # t \<Rightarrow>
          if old \<noteq> [] \<and> has_prefix s old then new @ replace_all old new (drop (length old) s)
          else c # replace_all old new t)"
  by pat_completeness auto
termination
  by (relation "measure (\<lambda>(old, new, s). length s)") auto

declare replace_all.simps [simp del]

lemma replace_all_Nil [simp]: "replace_all old new [] = []"
  by (simp add: replace_all.simps)

lemma replace_all_Cons:
  "replace_all old new (c # t) =
     (if old \<noteq> [] \<and> has_prefix (c # t) old
      then new @ replace_all old new (drop (length old) (c # t))
      else c # replace_all old new t)"
  by (simp add: replace_all.simps [of old new "c # t"])

lemma replace_all_absent: "a \<notin> set s \<Longrightarrow> replace_all (a # old) new s = s"
  by (induction s) (auto simp: replace_all_Cons)

lemma split_on_nonempty [simp]: "split_on c s \<noteq> []"
  by (induction s) (auto split: list.splits)

lemma join_Cons: "ps \<noteq> [] \<Longrightarrow> join sep (p # ps) = p @ sep @ join sep ps"
  by (cases ps) auto

lemma join_split_on: "join [c] (split_on c s) = s"
proof (induction s)
  case (Cons r rs)
  show ?case
  proof (cases "r = c")
    case True
    with Cons show ?thesis by (simp add: join_Cons)
  next
    case False
    obtain p ps where "split_on c rs = p # ps" by (cases "split_on c rs") auto
    with Cons False show ?thesis by (cases ps) auto
  qed
qed simp

lemma split_on_no_sep: "p \<in> set (split_on c s) \<Longrightarrow> c \<notin> set p"
  by (induction s arbitrary: p) (auto split: list.splits if_splits)

lemma split_on_absent: "c \<notin> set s \<Longrightarrow> split_on c s = [s]"
  by (induction s) auto

lemma split_on_append: "c \<notin> set p \<Longrightarrow> split_on c (p @ c # s) = p # split_on c s"
  by (induction p) auto

subsection \<open>Case\<close>

text \<open>
  \<open>strings.ToLower\<close>: \<open>unicode.ToLower\<close> on each rune. The mapping is written out for
  ASCII, Latin-1 and the Cyrillic block up to U+042F with U+0490, which holds every upper case rune
  the code page decoder can produce, and for the two runes elsewhere that map to ASCII (U+0130 to
  \<open>i\<close>, the Kelvin sign U+212A to \<open>k\<close>), so that the comparison with an ASCII text is exact for every text.
\<close>

definition lower_rune :: "rune \<Rightarrow> rune" where
  "lower_rune r =
     (if 65 \<le> r \<and> r \<le> 90 then r + 32
      else if 192 \<le> r \<and> r \<le> 222 \<and> r \<noteq> 215 then r + 32
      else if 1024 \<le> r \<and> r \<le> 1039 then r + 80
      else if 1040 \<le> r \<and> r \<le> 1071 then r + 32
      else if r = 1168 then 1169
      else if r = 304 then 105
      else if r = 8490 then 107
      else r)"

definition to_lower :: "str \<Rightarrow> str" where
  "to_lower s = map lower_rune s"

lemma lower_rune_idem [simp]: "lower_rune (lower_rune r) = lower_rune r"
  by (auto simp: lower_rune_def)

lemma to_lower_idem [simp]: "to_lower (to_lower s) = to_lower s"
  by (simp add: to_lower_def)

lemma to_lower_append: "to_lower (s @ t) = to_lower s @ to_lower t"
  by (simp add: to_lower_def)

text \<open>
  \<open>strings.EqualFold\<close> against a lower case ASCII literal with no \<open>k\<close> and no
  \<open>s\<close> (the two letters that also fold to a rune outside ASCII).
\<close>

definition equal_fold :: "str \<Rightarrow> str \<Rightarrow> bool" where
  "equal_fold s literal \<longleftrightarrow>
     map (\<lambda>r. if 65 \<le> r \<and> r \<le> 90 then r + 32 else r) s = literal"


subsection \<open>Numbers\<close>

text \<open>
  \<open>strconv.Atoi\<close>: an optional sign and decimal digits; \<open>None\<close> for the syntax and the range
  error of a 64-bit \<open>int\<close>.
\<close>

definition signed :: "str \<Rightarrow> bool \<times> str" where
  "signed s = (case s of [] \<Rightarrow> (False, []) | c # t \<Rightarrow>
     if c = 45 then (True, t) else if c = 43 then (False, t) else (False, s))"

definition Atoi :: "str \<Rightarrow> int option" where
  "Atoi s =
     (let (neg, ds) = signed s
      in if ds = [] \<or> \<not> list_all is_digit ds then None
         else let n = int (digits_value ds)
              in if neg then (if n \<le> 2 ^ 63 then Some (- n) else None)
                 else (if n < 2 ^ 63 then Some n else None))"

lemma Atoi_digits: "Atoi (digits n) = (if n < 2 ^ 63 then Some (int n) else None)"
proof -
  have d: "list_all is_digit (digits n)" by (simp add: list_all_iff digits_are_digits)
  then have "is_digit (hd (digits n))" by (cases "digits n") auto
  then have "signed (digits n) = (False, digits n)"
    by (cases "digits n") (auto simp: signed_def is_digit_def)
  moreover have "int n < 2 ^ 63 \<longleftrightarrow> n < 2 ^ 63" by simp
  ultimately show ?thesis using d by (simp add: Atoi_def)
qed

lemma Atoi_range: "Atoi s = Some n \<Longrightarrow> - (2 ^ 63) \<le> n \<and> n < 2 ^ 63"
  by (auto simp: Atoi_def Let_def split: prod.splits if_splits)

end
