(* ===== verification/Scanner.thy ===== *)
theory Scanner
  imports Prelude
begin

text \<open>
  The interface of a byte or rune scanner that is fed a stream in chunks: a step on one element
  and a run over a slice. Two parts of the gateway are such scanners, the Telnet filter (Telnet) and
  the repair of the capital letter Ya (Decoder), and both are fed whatever slices the network
  returns. What is proved here is that cutting the stream at other places changes nothing.
\<close>

text \<open>Feeding chunk after chunk, the scanner's state being kept between the calls.\<close>

fun feed :: "('s \<Rightarrow> 'a list \<Rightarrow> 's \<times> 'b list) \<Rightarrow> 's \<Rightarrow> 'a list list \<Rightarrow> 's \<times> 'b list" where
  "feed run s [] = (s, [])"
| "feed run s (c # cs) =
     (let (s1, out1) = run s c; (s2, out2) = feed run s1 cs in (s2, out1 @ out2))"

locale scanner =
  fixes step :: "'s \<Rightarrow> 'a \<Rightarrow> 's \<times> 'b list"
    and run :: "'s \<Rightarrow> 'a list \<Rightarrow> 's \<times> 'b list"
  assumes run_Nil: "run s [] = (s, [])"
    and run_Cons: "run s (x # xs) =
      (let (s1, out1) = step s x; (s2, out2) = run s1 xs in (s2, out1 @ out2))"
begin

lemma run_append:
  "run s (xs @ ys) = (let (s1, out1) = run s xs; (s2, out2) = run s1 ys in (s2, out1 @ out2))"
  by (induction xs arbitrary: s) (auto simp: run_Nil run_Cons Let_def split: prod.splits)

lemma feed_run: "feed run s chunks = run s (concat chunks)"
  by (induction chunks arbitrary: s) (auto simp: run_Nil run_append Let_def split: prod.splits)

lemma feed_rechunk: "concat cs = concat ds \<Longrightarrow> feed run s cs = feed run s ds"
  by (simp add: feed_run)

end

text \<open>A scanner whose steps emit at most one element never emits more than it reads.\<close>

locale shrinking_scanner = scanner +
  assumes step_short: "length (snd (step s x)) \<le> 1"
begin

lemma run_short: "length (snd (run s xs)) \<le> length xs"
proof (induction xs arbitrary: s)
  case (Cons x xs)
  obtain s1 o1 where st: "step s x = (s1, o1)" by force
  obtain s2 o2 where r: "run s1 xs = (s2, o2)" by force
  from st step_short [of s x] have "length o1 \<le> 1" by simp
  moreover from r Cons [of s1] have "length o2 \<le> length xs" by simp
  ultimately show ?case by (simp add: run_Cons st r)
qed (simp add: run_Nil)

end

end
