(* ===== verification/Telnet.thy ===== *)
theory Telnet
  imports Scanner
begin

text \<open>
  \<open>gateway/telnet.go\<close>: the filter that takes Telnet negotiation out of the upstream byte
  stream. \<open>filter_byte\<close> is the body of the loop of \<open>TelnetFilter.Filter\<close>, one case
  per \<open>telnetState\<close> constant, and \<open>Filter\<close> is the method, with the receiver's
  \<open>state\<close> field passed in and returned.

  The specification is a small grammar of what a Telnet peer sends (\<open>telnet_item\<close>) with its
  wire encoding: the filter is shown to return exactly the data bytes of such a stream, however it
  is cut into reads.
\<close>

datatype telnet_state =
    telnetStateData
  | telnetStateIAC
  | telnetStateSkipOption
  | telnetStateSubnegotiation
  | telnetStateSubnegotiationIAC

definition telnetIAC :: byte where "telnetIAC = 255"
definition telnetWILL :: byte where "telnetWILL = 251"
definition telnetWONT :: byte where "telnetWONT = 252"
definition telnetDO :: byte where "telnetDO = 253"
definition telnetDONT :: byte where "telnetDONT = 254"
definition telnetSB :: byte where "telnetSB = 250"
definition telnetSE :: byte where "telnetSE = 240"

lemmas telnet_consts [simp] =
  telnetIAC_def telnetWILL_def telnetWONT_def telnetDO_def telnetDONT_def telnetSB_def telnetSE_def

fun filter_byte :: "telnet_state \<Rightarrow> byte \<Rightarrow> telnet_state \<times> byte list" where
  "filter_byte telnetStateData b =
     (if b = telnetIAC then (telnetStateIAC, []) else (telnetStateData, [b]))"
| "filter_byte telnetStateIAC b =
     (if b \<in> {telnetWILL, telnetWONT, telnetDO, telnetDONT} then (telnetStateSkipOption, [])
      else if b = telnetSB then (telnetStateSubnegotiation, [])
      else if b = telnetIAC then (telnetStateData, [b])
      else (telnetStateData, []))"
| "filter_byte telnetStateSkipOption b = (telnetStateData, [])"
| "filter_byte telnetStateSubnegotiation b =
     (if b = telnetIAC then (telnetStateSubnegotiationIAC, [])
      else (telnetStateSubnegotiation, []))"
| "filter_byte telnetStateSubnegotiationIAC b =
     (if b = telnetSE then (telnetStateData, [])
      else if b \<noteq> telnetIAC then (telnetStateSubnegotiation, [])
      else (telnetStateSubnegotiationIAC, []))"

primrec filter_loop :: "telnet_state \<Rightarrow> byte list \<Rightarrow> telnet_state \<times> byte list" where
  "filter_loop s [] = (s, [])"
| "filter_loop s (b # bs) =
     (let (s1, out1) = filter_byte s b; (s2, out2) = filter_loop s1 bs in (s2, out1 @ out2))"

definition Filter :: "telnet_state \<Rightarrow> byte list \<Rightarrow> telnet_state \<times> byte list" where
  "Filter state data = (if data = [] then (state, []) else filter_loop state data)"

lemma Filter_loop: "Filter s data = filter_loop s data"
  by (simp add: Filter_def)

lemma filter_byte_short: "length (snd (filter_byte s b)) \<le> 1"
  by (cases s) auto

interpretation telnet: shrinking_scanner filter_byte Filter
  by unfold_locales (use filter_byte_short in \<open>auto simp: Filter_loop\<close>)

subsection \<open>What a peer sends\<close>

text \<open>
  A data byte, a negotiation of an option, another two byte command, or a subnegotiation with its
  parameter bytes. On the wire a 255 among data or parameters is doubled (RFC 854, RFC 855).
\<close>

datatype telnet_item = Data byte | Negotiate byte byte | Command byte | Subneg "byte list"

primrec double_iac :: "byte list \<Rightarrow> byte list" where
  "double_iac [] = []"
| "double_iac (b # bs) = (if b = 255 then [255, 255] else [b]) @ double_iac bs"

fun wire :: "telnet_item \<Rightarrow> byte list" where
  "wire (Data b) = double_iac [b]"
| "wire (Negotiate c opt) = [255, c, opt]"
| "wire (Command c) = [255, c]"
| "wire (Subneg ps) = [255, 250] @ double_iac ps @ [255, 240]"

fun data_of :: "telnet_item \<Rightarrow> byte list" where
  "data_of (Data b) = [b]"
| "data_of _ = []"

text \<open>A parameter list in which 255 is directly followed by 240.\<close>

fun iac_se :: "byte list \<Rightarrow> bool" where
  "iac_se (x # y # zs) = (x = 255 \<and> y = 240 \<or> iac_se (y # zs))"
| "iac_se _ = False"

fun well_formed :: "telnet_item \<Rightarrow> bool" where
  "well_formed (Data b) = True"
| "well_formed (Negotiate c opt) = (c \<in> {251, 252, 253, 254})"
| "well_formed (Command c) = (c \<notin> {250, 251, 252, 253, 254, 255})"
| "well_formed (Subneg ps) = (\<not> iac_se ps)"

lemma filter_subneg:
  "\<not> iac_se ps \<Longrightarrow>
     filter_loop telnetStateSubnegotiation (double_iac ps @ 255 # 240 # rest)
       = filter_loop telnetStateData rest"
  "\<not> iac_se (255 # ps) \<Longrightarrow>
     filter_loop telnetStateSubnegotiationIAC (double_iac ps @ 255 # 240 # rest)
       = filter_loop telnetStateData rest"
proof (induction ps)
  case (Cons p ps)
  { case 1
    then show ?case using Cons.IH by (cases ps) (auto split: prod.splits) }
  { case 2
    then show ?case using Cons.IH by (cases ps) (auto split: prod.splits) }
qed auto

lemma filter_item:
  "well_formed i \<Longrightarrow> filter_loop telnetStateData (wire i @ rest)
     = (let (s, out) = filter_loop telnetStateData rest in (s, data_of i @ out))"
  by (cases i) (auto simp: filter_subneg split: prod.splits)

lemma filter_items:
  "\<forall>i \<in> set items. well_formed i \<Longrightarrow>
     Filter telnetStateData (concat (map wire items))
       = (telnetStateData, concat (map data_of items))"
proof (induction items)
  case (Cons i items)
  then show ?case by (simp add: Filter_loop filter_item)
qed (simp add: Filter_loop)

text \<open>
  C21. Reading a Telnet stream. Let an upstream peer send any sequence of data bytes, option
  negotiations, two byte commands and subnegotiations, each 255 among the data doubled, and let the
  network deliver it in chunks cut anywhere, inside a negotiation included. Then the filter, called
  once per chunk as \<open>readUpstream\<close> calls it, hands on exactly the data bytes in order, and it ends
  in the data state. Subnegotiation parameters are assumed to hold no 255 directly followed by 240.
\<close>

theorem telnet_stream_exact:
  assumes "\<forall>i \<in> set items. well_formed i"
    and "concat chunks = concat (map wire items)"
  shows "feed Filter telnetStateData chunks = (telnetStateData, concat (map data_of items))"
  using assms by (simp add: telnet.feed_run filter_items)

theorem telnet_stream_exact_witness:
  "feed Filter telnetStateData [[104, 255], [253, 24, 255, 250, 24], [1, 255, 240, 255], [255, 105]]
     = (telnetStateData, [104, 255, 105])"
  using telnet_stream_exact
    [of "[Data 104, Negotiate 253 24, Subneg [24, 1], Data 255, Data 105]"
        "[[104, 255], [253, 24, 255, 250, 24], [1, 255, 240, 255], [255, 105]]"]
  by simp

text \<open>
  The escaped parameter 255 followed by 240. When the parameters of a subnegotiation hold a
  byte 255 (doubled on the wire) directly followed by the byte 240, the filter takes the second 255
  and the 240 for the end of the subnegotiation: it is back in the data state in the middle of the
  parameters and treats the rest of them as terminal data.
\<close>

lemma telnet_subneg_ends_early:
  assumes "\<not> iac_se (ps @ [255])"
  shows "Filter telnetStateData (wire (Subneg (ps @ [255, 240] @ qs)))
       = Filter telnetStateData (double_iac qs @ [255, 240])"
proof -
  have split_off: "\<not> iac_se (as @ [255]) \<Longrightarrow>
        filter_loop telnetStateSubnegotiation (double_iac (as @ [255, 240] @ qs) @ r)
          = filter_loop telnetStateData (double_iac qs @ r)"
    "\<not> iac_se (255 # as @ [255]) \<Longrightarrow>
        filter_loop telnetStateSubnegotiationIAC (double_iac (as @ [255, 240] @ qs) @ r)
          = filter_loop telnetStateData (double_iac qs @ r)" for as r
  proof (induction as)
    case (Cons p as)
    { case 1
      then show ?case using Cons.IH by (cases as) (auto split: prod.splits) }
    { case 2
      then show ?case using Cons.IH by (cases as) (auto split: prod.splits) }
  qed (auto split: prod.splits)
  show ?thesis using split_off(1) [OF assms, of "[255, 240]"]
    by (simp add: Filter_loop split: prod.splits)
qed

end
