(* ===== verification/Utf8.thy ===== *)
theory Utf8
  imports Prelude
begin

text \<open>
  How Go lays a string out in bytes (package \<open>unicode/utf8\<close>): the encoding of a rune list,
  which \<open>[]byte(s)\<close> and \<open>len(s)\<close> see, and the decoding a range loop or
  \<open>[]rune(s)\<close> does, which reads each byte of an ill-formed sequence as U+FFFD.
\<close>

definition rune_error :: rune where "rune_error = 65533"

definition valid_rune :: "rune \<Rightarrow> bool" where
  "valid_rune r \<longleftrightarrow> 0 \<le> r \<and> r < 55296 \<or> 57344 \<le> r \<and> r < 1114112"

text \<open>\<open>utf8.AppendRune\<close>, byte values as integers\<close>

definition rune_bytes :: "rune \<Rightarrow> int list" where
  "rune_bytes r =
     (if 0 \<le> r \<and> r < 128 then [r]
      else if 0 \<le> r \<and> r < 2048 then [192 + r div 64, 128 + r mod 64]
      else if \<not> valid_rune r then [239, 191, 189]
      else if r < 65536 then [224 + r div 4096, 128 + r div 64 mod 64, 128 + r mod 64]
      else [240 + r div 262144, 128 + r div 4096 mod 64, 128 + r div 64 mod 64, 128 + r mod 64])"

definition encode_utf8 :: "str \<Rightarrow> byte list" where
  "encode_utf8 s = map word_of_int (concat (map rune_bytes s))"

definition utf8_len :: "str \<Rightarrow> nat" where
  "utf8_len s = length (encode_utf8 s)"

text \<open>\<open>utf8.DecodeRune\<close>: the first rune of a byte string and its width.\<close>

definition cont :: "int \<Rightarrow> bool" where
  "cont b \<longleftrightarrow> 128 \<le> b \<and> b \<le> 191"

definition second_ok :: "int \<Rightarrow> int \<Rightarrow> bool" where
  "second_ok b0 b1 \<longleftrightarrow> cont b1 \<and> (b0 = 224 \<longrightarrow> 160 \<le> b1) \<and> (b0 = 237 \<longrightarrow> b1 \<le> 159)
     \<and> (b0 = 240 \<longrightarrow> 144 \<le> b1) \<and> (b0 = 244 \<longrightarrow> b1 \<le> 143)"

definition decode_rune :: "int list \<Rightarrow> rune \<times> nat" where
  "decode_rune bs =
     (case bs of
        [] \<Rightarrow> (rune_error, 0)
      | b0 # t0 \<Rightarrow>
          if b0 < 128 then (b0, 1)
          else case t0 of
            [] \<Rightarrow> (rune_error, 1)
          | b1 # t1 \<Rightarrow>
              if \<not> second_ok b0 b1 \<or> b0 < 194 \<or> 244 < b0 then (rune_error, 1)
              else if b0 < 224 then ((b0 - 192) * 64 + (b1 - 128), 2)
              else case t1 of
                [] \<Rightarrow> (rune_error, 1)
              | b2 # t2 \<Rightarrow>
                  if \<not> cont b2 then (rune_error, 1)
                  else if b0 < 240 then ((b0 - 224) * 4096 + (b1 - 128) * 64 + (b2 - 128), 3)
                  else case t2 of
                    [] \<Rightarrow> (rune_error, 1)
                  | b3 # t3 \<Rightarrow>
                      if \<not> cont b3 then (rune_error, 1)
                      else ((b0 - 240) * 262144 + (b1 - 128) * 4096 + (b2 - 128) * 64
                             + (b3 - 128), 4))"

lemma decode_rune_width: "bs \<noteq> [] \<Longrightarrow> 0 < snd (decode_rune bs)"
  by (auto simp: decode_rune_def split: list.splits)

function decode_ints :: "int list \<Rightarrow> str" where
  "decode_ints bs =
     (if bs = [] then []
      else fst (decode_rune bs) # decode_ints (drop (snd (decode_rune bs)) bs))"
  by pat_completeness auto
termination
  by (relation "measure length") (auto simp: decode_rune_width)

declare decode_ints.simps [simp del]

definition decode_utf8 :: "byte list \<Rightarrow> str" where
  "decode_utf8 bs = decode_ints (map uint bs)"

subsection \<open>Round trip\<close>

lemma rune_bytes_range: "b \<in> set (rune_bytes r) \<Longrightarrow> 0 \<le> b \<and> b < 256"
  by (auto simp: rune_bytes_def valid_rune_def split: if_splits)

lemma uint_encode: "map uint (encode_utf8 s) = concat (map rune_bytes s)"
proof -
  have "\<forall>b \<in> set (concat (map rune_bytes s)). uint (word_of_int b :: byte) = b"
    using rune_bytes_range by (auto simp: uint_word_of_int)
  then have "map (\<lambda>b. uint (word_of_int b :: byte)) (concat (map rune_bytes s))
      = concat (map rune_bytes s)"
    by (intro map_idI) blast
  then show ?thesis by (simp add: encode_utf8_def comp_def)
qed

lemma decode_two:
  "2 \<le> a \<Longrightarrow> a < 32 \<Longrightarrow> 0 \<le> b \<Longrightarrow> b < 64 \<Longrightarrow>
     decode_rune ((192 + a) # (128 + b) # rest) = (a * 64 + b, 2)"
  by (auto simp: decode_rune_def second_ok_def cont_def)

lemma decode_three:
  "0 \<le> a \<Longrightarrow> a < 16 \<Longrightarrow> 0 \<le> b \<Longrightarrow> b < 64 \<Longrightarrow> 0 \<le> c \<Longrightarrow> c < 64 \<Longrightarrow>
     (a = 0 \<longrightarrow> 32 \<le> b) \<Longrightarrow> (a = 13 \<longrightarrow> b < 32) \<Longrightarrow>
     decode_rune ((224 + a) # (128 + b) # (128 + c) # rest) = (a * 4096 + b * 64 + c, 3)"
  by (auto simp: decode_rune_def second_ok_def cont_def)

lemma decode_four:
  "0 \<le> a \<Longrightarrow> a < 5 \<Longrightarrow> 0 \<le> b \<Longrightarrow> b < 64 \<Longrightarrow> 0 \<le> c \<Longrightarrow> c < 64 \<Longrightarrow> 0 \<le> d \<Longrightarrow> d < 64 \<Longrightarrow>
     (a = 0 \<longrightarrow> 16 \<le> b) \<Longrightarrow> (a = 4 \<longrightarrow> b < 16) \<Longrightarrow>
     decode_rune ((240 + a) # (128 + b) # (128 + c) # (128 + d) # rest)
       = (a * 262144 + b * 4096 + c * 64 + d, 4)"
  by (auto simp: decode_rune_def second_ok_def cont_def)

text \<open>The base 64 digits of a rune.\<close>

lemma base64_digits:
  fixes r :: int
  shows "r div 64 * 64 + r mod 64 = r"
    and "r div 4096 * 4096 + r div 64 mod 64 * 64 + r mod 64 = r"
    and "r div 262144 * 262144 + r div 4096 mod 64 * 4096 + r div 64 mod 64 * 64 + r mod 64 = r"
proof -
  have q2: "r div 4096 = r div 64 div 64"
    using zdiv_zmult2_eq [of 64 r 64] by simp
  have q3: "r div 262144 = r div 4096 div 64"
    using zdiv_zmult2_eq [of 64 r 4096] by simp
  have e1: "r = r div 64 * 64 + r mod 64" by simp
  have e2: "r div 64 = r div 4096 * 64 + r div 64 mod 64" by (simp add: q2)
  have e3: "r div 4096 = r div 262144 * 64 + r div 4096 mod 64" by (simp add: q3)
  show "r div 64 * 64 + r mod 64 = r" by simp
  show "r div 4096 * 4096 + r div 64 mod 64 * 64 + r mod 64 = r"
    using e1 e2 by linarith
  show "r div 262144 * 262144 + r div 4096 mod 64 * 4096 + r div 64 mod 64 * 64 + r mod 64 = r"
    using e1 e2 e3 by linarith
qed

lemma mod64: "0 \<le> (q :: int) mod 64" "(q :: int) mod 64 < 64"
  by simp_all

lemma base64_split3:
  fixes r :: int
  obtains a b c where "a = r div 4096" "b = r div 64 mod 64" "c = r mod 64"
    "r = a * 4096 + b * 64 + c" "0 \<le> b" "b < 64" "0 \<le> c" "c < 64"
  by (rule that [OF refl refl refl base64_digits(2) [of r, symmetric]
        mod64 [of "r div 64"] mod64 [of r]])

lemma base64_split4:
  fixes r :: int
  obtains a b c d where "a = r div 262144" "b = r div 4096 mod 64" "c = r div 64 mod 64"
    "d = r mod 64" "r = a * 262144 + b * 4096 + c * 64 + d"
    "0 \<le> b" "b < 64" "0 \<le> c" "c < 64" "0 \<le> d" "d < 64"
  by (rule that [OF refl refl refl refl base64_digits(3) [of r, symmetric]
        mod64 [of "r div 4096"] mod64 [of "r div 64"] mod64 [of r]])

lemma decode_bytes_three:
  assumes "valid_rune r" "2048 \<le> r" "r < 65536"
  shows "decode_rune (rune_bytes r @ rest) = (r, length (rune_bytes r))"
proof -
  obtain a b c where abc: "a = r div 4096" "b = r div 64 mod 64" "c = r mod 64"
    and r: "r = a * 4096 + b * 64 + c" and rng: "0 \<le> b" "b < 64" "0 \<le> c" "c < 64"
    by (rule base64_split3)
  have hi: "0 \<le> a" "a < 16" and low: "a = 0 \<longrightarrow> 32 \<le> b"
    using r rng assms(2,3) by linarith+
  have sur: "a = 13 \<longrightarrow> b < 32"
    using assms(1) r rng unfolding valid_rune_def by linarith
  have "rune_bytes r = [224 + a, 128 + b, 128 + c]"
    unfolding abc rune_bytes_def using assms by simp
  then have "decode_rune (rune_bytes r @ rest) = (a * 4096 + b * 64 + c, 3)"
    and "length (rune_bytes r) = 3"
    using decode_three [OF hi rng low sur, of rest] by simp_all
  with r show ?thesis by simp
qed

lemma decode_bytes_four:
  assumes "valid_rune r" "65536 \<le> r"
  shows "decode_rune (rune_bytes r @ rest) = (r, length (rune_bytes r))"
proof -
  obtain a b c d where abcd: "a = r div 262144" "b = r div 4096 mod 64" "c = r div 64 mod 64"
    "d = r mod 64" and r: "r = a * 262144 + b * 4096 + c * 64 + d"
    and rng: "0 \<le> b" "b < 64" "0 \<le> c" "c < 64" "0 \<le> d" "d < 64"
    by (rule base64_split4)
  have up: "r < 1114112"
    using assms unfolding valid_rune_def by linarith
  have hi: "0 \<le> a" "a < 5" and low: "a = 0 \<longrightarrow> 16 \<le> b" and top: "a = 4 \<longrightarrow> b < 16"
    using r rng assms(2) up by linarith+
  have "rune_bytes r = [240 + a, 128 + b, 128 + c, 128 + d]"
    unfolding abcd rune_bytes_def using assms by simp
  then have "decode_rune (rune_bytes r @ rest) = (a * 262144 + b * 4096 + c * 64 + d, 4)"
    and "length (rune_bytes r) = 4"
    using decode_four [OF hi rng low top, of rest] by simp_all
  with r show ?thesis by simp
qed

lemma decode_bytes_two:
  assumes "128 \<le> r" "r < 2048"
  shows "decode_rune (rune_bytes r @ rest) = (r, length (rune_bytes r))"
proof -
  have "2 \<le> r div 64" "r div 64 < 32"
    using assms by linarith+
  then have "decode_rune ((192 + r div 64) # (128 + r mod 64) # rest) = (r, 2)"
    by (subst decode_two) simp_all
  with assms show ?thesis by (simp add: rune_bytes_def)
qed

lemma decode_rune_bytes:
  assumes "valid_rune r"
  shows "decode_rune (rune_bytes r @ rest) = (r, length (rune_bytes r))"
proof -
  consider "0 \<le> r" "r < 128" | "128 \<le> r" "r < 2048" | "2048 \<le> r" "r < 65536"
    | "65536 \<le> r"
    using assms unfolding valid_rune_def by linarith
  then show ?thesis
  proof cases
    case 1
    then show ?thesis by (simp add: rune_bytes_def decode_rune_def)
  next
    case 2
    then show ?thesis by (rule decode_bytes_two)
  next
    case 3
    with assms show ?thesis by (rule decode_bytes_three)
  next
    case 4
    with assms show ?thesis by (rule decode_bytes_four)
  qed
qed

lemma rune_bytes_nonempty: "rune_bytes r \<noteq> []"
  by (simp add: rune_bytes_def)

lemma decode_encode_utf8: "\<forall>r \<in> set s. valid_rune r \<Longrightarrow> decode_utf8 (encode_utf8 s) = s"
proof -
  have "\<forall>r \<in> set s. valid_rune r \<Longrightarrow> decode_ints (concat (map rune_bytes s)) = s"
  proof (induction s)
    case (Cons r s)
    then show ?case
      by (subst decode_ints.simps) (simp add: decode_rune_bytes rune_bytes_nonempty)
  qed (simp add: decode_ints.simps)
  then show "\<forall>r \<in> set s. valid_rune r \<Longrightarrow> ?thesis"
    by (simp add: decode_utf8_def uint_encode)
qed

lemma utf8_len_Nil [simp]: "utf8_len [] = 0"
  by (simp add: utf8_len_def encode_utf8_def)

lemma utf8_len_Cons [simp]: "utf8_len (r # s) = length (rune_bytes r) + utf8_len s"
  by (simp add: utf8_len_def encode_utf8_def)

lemma encode_utf8_append [simp]: "encode_utf8 (s @ t) = encode_utf8 s @ encode_utf8 t"
  by (simp add: encode_utf8_def)

lemma length_le_utf8_len: "length s \<le> utf8_len s"
proof (induction s)
  case (Cons r s)
  have "1 \<le> length (rune_bytes r)"
    using rune_bytes_nonempty [of r] by (cases "rune_bytes r") auto
  with Cons show ?case by simp
qed simp

end
