(* ===== verification/Decoder.thy ===== *)
theory Decoder
  imports Scanner GoStrings Utf8
begin

text \<open>
  \<open>gateway/decoder.go\<close>: from the bytes the Telnet filter lets through to terminal text. The
  code page table (\<open>golang.org/x/text/encoding/charmap\<close>) is not part of the repository: the
  decoder is the parameter \<open>dec\<close>, \<open>None\<close> standing for its error, and the lemmas that
  need to know more about it use \<open>charmap_table\<close>, which says what the package documents: a
  charmap decodes every byte by a fixed table and never fails.

  The repair of the SMAUG artifact is the loop of \<open>fixSmaugYaArtifact\<close>; its state is the
  pair of \<open>changed\<close> and the rune left of the current position, which the loop may have
  rewritten itself.
\<close>

definition Ya_upper :: rune where "Ya_upper = 1071"
definition Ya_lower :: rune where "Ya_lower = 1103"

definition isLowerCyrillic :: "rune \<Rightarrow> bool" where
  "isLowerCyrillic r =
     (if r = 0 \<or> r = rune_error then False
      else if r = 1105 then True
      else 1072 \<le> r \<and> r \<le> 1103)"

fun ya_step :: "bool \<times> rune \<Rightarrow> rune \<Rightarrow> (bool \<times> rune) \<times> str" where
  "ya_step (changed, prev) r =
     (if r \<noteq> Ya_upper then ((changed, r), [r])
      else if isLowerCyrillic prev then ((True, Ya_lower), [Ya_lower])
      else ((changed, r), [r]))"

fun ya_loop :: "bool \<times> rune \<Rightarrow> str \<Rightarrow> (bool \<times> rune) \<times> str" where
  "ya_loop s [] = (s, [])"
| "ya_loop s (r # rs) =
     (let (s1, out1) = ya_step s r; (s2, out2) = ya_loop s1 rs in (s2, out1 @ out2))"

definition fixSmaugYaArtifact :: "str \<Rightarrow> str" where
  "fixSmaugYaArtifact s =
     (if s = [] \<or> Ya_upper \<notin> set s then s
      else let ((changed, _), runes) = ya_loop (False, 0) s
           in if \<not> changed then s else runes)"

definition Decode :: "(byte list \<Rightarrow> str option) \<Rightarrow> byte list \<Rightarrow> str" where
  "Decode dec input =
     (if input = [] then []
      else case dec input of
        None \<Rightarrow> decode_utf8 input
      | Some decoded \<Rightarrow> fixSmaugYaArtifact (replace_all [13, 10] [10] decoded))"

lemmas ya_defs = Ya_upper_def Ya_lower_def isLowerCyrillic_def rune_error_def

interpretation ya: shrinking_scanner ya_step ya_loop
  by unfold_locales auto

subsection \<open>The repair loop\<close>

text \<open>
  What the loop writes at a position, and its output with the flag left aside: the working form
  of the lemmas below.
\<close>

definition ya_out :: "rune \<Rightarrow> rune \<Rightarrow> rune" where
  "ya_out p r = (if r = Ya_upper \<and> isLowerCyrillic p then Ya_lower else r)"

fun ya_map :: "rune \<Rightarrow> str \<Rightarrow> str" where
  "ya_map p [] = []"
| "ya_map p (r # rs) = ya_out p r # ya_map (ya_out p r) rs"

lemma ya_step_out:
  "ya_step (c, p) r = ((c \<or> r = Ya_upper \<and> isLowerCyrillic p, ya_out p r), [ya_out p r])"
  by (simp add: ya_out_def)

lemma ya_loop_map: "snd (ya_loop (c, p) s) = ya_map p s"
  by (induction s arbitrary: c p) (simp_all add: ya_step_out case_prod_beta del: ya_step.simps)

lemma ya_loop_flag:
  "fst (fst (ya_loop (c, p) s)) \<or> ya_map p s = s"
proof (induction s arbitrary: c p)
  case (Cons r s)
  show ?case
  proof (cases "r = Ya_upper \<and> isLowerCyrillic p")
    case True
    have "fst (fst (ya_loop (True, q) s))" for q
      by (induction s arbitrary: q) (simp_all add: ya_step_out case_prod_beta del: ya_step.simps)
    with True show ?thesis by (simp add: ya_step_out case_prod_beta del: ya_step.simps)
  next
    case False
    then have "(c \<or> r = Ya_upper \<and> isLowerCyrillic p) = c" and "ya_out p r = r"
      by (auto simp: ya_out_def)
    with Cons [of c r] show ?thesis
      by (simp only: ya_loop.simps ya_step_out ya_map.simps case_prod_beta fst_conv snd_conv
          Let_def) simp
  qed
qed simp

lemma ya_loop_state:
  "snd (fst (ya_loop (c, p) s)) = (if s = [] then p else last (ya_map p s))"
proof (induction s arbitrary: c p)
  case (Cons r s)
  have "s \<noteq> [] \<Longrightarrow> ya_map q s \<noteq> []" for q by (cases s) auto
  with Cons show ?case by (simp add: ya_step_out case_prod_beta del: ya_step.simps)
qed simp

lemma ya_map_no_Ya: "Ya_upper \<notin> set s \<Longrightarrow> ya_map p s = s"
  by (induction s arbitrary: p) (simp_all add: ya_out_def)

lemma fix_eq_map: "fixSmaugYaArtifact s = ya_map 0 s"
proof -
  obtain c q out where l: "ya_loop (False, 0) s = ((c, q), out)" by (metis surj_pair)
  with ya_loop_map [of False 0 s] ya_loop_flag [of False 0 s]
  have "out = ya_map 0 s" "c \<or> ya_map 0 s = s" by simp_all
  with l show ?thesis by (auto simp: fixSmaugYaArtifact_def ya_map_no_Ya)
qed

lemma length_ya_map [simp]: "length (ya_map p s) = length s"
  by (induction s arbitrary: p) auto

lemma length_fixSmaug [simp]: "length (fixSmaugYaArtifact s) = length s"
  by (simp add: fix_eq_map)

lemma ya_map_nth:
  "i < length s \<Longrightarrow> ya_map p s ! i = ya_out (if i = 0 then p else ya_map p s ! (i - 1)) (s ! i)"
proof (induction s arbitrary: p i)
  case (Cons r s)
  show ?case
  proof (cases i)
    case (Suc j)
    with Cons.IH [of j "ya_out p r"] Cons.prems show ?thesis by (cases j) auto
  qed simp
qed simp

lemma not_lower_Ya [simp]: "\<not> isLowerCyrillic Ya_upper"
  by (simp add: ya_defs)

lemma lower_ya [simp]: "isLowerCyrillic Ya_lower"
  by (simp add: ya_defs)

lemma Ya_neq [simp]: "Ya_lower \<noteq> Ya_upper" "Ya_upper \<noteq> Ya_lower"
  by (simp_all add: ya_defs)

lemma not_lower_zero [simp]: "\<not> isLowerCyrillic 0"
  by (simp add: isLowerCyrillic_def)

text \<open>A text with no capital Ya after a lower case Cyrillic letter.\<close>

fun ya_clean :: "rune \<Rightarrow> str \<Rightarrow> bool" where
  "ya_clean p [] = True"
| "ya_clean p (r # rs) = (\<not> (r = Ya_upper \<and> isLowerCyrillic p) \<and> ya_clean r rs)"

lemma ya_map_clean: "ya_clean p (ya_map p s)"
  by (induction s arbitrary: p) (auto simp: ya_out_def)

lemma ya_clean_map: "ya_clean p s \<Longrightarrow> ya_map p s = s"
  by (induction s arbitrary: p) (auto simp: ya_out_def)

lemma fixSmaug_clean: "ya_clean 0 (fixSmaugYaArtifact s)"
  by (simp add: fix_eq_map ya_map_clean)

lemma fixSmaug_id: "ya_clean 0 s \<Longrightarrow> fixSmaugYaArtifact s = s"
  by (simp add: fix_eq_map ya_clean_map)

text \<open>
  C33. The repair of the SMAUG artifact. The output has the length of the input; a position is
  rewritten exactly when it holds a capital Ya and the rune before it in the output is a lower case
  Cyrillic letter, so that a run of artifacts after a lower case letter is repaired as a whole; the
  result needs no further repair, so the function is idempotent.
\<close>

theorem fixSmaug_pointwise:
  "length (fixSmaugYaArtifact s) = length s
   \<and> (\<forall>i < length s. fixSmaugYaArtifact s ! i =
        (if s ! i = Ya_upper \<and> 0 < i \<and> isLowerCyrillic (fixSmaugYaArtifact s ! (i - 1))
         then Ya_lower else s ! i))
   \<and> fixSmaugYaArtifact (fixSmaugYaArtifact s) = fixSmaugYaArtifact s"
proof (intro conjI allI impI)
  show "fixSmaugYaArtifact (fixSmaugYaArtifact s) = fixSmaugYaArtifact s"
    by (rule fixSmaug_id) (rule fixSmaug_clean)
next
  fix i
  assume "i < length s"
  then show "fixSmaugYaArtifact s ! i =
      (if s ! i = Ya_upper \<and> 0 < i \<and> isLowerCyrillic (fixSmaugYaArtifact s ! (i - 1))
       then Ya_lower else s ! i)"
    using ya_map_nth [of i s 0] by (cases i) (simp_all add: fix_eq_map ya_out_def)
qed simp

theorem fixSmaug_pointwise_witness:
  "fixSmaugYaArtifact [1079, 1077, 1084, 1083, 1071, 32, 1071, 1088] ! 4 = 1103
   \<and> fixSmaugYaArtifact [1079, 1077, 1084, 1083, 1071, 32, 1071, 1088] ! 6 = 1071"
proof -
  let ?s = "[1079, 1077, 1084, 1083, 1071, 32, 1071, 1088] :: str"
  note at = fixSmaug_pointwise [of ?s, THEN conjunct2, THEN conjunct1, rule_format]
  have three: "fixSmaugYaArtifact ?s ! 3 = 1083" and five: "fixSmaugYaArtifact ?s ! 5 = 32"
    using at [of 3] at [of 5] by (simp_all add: Ya_upper_def)
  show ?thesis using at [of 4] at [of 6] three five by (simp add: ya_defs)
qed

subsection \<open>Where the reads of the network cut the text\<close>

definition charmap_table :: "(byte list \<Rightarrow> str option) \<Rightarrow> (byte \<Rightarrow> rune) \<Rightarrow> bool" where
  "charmap_table dec tbl \<longleftrightarrow> (\<forall>bs. dec bs = Some (map tbl bs))"

abbreviation crlf_to_lf :: "str \<Rightarrow> str" where
  "crlf_to_lf s \<equiv> replace_all [13, 10] [10] s"

lemma crlf_Cons:
  "crlf_to_lf (c # s) =
     (if c = 13 \<and> s \<noteq> [] \<and> hd s = 10 then 10 # crlf_to_lf (tl s) else c # crlf_to_lf s)"
  by (cases s) (auto simp: replace_all_Cons)

lemma crlf_append:
  "\<not> (u \<noteq> [] \<and> last u = 13 \<and> v \<noteq> [] \<and> hd v = 10) \<Longrightarrow>
     crlf_to_lf (u @ v) = crlf_to_lf u @ crlf_to_lf v"
proof (induction u rule: length_induct)
  case (1 u)
  show ?case
  proof (cases u)
    case (Cons c w)
    show ?thesis
    proof (cases "c = 13 \<and> w \<noteq> [] \<and> hd w = 10")
      case True
      with Cons 1 have "crlf_to_lf (tl w @ v) = crlf_to_lf (tl w) @ crlf_to_lf v"
        by (cases w) (auto split: if_splits)
      with True Cons show ?thesis by (simp add: crlf_Cons)
    next
      case False
      with Cons 1 have "crlf_to_lf (w @ v) = crlf_to_lf w @ crlf_to_lf v"
        by (cases "w = []") (auto split: if_splits)
      with False Cons "1.prems" show ?thesis by (cases "w = []") (auto simp: crlf_Cons)
    qed
  qed simp
qed

lemma length_crlf_split:
  assumes "u \<noteq> []" "last u = 13" "v \<noteq> []" "hd v = 10"
  shows "length (crlf_to_lf (u @ v)) < length (crlf_to_lf u) + length (crlf_to_lf v)"
proof -
  obtain u' where u: "u = u' @ [13]" using assms by (metis append_butlast_last_id)
  obtain v' where v: "v = 10 # v'" using assms by (cases v) auto
  have "crlf_to_lf (u' @ 13 # 10 # v') = crlf_to_lf u' @ 10 # crlf_to_lf v'"
    by (subst crlf_append) (auto simp: crlf_Cons)
  moreover have "crlf_to_lf u = crlf_to_lf u' @ [13]"
    unfolding u by (subst crlf_append) (auto simp: crlf_Cons)
  ultimately show ?thesis by (simp add: u v crlf_Cons)
qed

lemma crlf_eq_Nil [simp]: "crlf_to_lf s = [] \<longleftrightarrow> s = []"
  by (cases s) (auto simp: crlf_Cons)

lemma hd_crlf_Ya: "s \<noteq> [] \<Longrightarrow> hd (crlf_to_lf s) = Ya_upper \<longleftrightarrow> hd s = Ya_upper"
  by (cases s) (auto simp: crlf_Cons Ya_upper_def)

lemma ya_map_append:
  "ya_map p (u @ v) = ya_map p u @ ya_map (if u = [] then p else last (ya_map p u)) v"
  using ya.run_append [of "(False, p)" u v] ya_loop_state [of False p u]
  by (simp add: case_prod_beta) (metis prod.collapse snd_conv ya_loop_map)

lemma ya_map_prev:
  "\<not> (s \<noteq> [] \<and> hd s = Ya_upper \<and> isLowerCyrillic p) \<Longrightarrow> ya_map p s = ya_map 0 s"
  by (cases s) (auto simp: ya_out_def)

lemma fixSmaug_append:
  "fixSmaugYaArtifact (u @ v) = fixSmaugYaArtifact u @ fixSmaugYaArtifact v \<longleftrightarrow>
     \<not> (u \<noteq> [] \<and> v \<noteq> [] \<and> hd v = Ya_upper \<and> isLowerCyrillic (last (fixSmaugYaArtifact u)))"
proof -
  define p where "p = (if u = [] then 0 else last (ya_map 0 u))"
  have split: "fixSmaugYaArtifact (u @ v) = fixSmaugYaArtifact u @ ya_map p v"
    by (simp add: fix_eq_map ya_map_append p_def)
  show ?thesis
  proof (cases "v \<noteq> [] \<and> hd v = Ya_upper \<and> isLowerCyrillic p")
    case True
    then have "hd (ya_map p v) = Ya_lower" "hd (ya_map 0 v) = Ya_upper"
      by (cases v; simp add: ya_out_def)+
    then have "ya_map p v \<noteq> ya_map 0 v" by auto
    with True split show ?thesis by (auto simp: p_def fix_eq_map split: if_splits)
  next
    case False
    then have "ya_map p v = ya_map 0 v" by (intro ya_map_prev) auto
    with False split show ?thesis by (auto simp: p_def fix_eq_map)
  qed
qed

lemma Decode_table:
  "charmap_table dec tbl \<Longrightarrow> Decode dec bs = fixSmaugYaArtifact (crlf_to_lf (map tbl bs))"
  by (simp add: charmap_table_def Decode_def fixSmaugYaArtifact_def)

text \<open>
  C34. Decoding read by read. The decoder is called on each chunk alone and keeps no state, so the
  text of two chunks is the text of the whole exactly when the cut lies neither between a carriage
  return and its line feed nor between a lower case Cyrillic letter and a capital Ya. At such a cut
  the line end is not normalised, or the artifact is not repaired.
\<close>

theorem decode_chunk_boundary:
  assumes tbl: "charmap_table dec tbl" and ne: "xs \<noteq> []" "ys \<noteq> []"
  shows "Decode dec (xs @ ys) = Decode dec xs @ Decode dec ys \<longleftrightarrow>
     \<not> (tbl (last xs) = 13 \<and> tbl (hd ys) = 10)
     \<and> \<not> (isLowerCyrillic (last (Decode dec xs)) \<and> tbl (hd ys) = Ya_upper)"
proof (cases "tbl (last xs) = 13 \<and> tbl (hd ys) = 10")
  case True
  with ne have "length (Decode dec (xs @ ys)) < length (Decode dec xs @ Decode dec ys)"
    using length_crlf_split [of "map tbl xs" "map tbl ys"]
    by (simp add: Decode_table [OF tbl] last_map hd_map)
  with True show ?thesis by auto
next
  case False
  with ne have "crlf_to_lf (map tbl (xs @ ys)) = crlf_to_lf (map tbl xs) @ crlf_to_lf (map tbl ys)"
    by (simp add: crlf_append last_map hd_map)
  with False ne hd_crlf_Ya [of "map tbl ys"] show ?thesis
    by (auto simp: Decode_table [OF tbl] fixSmaug_append hd_map)
qed

text \<open>The Windows-1251 table, to instantiate the parameter.\<close>

definition cp1251_high :: "rune list" where
  "cp1251_high =
    [1026, 1027, 8218, 1107, 8222, 8230, 8224, 8225, 8364, 8240, 1033, 8249, 1034, 1036, 1035, 1039,
     1106, 8216, 8217, 8220, 8221, 8226, 8211, 8212, 65533, 8482, 1113, 8250, 1114, 1116, 1115, 1119,
     160, 1038, 1118, 1032, 164, 1168, 166, 167, 1025, 169, 1028, 171, 172, 173, 174, 1031,
     176, 177, 1030, 1110, 1169, 181, 182, 183, 1105, 8470, 1108, 187, 1112, 1029, 1109, 1111]"

definition cp1251 :: "byte \<Rightarrow> rune" where
  "cp1251 b =
     (if b < 128 then uint b
      else if b < 192 then cp1251_high ! nat (uint b - 128)
      else uint b + 848)"

lemma charmap_table_cp1251: "charmap_table (\<lambda>bs. Some (map cp1251 bs)) cp1251"
  by (simp add: charmap_table_def)

theorem decode_chunk_boundary_witness:
  "Decode (\<lambda>bs. Some (map cp1251 bs)) ([235] @ [223]) = [1083, 1103]
   \<and> Decode (\<lambda>bs. Some (map cp1251 bs)) ([235] @ [223]) \<noteq>
       Decode (\<lambda>bs. Some (map cp1251 bs)) [235] @ Decode (\<lambda>bs. Some (map cp1251 bs)) [223]"
proof -
  let ?dec = "\<lambda>bs :: byte list. Some (map cp1251 bs)"
  have one: "Decode ?dec [235] = [1083]"
    by (simp add: Decode_def fixSmaugYaArtifact_def crlf_Cons cp1251_def Ya_upper_def)
  have "Decode ?dec ([235] @ [223]) = [1083, 1103]"
    by (simp add: Decode_def fixSmaugYaArtifact_def crlf_Cons cp1251_def ya_defs)
  moreover have "Decode ?dec ([235] @ [223]) \<noteq> Decode ?dec [235] @ Decode ?dec [223]"
    using decode_chunk_boundary [OF charmap_table_cp1251, of "[235]" "[223]"] one
    by (simp add: ya_defs cp1251_def)
  ultimately show ?thesis by simp
qed

end
