(* ===== verification/WsFrame.thy ===== *)
theory WsFrame
  imports Prelude
begin

unbundle bit_operations_syntax

text \<open>
  \<open>gateway/wsframe.go\<close>: WebSocket frames on the wire. A connection being read is the
  bytes that will still arrive and the error that follows them (\<open>EOF\<close> for an orderly close, a
  time-out or a reset otherwise); a connection being written is the bytes handed to it and the error
  its next \<open>Write\<close> returns, if any. \<open>ReadFull\<close> is \<open>io.ReadFull\<close>,
  \<open>be_bytes\<close> and \<open>be_value\<close> are \<open>binary.BigEndian\<close>.
\<close>

datatype io_err = EOF | UnexpectedEOF | ConnErr str

datatype ws_err = ReadErr io_err | PayloadTooLarge

record rconn =
  rc_data :: "byte list"
  rc_end :: io_err

record wconn =
  wc_out :: "byte list"
  wc_err :: "io_err option"

definition wsOpcodeClose :: byte where "wsOpcodeClose = 8"
definition wsOpcodeText :: byte where "wsOpcodeText = 1"

subsection \<open>Library operations\<close>

primrec be_bytes :: "nat \<Rightarrow> nat \<Rightarrow> byte list" where
  "be_bytes 0 v = []"
| "be_bytes (Suc n) v = be_bytes n (v div 256) @ [word_of_nat v]"

definition be_value :: "byte list \<Rightarrow> nat" where
  "be_value bs = foldl (\<lambda>acc b. acc * 256 + unat b) 0 bs"

definition ReadFull :: "nat \<Rightarrow> rconn \<Rightarrow> (io_err + byte list) \<times> rconn" where
  "ReadFull n c =
     (if n \<le> length (rc_data c) then (Inr (take n (rc_data c)), c\<lparr>rc_data := drop n (rc_data c)\<rparr>)
      else (Inl (if rc_end c = EOF \<and> rc_data c \<noteq> [] then UnexpectedEOF else rc_end c),
            c\<lparr>rc_data := []\<rparr>))"

text \<open>Sequencing with an early return on an error.\<close>

definition and_then ::
    "('c \<Rightarrow> ('e + 'a) \<times> 'c) \<Rightarrow> ('a \<Rightarrow> 'c \<Rightarrow> ('e + 'b) \<times> 'c) \<Rightarrow> 'c \<Rightarrow> ('e + 'b) \<times> 'c" where
  "and_then m f c = (case m c of (Inl e, c1) \<Rightarrow> (Inl e, c1) | (Inr x, c1) \<Rightarrow> f x c1)"

definition return :: "'a \<Rightarrow> 'c \<Rightarrow> ('e + 'a) \<times> 'c" where
  "return x c = (Inr x, c)"

definition throw :: "'e \<Rightarrow> 'c \<Rightarrow> ('e + 'a) \<times> 'c" where
  "throw e c = (Inl e, c)"

definition read_bytes :: "nat \<Rightarrow> rconn \<Rightarrow> (ws_err + byte list) \<times> rconn" where
  "read_bytes n c = (case ReadFull n c of (Inl e, c1) \<Rightarrow> (Inl (ReadErr e), c1)
                                       | (Inr bs, c1) \<Rightarrow> (Inr bs, c1))"

subsection \<open>Frames\<close>

definition frame_header :: "nat \<Rightarrow> byte list" where
  "frame_header payloadLen =
     (if payloadLen \<le> 125 then [128 OR wsOpcodeText, word_of_nat payloadLen]
      else if payloadLen \<le> 65535 then [128 OR wsOpcodeText, 126] @ be_bytes 2 payloadLen
      else [128 OR wsOpcodeText, 127] @ be_bytes 8 payloadLen)"

definition text_frame :: "byte list \<Rightarrow> byte list" where
  "text_frame payload = frame_header (length payload) @ payload"

definition writeTextFrame :: "wconn \<Rightarrow> byte list \<Rightarrow> io_err option \<times> wconn" where
  "writeTextFrame conn payload =
     (case wc_err conn of
        Some e \<Rightarrow> (Some e, conn)
      | None \<Rightarrow> (None, conn\<lparr>wc_out := wc_out conn @ text_frame payload\<rparr>))"

definition unmask :: "byte list \<Rightarrow> byte list \<Rightarrow> byte list" where
  "unmask maskKey payload =
     map (\<lambda>i. payload ! i XOR maskKey ! (i mod 4)) [0..<length payload]"

definition read_length :: "nat \<Rightarrow> rconn \<Rightarrow> (ws_err + nat) \<times> rconn" where
  "read_length payloadLen =
     (if payloadLen = 126 then and_then (read_bytes 2) (\<lambda>ext. return (be_value ext))
      else if payloadLen = 127 then
        and_then (read_bytes 8) (\<lambda>ext.
          if be_value ext > 2 ^ 20 then throw PayloadTooLarge else return (be_value ext))
      else return payloadLen)"

definition readFrame :: "rconn \<Rightarrow> (ws_err + byte \<times> byte list) \<times> rconn" where
  "readFrame =
     and_then (read_bytes 2) (\<lambda>header.
       let opcode = header ! 0 AND 15; masked = (header ! 1 AND 128 \<noteq> 0) in
       and_then (read_length (unat (header ! 1 AND 127))) (\<lambda>payloadLen.
         and_then (if masked then read_bytes 4 else return [0, 0, 0, 0]) (\<lambda>maskKey.
           and_then (if payloadLen > 0 then read_bytes payloadLen else return []) (\<lambda>payload.
             return (opcode, if masked then unmask maskKey payload else payload)))))"

subsection \<open>Bytes\<close>

lemma mask_nums: "mask 7 = (127 :: byte)" "mask 4 = (15 :: byte)"
  by (simp_all add: mask_eq_exp_minus_1)

lemma and_mask_small:
  "unat b < 128 \<Longrightarrow> (b :: byte) AND mask 7 = b"
  "unat b < 16 \<Longrightarrow> (b :: byte) AND mask 4 = b"
  by (rule less_mask_eq, simp add: word_less_nat_alt)+

lemma and_127: "unat b < 128 \<Longrightarrow> (b :: byte) AND 127 = b"
  using and_mask_small(1) [of b] by (simp add: mask_nums)

lemma bit_128: "bit (128 :: byte) n \<longleftrightarrow> n = 7"
proof -
  have "bit (2 ^ 7 :: byte) n \<longleftrightarrow> n = 7" by (subst bit_exp_iff) auto
  then show ?thesis by simp
qed

lemma and_128: "unat b < 128 \<Longrightarrow> (b :: byte) AND 128 = 0"
proof (rule bit_word_eqI)
  fix n
  assume "unat b < 128"
  then have "b = b AND mask 7" by (simp add: and_127 mask_nums)
  then have "bit b n \<longrightarrow> n \<noteq> 7" by (metis bit_and_iff bit_mask_iff less_irrefl)
  then have "\<not> (bit b n \<and> bit (128 :: byte) n)" using bit_128 by blast
  then show "bit (b AND 128) n = bit 0 n" by (simp add: bit_and_iff)
qed

lemma or_128_and_128: "((128 :: byte) OR b) AND 128 = 128"
  by (intro bit_word_eqI) (auto simp: bit_and_iff bit_or_iff)

lemma or_128_and_127: "unat b < 128 \<Longrightarrow> ((128 :: byte) OR b) AND 127 = b"
  using and_mask_small(1) [of b] by (simp add: bit.conj_disj_distrib2 mask_nums)

lemma or_128_and_15: "unat b < 16 \<Longrightarrow> ((128 :: byte) OR b) AND 15 = b"
  using and_mask_small(2) [of b] by (simp add: bit.conj_disj_distrib2 mask_nums)

lemma xor_twice: "((a :: byte) XOR b) XOR b = a"
  by (simp add: xor.assoc)

lemma length_be_bytes [simp]: "length (be_bytes n v) = n"
  by (induction n arbitrary: v) auto

lemma be_value_snoc: "be_value (bs @ [b]) = be_value bs * 256 + unat b"
  by (simp add: be_value_def)

lemma be_value_be_bytes: "be_value (be_bytes n v) = v mod 256 ^ n"
proof (induction n arbitrary: v)
  case 0
  then show ?case by (simp add: be_value_def)
next
  case (Suc n)
  have "v mod 256 ^ Suc n = 256 * (v div 256 mod 256 ^ n) + v mod 256"
    by (simp add: mod_mult2_eq)
  with Suc show ?case by (simp add: be_value_snoc unat_of_nat)
qed

lemma length_unmask [simp]: "length (unmask k p) = length p"
  by (simp add: unmask_def)

lemma unmask_Nil [simp]: "unmask k [] = []"
  by (simp add: unmask_def)

lemma unmask_unmask: "unmask k (unmask k p) = p"
  by (rule nth_equalityI) (simp_all add: unmask_def xor_twice)

subsection \<open>Reading what was written\<close>

lemma read_bytes_append:
  "length xs = n \<Longrightarrow>
     read_bytes n \<lparr>rc_data = xs @ ys, rc_end = e\<rparr> = (Inr xs, \<lparr>rc_data = ys, rc_end = e\<rparr>)"
  by (auto simp: read_bytes_def ReadFull_def)

lemma read_then:
  "length xs = n \<Longrightarrow>
     and_then (read_bytes n) f \<lparr>rc_data = xs @ ys, rc_end = e\<rparr> = f xs \<lparr>rc_data = ys, rc_end = e\<rparr>"
  by (simp add: and_then_def read_bytes_append)

lemma read_two_then:
  "and_then (read_bytes 2) f \<lparr>rc_data = a # b # ys, rc_end = e\<rparr>
     = f [a, b] \<lparr>rc_data = ys, rc_end = e\<rparr>"
  using read_then [of "[a, b]" 2 f ys e] by simp

lemma return_then: "and_then (return x) f c = f x c"
  by (simp add: and_then_def return_def)

lemma throw_then: "and_then (throw x) f c = (Inl x, c)"
  by (simp add: and_then_def throw_def)

text \<open>A frame in general: the length field and the mask are as the protocol lays them out.\<close>

definition length_field :: "nat \<Rightarrow> byte \<times> byte list" where
  "length_field n = (if n \<le> 125 then (word_of_nat n, [])
                     else if n \<le> 65535 then (126, be_bytes 2 n) else (127, be_bytes 8 n))"

lemma length_field_small: "unat (fst (length_field n)) < 128"
  by (auto simp: length_field_def unat_of_nat)

lemma read_length_then:
  assumes "n \<le> 2 ^ 20"
  shows "and_then (read_length (unat (fst (length_field n)))) f
           \<lparr>rc_data = snd (length_field n) @ ys, rc_end = e\<rparr>
       = f n \<lparr>rc_data = ys, rc_end = e\<rparr>"
proof -
  have "unat (word_of_nat n :: byte) = n" if "n \<le> 125"
    using that by (simp add: unat_of_nat)
  with assms show ?thesis
    by (auto simp: length_field_def read_length_def return_def be_value_be_bytes and_then_def
        read_bytes_append)
qed

lemma read_length_too_large:
  assumes "2 ^ 20 < n" "n < 2 ^ 64"
  shows "and_then (read_length (unat (fst (length_field n)))) f
           \<lparr>rc_data = snd (length_field n) @ ys, rc_end = e\<rparr>
       = (Inl PayloadTooLarge, \<lparr>rc_data = ys, rc_end = e\<rparr>)"
  using assms
  by (simp add: length_field_def read_length_def throw_def be_value_be_bytes and_then_def
      read_bytes_append)

text \<open>
  A final frame as RFC 6455 lays it out: the first byte, the length field with the mask bit, and
  the payload, masked when there is a key (as a client must send it).
\<close>

fun ws_frame :: "byte \<Rightarrow> byte list option \<Rightarrow> byte list \<Rightarrow> byte list" where
  "ws_frame b0 None p =
     b0 # fst (length_field (length p)) # snd (length_field (length p)) @ p"
| "ws_frame b0 (Some key) p =
     b0 # (128 OR fst (length_field (length p))) # snd (length_field (length p)) @ key @ unmask key p"

lemma text_frame_ws: "text_frame p = ws_frame (128 OR wsOpcodeText) None p"
  by (simp add: text_frame_def frame_header_def length_field_def)

lemma mask_bit_clear:
  "fst (length_field n) AND 128 = 0" "fst (length_field n) AND 127 = fst (length_field n)"
  by (simp_all add: and_128 and_127 length_field_small)

lemma mask_bit_set:
  "(128 OR fst (length_field n)) AND 128 \<noteq> 0"
  "(128 OR fst (length_field n)) AND 127 = fst (length_field n)"
  by (simp_all add: or_128_and_128 or_128_and_127 length_field_small)

lemma readFrame_ws_frame:
  assumes "length p \<le> 2 ^ 20" and "\<forall>k. key = Some k \<longrightarrow> length k = 4"
  shows "readFrame \<lparr>rc_data = ws_frame b0 key p @ rest, rc_end = e\<rparr>
       = (Inr (b0 AND 15, p), \<lparr>rc_data = rest, rc_end = e\<rparr>)"
proof (cases key)
  case None
  with assms(1) show ?thesis
    by (cases "p = []")
      (simp_all add: readFrame_def read_two_then mask_bit_clear read_length_then read_then
        return_then, simp_all add: return_def)
next
  case (Some k)
  with assms show ?thesis
    by (cases "p = []")
      (simp_all add: readFrame_def read_two_then mask_bit_set read_length_then read_then
        return_then, simp_all add: return_def unmask_unmask)
qed

lemma readFrame_too_large:
  assumes "2 ^ 20 < length p" "length p < 2 ^ 64"
  shows "fst (readFrame \<lparr>rc_data = ws_frame b0 key p @ rest, rc_end = e\<rparr>) = Inl PayloadTooLarge"
  using assms
  by (cases key)
    (simp_all add: readFrame_def read_two_then mask_bit_clear mask_bit_set read_length_too_large)

text \<open>
  C22. What the gateway writes, a reader of the same code reads back. The frame
  \<open>writeTextFrame\<close> puts on a connection is read by \<open>readFrame\<close> as opcode 1 with the very
  payload, and whatever follows on the connection is left there, for every payload up to the
  limit of 1 MiB that \<open>readFrame\<close> sets; a longer payload is refused as too large.
\<close>

theorem frame_roundtrip:
  assumes "writeTextFrame \<lparr>wc_out = [], wc_err = None\<rparr> payload = (None, w)"
    and "length payload < 2 ^ 64"
  shows "if length payload \<le> 2 ^ 20
         then readFrame \<lparr>rc_data = wc_out w @ rest, rc_end = e\<rparr>
                = (Inr (wsOpcodeText, payload), \<lparr>rc_data = rest, rc_end = e\<rparr>)
         else fst (readFrame \<lparr>rc_data = wc_out w @ rest, rc_end = e\<rparr>) = Inl PayloadTooLarge"
proof -
  have w: "wc_out w = ws_frame (128 OR wsOpcodeText) None payload"
    using assms(1) by (auto simp: writeTextFrame_def text_frame_ws)
  have "(128 OR wsOpcodeText) AND 15 = wsOpcodeText"
    by (rule or_128_and_15) (simp add: wsOpcodeText_def)
  with assms(2) show ?thesis
    by (simp add: w readFrame_ws_frame readFrame_too_large del: ws_frame.simps)
qed

theorem frame_roundtrip_witness:
  "readFrame \<lparr>rc_data = wc_out (snd (writeTextFrame \<lparr>wc_out = [], wc_err = None\<rparr> [123, 125])) @ [7],
              rc_end = EOF\<rparr>
     = (Inr (wsOpcodeText, [123, 125]), \<lparr>rc_data = [7], rc_end = EOF\<rparr>)"
  using frame_roundtrip [of "[123, 125]" "snd (writeTextFrame \<lparr>wc_out = [], wc_err = None\<rparr> [123, 125])"
      "[7]" EOF]
  by (simp add: writeTextFrame_def)

text \<open>
  C35. Frames of a client. A final frame of a browser, its payload masked with any key of four
  bytes, is read as its opcode and its unmasked payload, and exactly the frame is taken from the
  connection.
\<close>

theorem client_frame_read:
  assumes "length key = 4" and "unat opcode < 16" and "length payload \<le> 2 ^ 20"
  shows "readFrame \<lparr>rc_data = ws_frame (128 OR opcode) (Some key) payload @ rest, rc_end = e\<rparr>
       = (Inr (opcode, payload), \<lparr>rc_data = rest, rc_end = e\<rparr>)"
  using assms by (subst readFrame_ws_frame) (auto simp: or_128_and_15)

theorem client_frame_read_witness:
  "readFrame \<lparr>rc_data = [129, 130, 1, 2, 3, 4, 105, 107, 99], rc_end = EOF\<rparr>
     = (Inr (1, [104, 105]), \<lparr>rc_data = [99], rc_end = EOF\<rparr>)"
  using client_frame_read [of "[1, 2, 3, 4]" 1 "[104, 105]" "[99]" EOF]
  by (simp add: length_field_def unmask_def)

subsection \<open>Frames cut short\<close>

text \<open>
  A reader that succeeded on some input succeeds with the same result on a longer one and leaves the
  addition unread.
\<close>

definition extends :: "(rconn \<Rightarrow> ('e + 'a) \<times> rconn) \<Rightarrow> bool" where
  "extends m \<longleftrightarrow> (\<forall>d e x r e1 extra f. m \<lparr>rc_data = d, rc_end = e\<rparr> = (Inr x, \<lparr>rc_data = r, rc_end = e1\<rparr>) \<longrightarrow>
     m \<lparr>rc_data = d @ extra, rc_end = f\<rparr> = (Inr x, \<lparr>rc_data = r @ extra, rc_end = f\<rparr>))"

lemma extendsD:
  "extends m \<Longrightarrow> m \<lparr>rc_data = d, rc_end = e\<rparr> = (Inr x, \<lparr>rc_data = r, rc_end = e1\<rparr>) \<Longrightarrow>
     m \<lparr>rc_data = d @ extra, rc_end = f\<rparr> = (Inr x, \<lparr>rc_data = r @ extra, rc_end = f\<rparr>)"
  unfolding extends_def by blast

lemma extends_read_bytes: "extends (read_bytes n)"
  by (auto simp: extends_def read_bytes_def ReadFull_def split: if_splits)

lemma extends_return: "extends (return x)"
  by (auto simp: extends_def return_def)

lemma extends_throw: "extends (throw x)"
  by (auto simp: extends_def throw_def)

lemma extends_and_then:
  assumes "extends m" and "\<And>x. extends (f x)"
  shows "extends (and_then m f)"
  unfolding extends_def
proof (intro allI impI)
  fix d e x r e1 extra g
  assume s: "and_then m f \<lparr>rc_data = d, rc_end = e\<rparr> = (Inr x, \<lparr>rc_data = r, rc_end = e1\<rparr>)"
  then obtain y c where m: "m \<lparr>rc_data = d, rc_end = e\<rparr> = (Inr y, c)"
    and f: "f y c = (Inr x, \<lparr>rc_data = r, rc_end = e1\<rparr>)"
    by (auto simp: and_then_def split: prod.splits sum.splits)
  obtain d1 e2 where c: "c = \<lparr>rc_data = d1, rc_end = e2\<rparr>" by (cases c)
  have "m \<lparr>rc_data = d @ extra, rc_end = g\<rparr> = (Inr y, \<lparr>rc_data = d1 @ extra, rc_end = g\<rparr>)"
    using extendsD [OF assms(1)] m c by simp
  moreover have "f y \<lparr>rc_data = d1 @ extra, rc_end = g\<rparr> = (Inr x, \<lparr>rc_data = r @ extra, rc_end = g\<rparr>)"
    using extendsD [OF assms(2)] f c by simp
  ultimately show "and_then m f \<lparr>rc_data = d @ extra, rc_end = g\<rparr>
      = (Inr x, \<lparr>rc_data = r @ extra, rc_end = g\<rparr>)"
    by (simp add: and_then_def)
qed

lemmas extends_intros = extends_read_bytes extends_return extends_throw extends_and_then

lemma extends_readFrame: "extends readFrame"
  unfolding readFrame_def read_length_def Let_def by (auto intro!: extends_intros)

text \<open>
  C36. No frame is delivered from a part of it. When the connection ends inside a frame, masked or
  not, \<open>readFrame\<close> returns an error and no payload.
\<close>

theorem truncated_frame_error:
  assumes "ws_frame b0 key payload = part @ missing" and "missing \<noteq> []"
    and "length payload \<le> 2 ^ 20" and "\<forall>k. key = Some k \<longrightarrow> length k = 4"
  shows "\<exists>err. fst (readFrame \<lparr>rc_data = part, rc_end = e\<rparr>) = Inl err"
proof (rule ccontr)
  assume "\<nexists>err. fst (readFrame \<lparr>rc_data = part, rc_end = e\<rparr>) = Inl err"
  then obtain x where x: "fst (readFrame \<lparr>rc_data = part, rc_end = e\<rparr>) = Inr x"
    by (cases "fst (readFrame \<lparr>rc_data = part, rc_end = e\<rparr>)") auto
  obtain r e1 where "snd (readFrame \<lparr>rc_data = part, rc_end = e\<rparr>) = \<lparr>rc_data = r, rc_end = e1\<rparr>"
    by (metis rconn.cases)
  with x have "readFrame \<lparr>rc_data = part, rc_end = e\<rparr> = (Inr x, \<lparr>rc_data = r, rc_end = e1\<rparr>)"
    by (simp add: prod_eq_iff)
  then have "readFrame \<lparr>rc_data = part @ missing, rc_end = e\<rparr> = (Inr x, \<lparr>rc_data = r @ missing, rc_end = e\<rparr>)"
    by (rule extendsD [OF extends_readFrame])
  moreover have "readFrame \<lparr>rc_data = part @ missing, rc_end = e\<rparr>
      = (Inr (b0 AND 15, payload), \<lparr>rc_data = [], rc_end = e\<rparr>)"
    using readFrame_ws_frame [OF assms(3,4), of b0 "[]" e] assms(1) by simp
  ultimately show False using assms(2) by simp
qed

theorem truncated_frame_error_witness:
  "\<exists>err. fst (readFrame \<lparr>rc_data = [129, 130, 1, 2, 3, 4, 105], rc_end = EOF\<rparr>) = Inl err"
  by (rule truncated_frame_error [of 129 "Some [1, 2, 3, 4]" "[104, 105]" _ "[107]"])
    (simp_all add: length_field_def unmask_def)

end
