(* ===== verification/Metrics.thy ===== *)
theory Metrics
  imports Prelude
begin

text \<open>
  \<open>gateway/metrics.go\<close>: the counters of the gateway. Every counter is an
  \<open>atomic.Int64\<close>, a 64-bit word that wraps, and each method is one atomic update.
  Durations are integers, in nanoseconds as in \<open>time.Duration\<close>.

  \<open>ObserveQueueSendLatency\<close> compares \<open>elapsed.Seconds()\<close>, a double, with the bucket
  bounds. The nearest double of a bound is what an elapsed time of exactly that many nanoseconds
  gives, and the doubles of two times that differ by a nanosecond differ in this range, so the
  comparison in nanoseconds below decides the same.
\<close>

record metrics =
  m_wsConnections :: int64
  m_queueDepth :: int64
  m_queueSentTotal :: int64
  m_queueSendFailedTotal :: int64
  m_queueRejectedTotal :: int64
  m_queueDroppedTotal :: int64
  m_eventsBroadcastTotal :: int64
  m_queueSendLatencyCount :: int64
  m_queueSendLatencySumNs :: int64
  m_queueSendLatencyLe05 :: int64
  m_queueSendLatencyLe10 :: int64
  m_queueSendLatencyLe25 :: int64
  m_queueSendLatencyLe50 :: int64
  m_queueSendLatencyLe100 :: int64
  m_queueSendLatencyLe250 :: int64
  m_queueSendLatencyLe500 :: int64
  m_droppedBySession :: "str \<Rightarrow> int64 option"

definition queueSendLatencyBuckets :: "int list" where
  "queueSendLatencyBuckets = [50000000, 100000000, 250000000, 500000000,
     1000000000, 2500000000, 5000000000]"

definition NewMetrics :: metrics where
  "NewMetrics =
     \<lparr>m_wsConnections = 0, m_queueDepth = 0, m_queueSentTotal = 0, m_queueSendFailedTotal = 0,
      m_queueRejectedTotal = 0, m_queueDroppedTotal = 0, m_eventsBroadcastTotal = 0,
      m_queueSendLatencyCount = 0, m_queueSendLatencySumNs = 0,
      m_queueSendLatencyLe05 = 0, m_queueSendLatencyLe10 = 0, m_queueSendLatencyLe25 = 0,
      m_queueSendLatencyLe50 = 0, m_queueSendLatencyLe100 = 0, m_queueSendLatencyLe250 = 0,
      m_queueSendLatencyLe500 = 0, m_droppedBySession = (\<lambda>_. None)\<rparr>"

definition IncWSConnections :: "metrics \<Rightarrow> metrics" where
  "IncWSConnections m = m\<lparr>m_wsConnections := m_wsConnections m + 1\<rparr>"

definition DecWSConnections :: "metrics \<Rightarrow> metrics" where
  "DecWSConnections m = m\<lparr>m_wsConnections := m_wsConnections m + (- 1)\<rparr>"

definition SetQueueDepth :: "nat \<Rightarrow> metrics \<Rightarrow> metrics" where
  "SetQueueDepth depth m = m\<lparr>m_queueDepth := of_nat depth\<rparr>"

definition IncQueueSent :: "metrics \<Rightarrow> metrics" where
  "IncQueueSent m = m\<lparr>m_queueSentTotal := m_queueSentTotal m + 1\<rparr>"

definition IncQueueSendFailed :: "metrics \<Rightarrow> metrics" where
  "IncQueueSendFailed m = m\<lparr>m_queueSendFailedTotal := m_queueSendFailedTotal m + 1\<rparr>"

definition IncQueueRejected :: "metrics \<Rightarrow> metrics" where
  "IncQueueRejected m = m\<lparr>m_queueRejectedTotal := m_queueRejectedTotal m + 1\<rparr>"

definition AddQueueDropped :: "nat \<Rightarrow> metrics \<Rightarrow> metrics" where
  "AddQueueDropped count m = m\<lparr>m_queueDroppedTotal := m_queueDroppedTotal m + of_nat count\<rparr>"

definition AddQueueDroppedForSession :: "str \<Rightarrow> nat \<Rightarrow> metrics \<Rightarrow> metrics" where
  "AddQueueDroppedForSession sessionID count m =
     (if sessionID = [] \<or> count \<le> 0 then m
      else let counter = (case m_droppedBySession m sessionID of None \<Rightarrow> 0 | Some c \<Rightarrow> c)
           in m\<lparr>m_droppedBySession := (m_droppedBySession m)(sessionID \<mapsto> counter + of_nat count)\<rparr>)"

definition IncEventsBroadcast :: "metrics \<Rightarrow> metrics" where
  "IncEventsBroadcast m = m\<lparr>m_eventsBroadcastTotal := m_eventsBroadcastTotal m + 1\<rparr>"

definition ObserveQueueSendLatency :: "int \<Rightarrow> metrics \<Rightarrow> metrics" where
  "ObserveQueueSendLatency elapsed m0 =
     (if elapsed < 0 then m0
      else
        let m = m0\<lparr>m_queueSendLatencyCount := m_queueSendLatencyCount m0 + 1,
                    m_queueSendLatencySumNs := m_queueSendLatencySumNs m0 + word_of_int elapsed\<rparr>
        in
        if elapsed \<le> queueSendLatencyBuckets ! 0 then
          m\<lparr>m_queueSendLatencyLe05 := m_queueSendLatencyLe05 m + 1,
               m_queueSendLatencyLe10 := m_queueSendLatencyLe10 m + 1,
               m_queueSendLatencyLe25 := m_queueSendLatencyLe25 m + 1,
               m_queueSendLatencyLe50 := m_queueSendLatencyLe50 m + 1,
               m_queueSendLatencyLe100 := m_queueSendLatencyLe100 m + 1,
               m_queueSendLatencyLe250 := m_queueSendLatencyLe250 m + 1,
               m_queueSendLatencyLe500 := m_queueSendLatencyLe500 m + 1\<rparr>
        else if elapsed \<le> queueSendLatencyBuckets ! 1 then
          m\<lparr>m_queueSendLatencyLe10 := m_queueSendLatencyLe10 m + 1,
               m_queueSendLatencyLe25 := m_queueSendLatencyLe25 m + 1,
               m_queueSendLatencyLe50 := m_queueSendLatencyLe50 m + 1,
               m_queueSendLatencyLe100 := m_queueSendLatencyLe100 m + 1,
               m_queueSendLatencyLe250 := m_queueSendLatencyLe250 m + 1,
               m_queueSendLatencyLe500 := m_queueSendLatencyLe500 m + 1\<rparr>
        else if elapsed \<le> queueSendLatencyBuckets ! 2 then
          m\<lparr>m_queueSendLatencyLe25 := m_queueSendLatencyLe25 m + 1,
               m_queueSendLatencyLe50 := m_queueSendLatencyLe50 m + 1,
               m_queueSendLatencyLe100 := m_queueSendLatencyLe100 m + 1,
               m_queueSendLatencyLe250 := m_queueSendLatencyLe250 m + 1,
               m_queueSendLatencyLe500 := m_queueSendLatencyLe500 m + 1\<rparr>
        else if elapsed \<le> queueSendLatencyBuckets ! 3 then
          m\<lparr>m_queueSendLatencyLe50 := m_queueSendLatencyLe50 m + 1,
               m_queueSendLatencyLe100 := m_queueSendLatencyLe100 m + 1,
               m_queueSendLatencyLe250 := m_queueSendLatencyLe250 m + 1,
               m_queueSendLatencyLe500 := m_queueSendLatencyLe500 m + 1\<rparr>
        else if elapsed \<le> queueSendLatencyBuckets ! 4 then
          m\<lparr>m_queueSendLatencyLe100 := m_queueSendLatencyLe100 m + 1,
               m_queueSendLatencyLe250 := m_queueSendLatencyLe250 m + 1,
               m_queueSendLatencyLe500 := m_queueSendLatencyLe500 m + 1\<rparr>
        else if elapsed \<le> queueSendLatencyBuckets ! 5 then
          m\<lparr>m_queueSendLatencyLe250 := m_queueSendLatencyLe250 m + 1,
               m_queueSendLatencyLe500 := m_queueSendLatencyLe500 m + 1\<rparr>
        else if elapsed \<le> queueSendLatencyBuckets ! 6 then
          m\<lparr>m_queueSendLatencyLe500 := m_queueSendLatencyLe500 m + 1\<rparr>
        else m)"

record histogram =
  h_Buckets :: "(str \<times> int64) list"
  h_SumNs :: int64
  h_Count :: int64

record metrics_snapshot =
  ms_WSConnections :: int64
  ms_QueueDepth :: int64
  ms_QueueSentTotal :: int64
  ms_QueueSendFailedTotal :: int64
  ms_QueueRejectedTotal :: int64
  ms_QueueDroppedTotal :: int64
  ms_EventsBroadcastTotal :: int64
  ms_QueueSendLatency :: histogram
  ms_DroppedBySession :: "str \<Rightarrow> int64 option"

text \<open>
  \<open>Metrics.Snapshot\<close>. The labels are what \<open>strconv.FormatFloat(b, 'f', -1, 64)\<close> prints for
  the bounds; the sum is kept in nanoseconds, the code divides it by \<open>time.Second\<close>.
\<close>

definition latency_counts :: "metrics \<Rightarrow> int64 list" where
  "latency_counts m =
     [m_queueSendLatencyLe05 m,
      m_queueSendLatencyLe10 m,
      m_queueSendLatencyLe25 m,
      m_queueSendLatencyLe50 m,
      m_queueSendLatencyLe100 m,
      m_queueSendLatencyLe250 m,
      m_queueSendLatencyLe500 m]"

definition bucket_labels :: "str list" where
  "bucket_labels = map lit [''0.05'', ''0.1'', ''0.25'', ''0.5'', ''1'', ''2.5'', ''5'']"

definition Snapshot :: "metrics \<Rightarrow> metrics_snapshot" where
  "Snapshot m =
     \<lparr>ms_WSConnections = m_wsConnections m,
      ms_QueueDepth = m_queueDepth m,
      ms_QueueSentTotal = m_queueSentTotal m,
      ms_QueueSendFailedTotal = m_queueSendFailedTotal m,
      ms_QueueRejectedTotal = m_queueRejectedTotal m,
      ms_QueueDroppedTotal = m_queueDroppedTotal m,
      ms_EventsBroadcastTotal = m_eventsBroadcastTotal m,
      ms_QueueSendLatency =
        \<lparr>h_Buckets = zip bucket_labels (latency_counts m),
         h_SumNs = m_queueSendLatencySumNs m,
         h_Count = m_queueSendLatencyCount m\<rparr>,
      ms_DroppedBySession = m_droppedBySession m\<rparr>"

lemmas metrics_defs =
  IncWSConnections_def DecWSConnections_def SetQueueDepth_def IncQueueSent_def
  IncQueueSendFailed_def IncQueueRejected_def AddQueueDropped_def AddQueueDroppedForSession_def
  IncEventsBroadcast_def

subsection \<open>The latency histogram\<close>

text \<open>One observation, bucket by bucket: the \<open>switch\<close> is a cumulative histogram.\<close>

lemma observe_bucket:
  "i < 7 \<Longrightarrow> latency_counts (ObserveQueueSendLatency elapsed m) ! i =
     latency_counts m ! i + (if 0 \<le> elapsed \<and> elapsed \<le> queueSendLatencyBuckets ! i then 1 else 0)"
proof -
  assume "i < 7"
  then consider "i = 0" | "i = 1" | "i = 2" | "i = 3" | "i = 4" | "i = 5" | "i = 6" by linarith
  then show ?thesis
    by cases (simp_all add: ObserveQueueSendLatency_def latency_counts_def
        queueSendLatencyBuckets_def Let_def)
qed

lemma observe_count:
  "m_queueSendLatencyCount (ObserveQueueSendLatency elapsed m) =
     m_queueSendLatencyCount m + (if 0 \<le> elapsed then 1 else 0)"
  "m_queueSendLatencySumNs (ObserveQueueSendLatency elapsed m) =
     m_queueSendLatencySumNs m + (if 0 \<le> elapsed then word_of_int elapsed else 0)"
  by (simp_all add: ObserveQueueSendLatency_def Let_def)

definition observe_all :: "int list \<Rightarrow> metrics \<Rightarrow> metrics" where
  "observe_all es m = fold ObserveQueueSendLatency es m"

lemma observe_all_simps [simp]:
  "observe_all [] m = m"
  "observe_all (e # es) m = observe_all es (ObserveQueueSendLatency e m)"
  by (simp_all add: observe_all_def)

lemma observe_all_bucket:
  "i < 7 \<Longrightarrow> latency_counts (observe_all es m) ! i =
     latency_counts m ! i
       + of_nat (length (filter (\<lambda>e. 0 \<le> e \<and> e \<le> queueSendLatencyBuckets ! i) es))"
  by (induction es arbitrary: m) (simp_all add: observe_bucket)

lemma observe_all_count:
  "m_queueSendLatencyCount (observe_all es m) =
     m_queueSendLatencyCount m + of_nat (length (filter (\<lambda>e. 0 \<le> e) es))"
  "m_queueSendLatencySumNs (observe_all es m) =
     m_queueSendLatencySumNs m + word_of_int (sum_list (filter (\<lambda>e. 0 \<le> e) es))"
  by (induction es arbitrary: m) (simp_all add: observe_count)

lemma latency_counts_New: "i < 7 \<Longrightarrow> latency_counts NewMetrics ! i = 0"
proof -
  assume "i < 7"
  then consider "i = 0" | "i = 1" | "i = 2" | "i = 3" | "i = 4" | "i = 5" | "i = 6" by linarith
  then show ?thesis by cases (simp_all add: latency_counts_def NewMetrics_def)
qed

lemma length_latency_counts [simp]: "length (latency_counts m) = 7"
  by (simp add: latency_counts_def)

lemma bucket_bounds_mono:
  "i \<le> j \<Longrightarrow> j < 7 \<Longrightarrow> queueSendLatencyBuckets ! i \<le> queueSendLatencyBuckets ! j"
proof -
  have "sorted queueSendLatencyBuckets" "length queueSendLatencyBuckets = 7"
    by (simp_all add: queueSendLatencyBuckets_def)
  then show "i \<le> j \<Longrightarrow> j < 7 \<Longrightarrow> ?thesis" by (simp add: sorted_nth_mono)
qed

lemma sint_of_nat_small:
  assumes "n < 2 ^ 63"
  shows "sint (of_nat n :: int64) = int n"
proof -
  have "sint (word_of_int (int n) :: int64) = int n"
    unfolding sint_sbintrunc' using assms by (subst signed_take_bit_int_eq_self) auto
  then show ?thesis by simp
qed

text \<open>
  C32. The latency histogram. After any sequence of observed durations, with fewer than
  \<open>2^63\<close> of them, the counter of each bucket is the number of non-negative observations up to
  its bound, the count is the number of all non-negative observations and the sum their sum (as a
  64-bit counter), so that the exported counts never decrease from bucket to bucket and never exceed
  the count, as the Prometheus format demands.
\<close>

theorem histogram_cumulative:
  assumes "length es < 2 ^ 63" and "m = observe_all es NewMetrics"
  shows "(\<forall>i < 7. sint (latency_counts m ! i) =
            int (length (filter (\<lambda>e. 0 \<le> e \<and> e \<le> queueSendLatencyBuckets ! i) es)))
       \<and> (\<forall>i j. i \<le> j \<and> j < 7 \<longrightarrow> sint (latency_counts m ! i) \<le> sint (latency_counts m ! j))
       \<and> (\<forall>i < 7. sint (latency_counts m ! i) \<le> sint (m_queueSendLatencyCount m))
       \<and> m_queueSendLatencySumNs m = word_of_int (sum_list (filter (\<lambda>e. 0 \<le> e) es))"
proof -
  have small: "length (filter P es) < 2 ^ 63" for P
    using assms(1) length_filter_le [of P es] by linarith
  have b: "sint (latency_counts m ! i) =
      int (length (filter (\<lambda>e. 0 \<le> e \<and> e \<le> queueSendLatencyBuckets ! i) es))" if "i < 7" for i
    using that
    by (simp add: assms(2) observe_all_bucket latency_counts_New sint_of_nat_small [OF small])
  have c: "sint (m_queueSendLatencyCount m) = int (length (filter (\<lambda>e. 0 \<le> e) es))"
    by (simp add: assms(2) observe_all_count NewMetrics_def sint_of_nat_small [OF small])
  have mono: "sint (latency_counts m ! i) \<le> sint (latency_counts m ! j)" if "i \<le> j" "j < 7" for i j
    using that bucket_bounds_mono [OF that]
    by (simp add: b) (rule length_filter_mono_pred, auto)
  have top: "sint (latency_counts m ! i) \<le> sint (m_queueSendLatencyCount m)" if "i < 7" for i
    using that by (simp add: b c) (rule length_filter_mono_pred, auto)
  show ?thesis
    using b mono top by (simp add: assms(2) observe_all_count NewMetrics_def)
qed

theorem histogram_cumulative_witness:
  "sint (latency_counts (observe_all [60000000, 3000000000, 9000000000] NewMetrics) ! 1) = 1
   \<and> sint (latency_counts (observe_all [60000000, 3000000000, 9000000000] NewMetrics) ! 6) = 2"
  using histogram_cumulative [of "[60000000, 3000000000, 9000000000]", OF _ refl]
  by (simp add: queueSendLatencyBuckets_def)

subsection \<open>Dropped commands per session\<close>

definition dropped_for :: "metrics \<Rightarrow> str \<Rightarrow> int64" where
  "dropped_for m sid = (case m_droppedBySession m sid of None \<Rightarrow> 0 | Some c \<Rightarrow> c)"

lemma dropped_for_add:
  "dropped_for (AddQueueDroppedForSession sid n m) sid' =
     dropped_for m sid' + (if sid' = sid \<and> sid \<noteq> [] then of_nat n else 0)"
  by (auto simp: dropped_for_def AddQueueDroppedForSession_def Let_def)

end
