(* ===== verification/Fifo.thy ===== *)
theory Fifo
  imports Prelude
begin

text \<open>
  The contract of a bounded first-in first-out queue whose content can be dropped as a whole: what
  the session manager relies on of its command queue and the hub of a client's send channel. The
  history of a run is the list of accepted elements and the list of elements that left, each marked
  with how it left; the lemmas say that elements leave in the order they were accepted, none lost
  and none twice, and that the content stays within the capacity.
\<close>

datatype 'a fifo_op = Enq 'a | Deq | Clear

datatype 'a leaving = Taken 'a | Dropped 'a

primrec left_value :: "'a leaving \<Rightarrow> 'a" where
  "left_value (Taken x) = x"
| "left_value (Dropped x) = x"

text \<open>A run of calls: the accepted elements, those that left, and the final queue.\<close>

fun fifo_run ::
    "('q \<Rightarrow> 'a list) \<Rightarrow> ('a \<Rightarrow> 'q \<Rightarrow> bool \<times> 'q) \<Rightarrow> ('q \<Rightarrow> 'a option \<times> 'q) \<Rightarrow> ('q \<Rightarrow> nat \<times> 'q)
     \<Rightarrow> 'a fifo_op list \<Rightarrow> 'q \<Rightarrow> 'a list \<times> 'a leaving list \<times> 'q" where
  "fifo_run content enq deq clear [] q = ([], [], q)"
| "fifo_run content enq deq clear (Enq x # ops) q =
     (let (ok, q1) = enq x q; (acc, out, q2) = fifo_run content enq deq clear ops q1
      in ((if ok then [x] else []) @ acc, out, q2))"
| "fifo_run content enq deq clear (Deq # ops) q =
     (let (r, q1) = deq q; (acc, out, q2) = fifo_run content enq deq clear ops q1
      in (acc, (case r of None \<Rightarrow> [] | Some x \<Rightarrow> [Taken x]) @ out, q2))"
| "fifo_run content enq deq clear (Clear # ops) q =
     (let (n, q1) = clear q; (acc, out, q2) = fifo_run content enq deq clear ops q1
      in (acc, map Dropped (content q) @ out, q2))"

locale bounded_fifo =
  fixes content :: "'q \<Rightarrow> 'a list"
    and cap :: "'q \<Rightarrow> int"
    and enq :: "'a \<Rightarrow> 'q \<Rightarrow> bool \<times> 'q"
    and deq :: "'q \<Rightarrow> 'a option \<times> 'q"
    and clear :: "'q \<Rightarrow> nat \<times> 'q"
  assumes enq_full: "cap q \<le> int (length (content q)) \<Longrightarrow>
      \<not> fst (enq x q) \<and> content (snd (enq x q)) = content q"
    and enq_room: "int (length (content q)) < cap q \<Longrightarrow>
      fst (enq x q) \<and> content (snd (enq x q)) = content q @ [x]"
    and deq_empty: "content q = [] \<Longrightarrow> fst (deq q) = None \<and> content (snd (deq q)) = []"
    and deq_first: "content q = x # xs \<Longrightarrow> fst (deq q) = Some x \<and> content (snd (deq q)) = xs"
    and clear_content: "fst (clear q) = length (content q) \<and> content (snd (clear q)) = []"
    and cap_fixed: "cap (snd (enq x q)) = cap q" "cap (snd (deq q)) = cap q"
      "cap (snd (clear q)) = cap q"
begin

lemma enq_content:
  "content (snd (enq x q)) = content q @ (if fst (enq x q) then [x] else [])"
  using enq_full [of q x] enq_room [of q x] by (cases "cap q \<le> int (length (content q))") auto

lemma deq_content:
  "content q = (case fst (deq q) of None \<Rightarrow> [] | Some x \<Rightarrow> [x]) @ content (snd (deq q))"
  using deq_empty [of q] deq_first [of q] by (cases "content q") auto

lemma fifo_order:
  "fifo_run content enq deq clear ops q = (acc, out, q1) \<Longrightarrow>
     content q @ acc = map left_value out @ content q1"
proof (induction ops arbitrary: q acc out)
  case (Cons op ops)
  show ?case
  proof (cases op)
    case (Enq x)
    with Cons enq_content [of x q] show ?thesis
      by (fastforce split: prod.splits if_splits)
  next
    case Deq
    obtain r q2 where d: "deq q = (r, q2)" by force
    with Cons Deq deq_content [of q] show ?thesis
      by (fastforce split: prod.splits option.splits)
  next
    case Clear
    obtain n q2 where c: "clear q = (n, q2)" by force
    with clear_content [of q] have "content q2 = []" by simp
    with Cons Clear c show ?thesis
      by (fastforce simp: comp_def split: prod.splits)
  qed
qed simp

lemma fifo_bound:
  "fifo_run content enq deq clear ops q = (acc, out, q1) \<Longrightarrow>
     int (length (content q)) \<le> max 0 (cap q) \<Longrightarrow>
     int (length (content q1)) \<le> max 0 (cap q) \<and> cap q1 = cap q"
proof (induction ops arbitrary: q acc out)
  case (Cons op ops)
  define q2 where
    "q2 = (case op of Enq x \<Rightarrow> snd (enq x q) | Deq \<Rightarrow> snd (deq q) | Clear \<Rightarrow> snd (clear q))"
  have cap2: "cap q2 = cap q" by (cases op) (auto simp: q2_def cap_fixed)
  have "int (length (content q2)) \<le> max 0 (cap q)"
  proof (cases op)
    case (Enq x)
    with Cons.prems(2) enq_full [of q x] enq_room [of q x] show ?thesis
      by (cases "cap q \<le> int (length (content q))") (auto simp: q2_def)
  next
    case Deq
    with Cons.prems(2) deq_empty [of q] deq_first [of q] show ?thesis
      by (cases "content q") (auto simp: q2_def)
  next
    case Clear
    with clear_content [of q] show ?thesis by (simp add: q2_def)
  qed
  moreover obtain acc2 out2 where "fifo_run content enq deq clear ops q2 = (acc2, out2, q1)"
    using Cons.prems(1) by (cases op) (auto simp: q2_def split: prod.splits)
  ultimately show ?case using Cons.IH [of q2] cap2 by simp
qed simp

end

end
