(* ===== verification/Queue.thy ===== *)
theory Queue
  imports Fifo Metrics
begin

text \<open>
  \<open>gateway/queue.go\<close>: the command queue between the HTTP API and the upstream connection. A
  \<open>queue\<close> record holds the fields of \<open>CommandQueue\<close> that change or are consulted; the two
  channels \<open>stopCh\<close> and \<open>doneCh\<close> are made together and are named by the number of the
  \<open>Start\<close> that made them, \<open>None\<close> for nil. Every method is one critical section of
  \<open>q.mu\<close> and acts on the queue and on the shared \<open>Metrics\<close>; \<open>StopAndDrop\<close> has a second
  part after the sender loop has returned. The sender and the ticker belong to the environment: an
  iteration of the loop takes the error the sender returned and the time it took.
\<close>

datatype gw_err =
    ErrQueueFull
  | ErrSessionAlreadyConnected
  | ErrSessionNotConnected
  | ErrUpstreamUnavailable str
  | ErrIO str

record queue =
  q_commands :: "str list"
  q_sessionID :: str
  q_maxDepth :: int
  q_interval :: int
  q_running :: bool
  q_chans :: "nat option"
  q_starts :: nat

type_synonym qstate = "queue \<times> metrics"

text \<open>
  A limit below zero would make Go's \<open>make\<close> panic, and an interval that is not positive \<open>NewTicker\<close>;
  neither arises, because \<open>config.Load\<close> gives positive values (Config).
\<close>

definition NewCommandQueue :: "str \<Rightarrow> int \<Rightarrow> int \<Rightarrow> queue" where
  "NewCommandQueue sessionID maxDepth interval =
     \<lparr>q_commands = [], q_sessionID = sessionID, q_maxDepth = maxDepth, q_interval = interval,
      q_running = False, q_chans = None, q_starts = 0\<rparr>"

text \<open>\<open>Start\<close> returns the channel pair of the goroutine it launched, if it launched one.\<close>

definition Start :: "queue \<Rightarrow> nat option \<times> queue" where
  "Start q =
     (if q_running q then (None, q)
      else let ch = q_starts q
           in (Some ch, q\<lparr>q_chans := Some ch, q_starts := Suc ch, q_running := True\<rparr>))"

definition Enqueue :: "str \<Rightarrow> qstate \<Rightarrow> (nat \<times> gw_err option) \<times> qstate" where
  "Enqueue command s =
     (case s of (q, m) \<Rightarrow>
        if int (length (q_commands q)) \<ge> q_maxDepth q
        then ((length (q_commands q), Some ErrQueueFull), (q, IncQueueRejected m))
        else
          let q1 = q\<lparr>q_commands := q_commands q @ [command]\<rparr>; depth = length (q_commands q1)
          in ((depth, None), (q1, SetQueueDepth depth m)))"

definition Depth :: "queue \<Rightarrow> nat" where
  "Depth q = length (q_commands q)"

definition MaxDepth :: "queue \<Rightarrow> int" where
  "MaxDepth q = q_maxDepth q"

text \<open>
  The critical section of \<open>StopAndDrop\<close>: the number of dropped commands and the channel pair to
  close when the loop was running. The second part runs once \<open>doneCh\<close> is closed.
\<close>

definition stop_locked :: "qstate \<Rightarrow> (nat \<times> nat option) \<times> qstate" where
  "stop_locked s =
     (case s of (q, m) \<Rightarrow>
        let dropped = length (q_commands q);
            q1 = q\<lparr>q_commands := []\<rparr>;
            m1 = SetQueueDepth 0 m
        in if \<not> q_running q then ((dropped, None), (q1, m1))
           else ((dropped, q_chans q), (q1\<lparr>q_running := False, q_chans := None\<rparr>, m1)))"

definition stop_done :: "str \<Rightarrow> nat \<Rightarrow> metrics \<Rightarrow> metrics" where
  "stop_done sessionID dropped m =
     (if dropped > 0
      then AddQueueDroppedForSession sessionID dropped (AddQueueDropped dropped m)
      else m)"

definition StopAndDrop :: "qstate \<Rightarrow> nat \<times> qstate" where
  "StopAndDrop s =
     (case stop_locked s of ((dropped, stopCh), (q, m)) \<Rightarrow>
        (dropped, (q, case stopCh of None \<Rightarrow> m | Some _ \<Rightarrow> stop_done (q_sessionID q) dropped m)))"

definition pop :: "qstate \<Rightarrow> str option \<times> qstate" where
  "pop s =
     (case s of (q, m) \<Rightarrow>
        case q_commands q of
          [] \<Rightarrow> (None, s)
        | command # rest \<Rightarrow>
            (Some command, (q\<lparr>q_commands := rest\<rparr>, SetQueueDepth (length rest) m)))"

text \<open>
  What an iteration of the loop does after the sender returned: the counters, and the arguments of
  the failure callback.
\<close>

datatype send_report = Sent str | SendFailed str gw_err nat int

definition after_send :: "str \<Rightarrow> gw_err option \<Rightarrow> int \<Rightarrow> qstate \<Rightarrow> send_report \<times> qstate" where
  "after_send command err elapsed s =
     (case s of (q, m) \<Rightarrow>
        case err of
          Some e \<Rightarrow> (SendFailed command e (Depth q) (q_maxDepth q), (q, IncQueueSendFailed m))
        | None \<Rightarrow> (Sent command, (q, ObserveQueueSendLatency elapsed (IncQueueSent m))))"

text \<open>
  \<open>run\<close>: the loop sleeps until the ticker fires or the stop channel is closed; the list says
  what it finds at each wake-up, with the sender's answer for a tick.
\<close>

datatype wake = StopWake | TickWake "gw_err option" int

definition run_tick :: "gw_err option \<Rightarrow> int \<Rightarrow> qstate \<Rightarrow> send_report list \<times> qstate" where
  "run_tick err elapsed s =
     (case pop s of
        (None, s1) \<Rightarrow> ([], s1)
      | (Some command, s1) \<Rightarrow>
          let (report, s2) = after_send command err elapsed s1 in ([report], s2))"

fun run :: "wake list \<Rightarrow> qstate \<Rightarrow> send_report list \<times> qstate" where
  "run [] s = ([], s)"
| "run (StopWake # ws) s = ([], s)"
| "run (TickWake err elapsed # ws) s =
     (let (r1, s1) = run_tick err elapsed s; (r2, s2) = run ws s1 in (r1 @ r2, s2))"

lemmas queue_defs = Start_def Enqueue_def Depth_def MaxDepth_def stop_locked_def stop_done_def
  StopAndDrop_def pop_def after_send_def run_tick_def NewCommandQueue_def

subsection \<open>The queue is a bounded FIFO\<close>

definition fifo_enq :: "str \<Rightarrow> qstate \<Rightarrow> bool \<times> qstate" where
  "fifo_enq c s = (snd (fst (Enqueue c s)) = None, snd (Enqueue c s))"

interpretation cq: bounded_fifo "\<lambda>s. q_commands (fst s)" "\<lambda>s. q_maxDepth (fst s)" fifo_enq pop StopAndDrop
  by unfold_locales
    (auto simp: fifo_enq_def queue_defs Let_def split: list.splits option.splits)

text \<open>
  C20. First in, first out, nothing lost. Start with an empty queue of any limit and call
  \<open>Enqueue\<close>, \<open>pop\<close> and \<open>StopAndDrop\<close> in any order, as often as you like. The accepted commands
  are, in the order of acceptance, first those that left the queue (handed to the sender or dropped
  by a stop) and then those still pending; and the pending ones never exceed the limit.
\<close>

theorem queue_fifo_bounded:
  assumes "fifo_run (\<lambda>s. q_commands (fst s)) fifo_enq pop StopAndDrop ops
      (NewCommandQueue sid maxDepth interval, m) = (accepted, out, s)"
  shows "accepted = map left_value out @ q_commands (fst s)
       \<and> int (length (q_commands (fst s))) \<le> max 0 maxDepth"
  using cq.fifo_order [OF assms] cq.fifo_bound [OF assms] by (simp add: NewCommandQueue_def)

theorem queue_fifo_bounded_witness:
  "fst (fifo_run (\<lambda>s. q_commands (fst s)) fifo_enq pop StopAndDrop
      [Enq [1], Enq [2], Enq [3], Deq, Enq [4], Clear, Enq [5]]
      (NewCommandQueue (lit ''s'') 2 500, NewMetrics)) = [[1], [2], [4], [5]]"
proof -
  obtain acc out s where r: "fifo_run (\<lambda>s. q_commands (fst s)) fifo_enq pop StopAndDrop
      [Enq [1], Enq [2], Enq [3], Deq, Enq [4], Clear, Enq [5]]
      (NewCommandQueue (lit ''s'') 2 500, NewMetrics) = (acc, out, s)"
    by (metis surj_pair)
  moreover from r have "out = [Taken [1], Dropped [2], Dropped [4]] \<and> q_commands (fst s) = [[5]]"
    by (auto simp: fifo_enq_def queue_defs)
  ultimately show ?thesis using queue_fifo_bounded [OF r] by simp
qed

subsection \<open>The loop\<close>

text \<open>The commands of a list of reports, in order.\<close>

fun report_command :: "send_report \<Rightarrow> str" where
  "report_command (Sent c) = c"
| "report_command (SendFailed c e d n) = c"

lemma run_prefix:
  "run ws s = (rs, s1) \<Longrightarrow>
     q_commands (fst s) = map report_command rs @ q_commands (fst s1)"
proof (induction ws s arbitrary: rs rule: run.induct)
  case (3 err elapsed ws s)
  obtain r1 s2 where t: "run_tick err elapsed s = (r1, s2)" by (metis surj_pair)
  obtain r2 s3 where r: "run ws s2 = (r2, s3)" by (metis surj_pair)
  from t have "q_commands (fst s) = map report_command r1 @ q_commands (fst s2)"
    by (auto simp: queue_defs split: list.splits option.splits prod.splits)
  with 3 t r show ?case by auto
qed auto

subsection \<open>Accounting\<close>

datatype queue_call = CallStart | CallEnqueue str | CallTick "gw_err option" int | CallStop

text \<open>One call on the queue; a tick does something only while the loop runs.\<close>

fun queue_step :: "queue_call \<Rightarrow> qstate \<Rightarrow> qstate" where
  "queue_step CallStart s = (snd (Start (fst s)), snd s)"
| "queue_step (CallEnqueue c) s = snd (Enqueue c s)"
| "queue_step (CallTick err elapsed) s = (if q_running (fst s) then snd (run_tick err elapsed s) else s)"
| "queue_step CallStop s = snd (StopAndDrop s)"

text \<open>
  How many commands a call accepts, and how many it drops although the loop is not running:
  \<open>StopAndDrop\<close> then returns before it reaches the counters.
\<close>

fun accepts :: "queue_call \<Rightarrow> qstate \<Rightarrow> nat" where
  "accepts (CallEnqueue c) s = (if snd (fst (Enqueue c s)) = None then 1 else 0)"
| "accepts call s = 0"

fun discards :: "queue_call \<Rightarrow> qstate \<Rightarrow> nat" where
  "discards CallStop s = (if q_running (fst s) then 0 else length (q_commands (fst s)))"
| "discards call s = 0"

text \<open>A run of calls: the numbers of accepted and of discarded commands, and the final state.\<close>

fun queue_calls :: "queue_call list \<Rightarrow> qstate \<Rightarrow> nat \<times> nat \<times> qstate" where
  "queue_calls [] s = (0, 0, s)"
| "queue_calls (c # cs) s =
     (let (n, k, s1) = queue_calls cs (queue_step c s) in (accepts c s + n, discards c s + k, s1))"

text \<open>The caller enqueues only while the loop runs.\<close>

fun disciplined :: "queue_call list \<Rightarrow> qstate \<Rightarrow> bool" where
  "disciplined [] s = True"
| "disciplined (c # cs) s =
     ((case c of CallEnqueue _ \<Rightarrow> q_running (fst s) | _ \<Rightarrow> True) \<and> disciplined cs (queue_step c s))"

text \<open>The books after \<open>n\<close> accepted and \<open>k\<close> discarded commands.\<close>

definition accounted :: "nat \<Rightarrow> nat \<Rightarrow> qstate \<Rightarrow> bool" where
  "accounted n k s \<longleftrightarrow>
     (case s of (q, m) \<Rightarrow>
        of_nat n = m_queueSentTotal m + m_queueSendFailedTotal m + m_queueDroppedTotal m + of_nat k
                     + of_nat (length (q_commands q))
      \<and> m_queueDepth m = of_nat (length (q_commands q))
      \<and> dropped_for m (q_sessionID q) = m_queueDroppedTotal m
      \<and> q_sessionID q \<noteq> []
      \<and> (q_running q \<longleftrightarrow> q_chans q \<noteq> None))"

lemma observe_others [simp]:
  "m_queueSentTotal (ObserveQueueSendLatency e m) = m_queueSentTotal m"
  "m_queueSendFailedTotal (ObserveQueueSendLatency e m) = m_queueSendFailedTotal m"
  "m_queueDroppedTotal (ObserveQueueSendLatency e m) = m_queueDroppedTotal m"
  "m_queueRejectedTotal (ObserveQueueSendLatency e m) = m_queueRejectedTotal m"
  "m_queueDepth (ObserveQueueSendLatency e m) = m_queueDepth m"
  "m_eventsBroadcastTotal (ObserveQueueSendLatency e m) = m_eventsBroadcastTotal m"
  "m_wsConnections (ObserveQueueSendLatency e m) = m_wsConnections m"
  "m_droppedBySession (ObserveQueueSendLatency e m) = m_droppedBySession m"
  by (simp_all add: ObserveQueueSendLatency_def Let_def)

lemma add_dropped_others [simp]:
  "m_queueSentTotal (AddQueueDroppedForSession sid n m) = m_queueSentTotal m"
  "m_queueSendFailedTotal (AddQueueDroppedForSession sid n m) = m_queueSendFailedTotal m"
  "m_queueDroppedTotal (AddQueueDroppedForSession sid n m) = m_queueDroppedTotal m"
  "m_queueRejectedTotal (AddQueueDroppedForSession sid n m) = m_queueRejectedTotal m"
  "m_queueDepth (AddQueueDroppedForSession sid n m) = m_queueDepth m"
  "m_eventsBroadcastTotal (AddQueueDroppedForSession sid n m) = m_eventsBroadcastTotal m"
  by (simp_all add: AddQueueDroppedForSession_def Let_def)

lemma dropped_for_frame [simp]:
  "dropped_for (m\<lparr>m_queueDepth := a\<rparr>) sid = dropped_for m sid"
  "dropped_for (m\<lparr>m_queueDroppedTotal := a\<rparr>) sid = dropped_for m sid"
  "dropped_for (m\<lparr>m_queueSentTotal := a\<rparr>) sid = dropped_for m sid"
  "dropped_for (m\<lparr>m_queueSendFailedTotal := a\<rparr>) sid = dropped_for m sid"
  "dropped_for (m\<lparr>m_queueRejectedTotal := a\<rparr>) sid = dropped_for m sid"
  "dropped_for (ObserveQueueSendLatency e m) sid = dropped_for m sid"
  by (simp_all add: dropped_for_def)

lemmas counter_defs = IncQueueSent_def IncQueueSendFailed_def IncQueueRejected_def
  SetQueueDepth_def AddQueueDropped_def

lemma accounted_tick: "accounted n k s \<Longrightarrow> accounted n k (snd (run_tick err elapsed s))"
  by (cases s)
    (auto simp: accounted_def queue_defs counter_defs Let_def split: list.splits option.splits)

lemma accounted_stop: "accounted n k s \<Longrightarrow> accounted n (k + discards CallStop s) (snd (StopAndDrop s))"
  by (cases s)
    (auto simp: accounted_def StopAndDrop_def stop_locked_def stop_done_def dropped_for_add Let_def
      SetQueueDepth_def AddQueueDropped_def split: option.splits)

lemma accounted_step [gw_inv]:
  assumes "accounted n k s"
  shows "accounted (n + accepts c s) (k + discards c s) (queue_step c s)"
proof (cases c)
  case (CallEnqueue x)
  with assms show ?thesis
    by (cases s) (auto simp: accounted_def Enqueue_def counter_defs Let_def algebra_simps split: if_splits)
next
  case (CallTick err elapsed)
  with assms accounted_tick [of n k s err elapsed] show ?thesis by auto
next
  case CallStop
  with assms accounted_stop [of n k s] show ?thesis by auto
next
  case CallStart
  with assms show ?thesis
    by (cases s) (auto simp: accounted_def Start_def Let_def)
qed

lemma accounted_calls:
  "accounted n k s \<Longrightarrow> queue_calls cs s = (a, d, s1) \<Longrightarrow> accounted (n + a) (k + d) s1"
proof (induction cs arbitrary: n k s a d)
  case (Cons c cs)
  from Cons.IH [OF accounted_step [OF Cons.prems(1)]] Cons.prems(2) show ?case
    by (auto simp: add.assoc split: prod.splits)
qed simp

text \<open>Used with discipline, a queue whose loop is stopped is empty, so nothing is discarded.\<close>

lemma disciplined_idle:
  assumes "\<not> q_running (fst s) \<longrightarrow> q_commands (fst s) = []" "disciplined (c # cs) s"
  shows "\<not> q_running (fst (queue_step c s)) \<longrightarrow> q_commands (fst (queue_step c s)) = []"
  using assms
  by (cases s; cases c)
    (auto simp: queue_defs Let_def split: list.splits option.splits)

lemma disciplined_keeps:
  "\<not> q_running (fst s) \<longrightarrow> q_commands (fst s) = [] \<Longrightarrow> disciplined cs s \<Longrightarrow> queue_calls cs s = (a, d, s1) \<Longrightarrow> d = 0"
proof (induction cs arbitrary: s a d s1)
  case (Cons c cs)
  obtain a1 d1 s2 where r: "queue_calls cs (queue_step c s) = (a1, d1, s2)" by (metis prod_cases3)
  have "discards c s = 0" using Cons.prems(1) by (cases c) simp_all
  moreover have "d1 = 0"
    using Cons.IH [OF disciplined_idle [OF Cons.prems(1,2)] _ r] Cons.prems(2) by simp
  ultimately show ?case using Cons.prems(3) r by simp
qed simp

lemma queue_session_kept: "queue_calls cs s = (a, d, s1) \<Longrightarrow> q_sessionID (fst s1) = q_sessionID (fst s)"
proof (induction cs arbitrary: s a d)
  case (Cons c cs)
  have "q_sessionID (fst (queue_step c s)) = q_sessionID (fst s)"
    by (cases c; cases s) (auto simp: queue_defs Let_def split: list.splits option.splits)
  with Cons show ?case by (auto split: prod.splits)
qed simp

text \<open>
  C23. The metrics account for every command but those a stopped queue drops. Let the methods of a queue
  be called one after the other, in any order. At every point the number of commands accepted so far
  equals the sum of the counters for sent, failed and dropped commands, of the commands pending, and of
  those discarded: pending at a call of \<open>StopAndDrop\<close> that found the loop not running, which returns
  before it counts. The depth gauge is the number pending, and the dropped counter of the session
  equals the global one (all as 64-bit counters). Nothing is discarded when commands are enqueued
  only while the loop runs, which the session manager does not guarantee when a connect overlaps a
  disconnect.
\<close>

theorem queue_accounting:
  assumes "sid \<noteq> []"
    and "queue_calls cs (NewCommandQueue sid maxDepth interval, NewMetrics) = (accepted, discarded, (q, m))"
  shows "of_nat accepted = m_queueSentTotal m + m_queueSendFailedTotal m + m_queueDroppedTotal m
           + of_nat discarded + of_nat (length (q_commands q))
       \<and> m_queueDepth m = of_nat (length (q_commands q))
       \<and> dropped_for m sid = m_queueDroppedTotal m
       \<and> (disciplined cs (NewCommandQueue sid maxDepth interval, NewMetrics) \<longrightarrow> discarded = 0)"
proof -
  have "accounted 0 0 (NewCommandQueue sid maxDepth interval, NewMetrics)"
    using assms(1) by (simp add: accounted_def NewCommandQueue_def NewMetrics_def dropped_for_def)
  from accounted_calls [OF this assms(2)] have "accounted accepted discarded (q, m)" by simp
  moreover have "q_sessionID q = sid"
    using queue_session_kept [OF assms(2)] by (simp add: NewCommandQueue_def)
  moreover have "disciplined cs (NewCommandQueue sid maxDepth interval, NewMetrics) \<longrightarrow> discarded = 0"
    using disciplined_keeps [OF _ _ assms(2)] by (simp add: NewCommandQueue_def)
  ultimately show ?thesis by (auto simp: accounted_def)
qed

theorem queue_accounting_witness:
  "\<exists>q m. queue_calls
     [CallStart, CallEnqueue [1], CallEnqueue [2], CallEnqueue [3], CallTick None 7,
      CallTick (Some (ErrIO [])) 9, CallStop, CallEnqueue [4], CallStop]
     (NewCommandQueue (lit ''s-1'') 20 500, NewMetrics) = (4, 1, (q, m)) \<and> m_queueDroppedTotal m = 1"
  (is "\<exists>q m. queue_calls ?cs ?s = _ \<and> _")
proof -
  obtain n k q m where r: "queue_calls ?cs ?s = (n, k, (q, m))" by (metis prod_cases3 surj_pair)
  from r have v: "n = 4" "k = 1" "q_commands q = []" "m_queueSentTotal m = 1" "m_queueSendFailedTotal m = 1"
    by (auto simp: queue_defs Let_def counter_defs NewMetrics_def)
  from queue_accounting [OF _ r] v have "m_queueDroppedTotal m = 1" by auto
  with r v show ?thesis by blast
qed

text \<open>
  Commands that are dropped without being counted: a queue whose loop is not running accepts a command,
  a stop drops it, and no counter of the metrics shows it.
\<close>

lemma stopped_drop_uncounted:
  "\<exists>q m. queue_calls [CallEnqueue c, CallStop] (NewCommandQueue sid 20 500, NewMetrics) = (1, 1, (q, m))
    \<and> fst (StopAndDrop (queue_step (CallEnqueue c) (NewCommandQueue sid 20 500, NewMetrics))) = 1
    \<and> m_queueSentTotal m = 0 \<and> m_queueSendFailedTotal m = 0 \<and> m_queueDroppedTotal m = 0"
  by (simp add: queue_defs Let_def counter_defs NewMetrics_def)

end
