(* ===== verification/Clock.thy ===== *)
theory Clock
  imports Prelude
begin

text \<open>
  Wall clock times. \<open>time.Now().UTC()\<close> is an input of every operation that calls it; a
  time is its UTC calendar reading, and \<open>rfc3339nano\<close> is the layout \<open>time.RFC3339Nano\<close>
  the program formats it with (\<open>nowRFC3339Nano\<close> in manager.go, \<open>newMeta\<close> in response.go,
  \<open>UpsertDelta\<close> in store.go), which drops trailing zeros of the fraction, and the dot with them.
\<close>

datatype utc = UTC (year: nat) (month: nat) (day: nat) (hour: nat) (minute: nat) (second: nat) (nanos: nat)

text \<open>\<open>time.Time{}\<close>\<close>

definition zero_time :: utc where
  "zero_time = UTC 1 1 1 0 0 0 0"

definition IsZero :: "utc \<Rightarrow> bool" where
  "IsZero t \<longleftrightarrow> t = zero_time"

text \<open>A number in \<open>n\<close> decimal digits, zeros in front.\<close>

primrec pad :: "nat \<Rightarrow> nat \<Rightarrow> str" where
  "pad 0 v = []"
| "pad (Suc n) v = pad n (v div 10) @ [48 + int (v mod 10)]"

definition strip_zeros :: "str \<Rightarrow> str" where
  "strip_zeros s = rev (dropWhile (\<lambda>r. r = 48) (rev s))"

definition fraction :: "nat \<Rightarrow> str" where
  "fraction ns = (if ns = 0 then [] else 46 # strip_zeros (pad 9 ns))"

definition seconds_text :: "utc \<Rightarrow> str" where
  "seconds_text t =
     pad 4 (year t) @ [45] @ pad 2 (month t) @ [45] @ pad 2 (day t) @ [84] @
     pad 2 (hour t) @ [58] @ pad 2 (minute t) @ [58] @ pad 2 (second t)"

definition rfc3339nano :: "utc \<Rightarrow> str" where
  "rfc3339nano t = seconds_text t @ fraction (nanos t) @ [90]"

definition valid_time :: "utc \<Rightarrow> bool" where
  "valid_time t \<longleftrightarrow> year t < 10000 \<and> month t < 100 \<and> day t < 100 \<and> hour t < 100
     \<and> minute t < 100 \<and> second t < 100 \<and> nanos t < 10 ^ 9"

subsection \<open>Chronological order\<close>

fun time_key :: "utc \<Rightarrow> nat list" where
  "time_key (UTC y mo d h mi s ns) = [y, mo, d, h, mi, s, ns]"

lemma time_key_inj: "time_key t = time_key u \<longleftrightarrow> t = u"
  by (cases t; cases u) auto

instantiation utc :: linorder
begin

definition less_eq_utc :: "utc \<Rightarrow> utc \<Rightarrow> bool" where
  "less_eq_utc t u \<longleftrightarrow> time_key t \<le> time_key u"

definition less_utc :: "utc \<Rightarrow> utc \<Rightarrow> bool" where
  "less_utc t u \<longleftrightarrow> time_key t < time_key u"

instance
proof
  fix x y z :: utc
  show "x < y \<longleftrightarrow> x \<le> y \<and> \<not> y \<le> x" by (auto simp: less_eq_utc_def less_utc_def)
  show "x \<le> x" by (simp add: less_eq_utc_def)
  show "x \<le> y \<Longrightarrow> y \<le> z \<Longrightarrow> x \<le> z" unfolding less_eq_utc_def by (rule order_trans)
  show "x = y" if "x \<le> y" "y \<le> x"
  proof -
    have "time_key x = time_key y"
      using that unfolding less_eq_utc_def by (rule order_antisym)
    then show ?thesis by (simp only: time_key_inj)
  qed
  show "x \<le> y \<or> y \<le> x" unfolding less_eq_utc_def by (rule linear)
qed

end

subsection \<open>Text order against time order\<close>

lemma length_pad [simp]: "length (pad n v) = n"
  by (induction n arbitrary: v) auto

lemma pad_numeral:
  "pad (numeral k) v = pad (pred_numeral k) (v div 10) @ [48 + int (v mod 10)]"
  by (subst numeral_eq_Suc [of k]) (rule pad.simps(2))

lemma less_append_right:
  fixes xs ys :: "'a :: linorder list"
  assumes "xs < ys" "length xs = length ys"
  shows "xs @ u < ys @ v"
  using assms(2,1) by (induction xs ys rule: list_induct2) auto

lemma less_append_left [simp]:
  fixes xs :: "'a :: linorder list"
  shows "xs @ u < xs @ v \<longleftrightarrow> u < v"
  by (induction xs) auto

lemma pad_mono: "v < w \<Longrightarrow> w < 10 ^ n \<Longrightarrow> pad n v < pad n w"
proof (induction n arbitrary: v w)
  case (Suc n)
  show ?case
  proof (cases "v div 10 = w div 10")
    case True
    with Suc.prems have "v mod 10 < w mod 10"
      by (metis add_less_cancel_left div_mult_mod_eq)
    with True show ?thesis by simp
  next
    case False
    with Suc.prems have "v div 10 < w div 10" "w div 10 < 10 ^ n"
      by (simp_all add: div_le_mono le_neq_implies_less less_mult_imp_div_less mult.commute)
    then have "pad n (v div 10) < pad n (w div 10)" by (rule Suc.IH)
    then show ?thesis by (simp add: less_append_right)
  qed
qed simp

lemma pad_le_digit: "r \<in> set (pad n v) \<Longrightarrow> 48 \<le> r \<and> r \<le> 57"
proof (induction n arbitrary: v)
  case (Suc n)
  have "int (v mod 10) \<le> 9" by simp
  with Suc show ?case by (fastforce simp del: of_nat_mod zmod_int)
qed simp

lemma pad_inject: "v < 10 ^ n \<Longrightarrow> w < 10 ^ n \<Longrightarrow> pad n v = pad n w \<longleftrightarrow> v = w"
  by (metis less_irrefl linorder_neqE_nat pad_mono)

lemma strip_zeros_split: "\<exists>k. s = strip_zeros s @ replicate k 48"
proof -
  have "rev s = takeWhile (\<lambda>r. r = 48) (rev s) @ dropWhile (\<lambda>r. r = 48) (rev s)" by simp
  moreover have "takeWhile (\<lambda>r. r = 48) (rev s) = replicate (length (takeWhile (\<lambda>r. r = 48) (rev s))) 48"
    by (rule replicate_eqI) (auto dest: set_takeWhileD)
  ultimately have "s = strip_zeros s @ rev (replicate (length (takeWhile (\<lambda>r. r = 48) (rev s))) 48)"
    unfolding strip_zeros_def by (metis rev_append rev_rev_ident)
  then show ?thesis by auto
qed

lemma strip_zeros_digits: "r \<in> set (strip_zeros s) \<Longrightarrow> r \<in> set s"
  by (auto simp: strip_zeros_def dest: set_dropWhileD)

lemma replicate_zero_le:
  fixes z :: "int list"
  assumes "\<forall>r \<in> set z. 48 \<le> r" and "length z = n"
  shows "\<not> z < replicate n 48"
  using assms
proof (induction n arbitrary: z)
  case (Suc n)
  then obtain a z' where "z = a # z'" by (cases z) auto
  with Suc show ?case by auto
qed simp

text \<open>The text of two fractions: reversed exactly when the earlier one is a prefix.\<close>

lemma stripped_less:
  assumes "ns < ns'" "ns' < 10 ^ 9"
  shows "strip_zeros (pad 9 ns) @ [90] < strip_zeros (pad 9 ns') @ [90]
     \<longleftrightarrow> \<not> prefix (strip_zeros (pad 9 ns)) (strip_zeros (pad 9 ns'))"
proof -
  let ?u = "strip_zeros (pad 9 ns)" and ?v = "strip_zeros (pad 9 ns')"
  obtain k k' where p: "pad 9 ns = ?u @ replicate k 48" "pad 9 ns' = ?v @ replicate k' 48"
    using strip_zeros_split by blast
  have lt: "?u @ replicate k 48 < ?v @ replicate k' 48"
    using pad_mono [OF assms] p by simp
  have dig: "\<forall>r \<in> set ?u. 48 \<le> r \<and> r \<le> 57" "\<forall>r \<in> set ?v. 48 \<le> r \<and> r \<le> 57"
    using pad_le_digit strip_zeros_digits by blast+
  have len: "length ?u + k = 9" "length ?v + k' = 9"
    using p by (metis length_append length_pad length_replicate)+
  show ?thesis
  proof (cases "prefix ?u ?v")
    case True
    then obtain w where w: "?v = ?u @ w" by (auto elim: prefixE)
    have "w \<noteq> []"
    proof
      assume "w = []"
      with w len have "k = k'" by simp
      with w lt \<open>w = []\<close> show False by simp
    qed
    with w dig(2) have "[90] > w @ [90]" by (cases w) auto
    then have "\<not> ?u @ [90] < ?u @ w @ [90]" by simp
    with True w show ?thesis by simp
  next
    case False
    have nv: "\<not> prefix ?v ?u"
    proof
      assume "prefix ?v ?u"
      then obtain w where w: "?u = ?v @ w" by (auto elim: prefixE)
      with lt have "w @ replicate k 48 < replicate k' 48" by simp
      moreover have "length (w @ replicate k 48) = k'" using w len by simp
      moreover have "\<forall>r \<in> set (w @ replicate k 48). 48 \<le> r" using dig w by auto
      ultimately show False using replicate_zero_le by blast
    qed
    from False nv have "parallel ?u ?v" by auto
    then obtain c a x b y where d: "a \<noteq> b" "?u = c @ a # x" "?v = c @ b # y"
      using parallel_decomp by blast
    with lt have "a < b" by auto
    with d False show ?thesis by simp
  qed
qed

text \<open>
  C40. Timestamps as text. For two valid times of different seconds the RFC3339Nano texts compare as
  the times do. Within one second the later time has the smaller text exactly when the printed
  fraction of the earlier time is a prefix of that of the later one, for example an empty fraction,
  or .5 against .51: the order of the texts is not the order of the times.
\<close>

lemma seconds_text_less:
  assumes "valid_time t" "valid_time u" "butlast (time_key t) < butlast (time_key u)"
  shows "seconds_text t < seconds_text u"
proof -
  obtain y mo d h mi s ns where t: "t = UTC y mo d h mi s ns" by (cases t)
  obtain y' mo' d' h' mi' s' ns' where u: "u = UTC y' mo' d' h' mi' s' ns'" by (cases u)
  have lt: "pad n v @ x < pad n w @ z" if "v < w" "w < 10 ^ n" for n v w x z
    using pad_mono [OF that] by (simp add: less_append_right)
  have "y < y' \<or> y = y' \<and> (mo < mo' \<or> mo = mo' \<and> (d < d' \<or> d = d' \<and>
      (h < h' \<or> h = h' \<and> (mi < mi' \<or> mi = mi' \<and> s < s'))))"
    using assms(3) by (auto simp: t u)
  with assms(1,2) show ?thesis
    unfolding seconds_text_def t u valid_time_def
    by (elim disjE conjE) (simp_all add: lt pad_mono)
qed

lemma length_seconds_text [simp]: "length (seconds_text t) = 19"
  by (simp add: seconds_text_def)

theorem rfc3339nano_order:
  assumes "valid_time t" "valid_time u" "t < u"
  shows "rfc3339nano t < rfc3339nano u \<longleftrightarrow>
     \<not> (butlast (time_key t) = butlast (time_key u) \<and> prefix (fraction (nanos t)) (fraction (nanos u)))"
proof (cases "butlast (time_key t) = butlast (time_key u)")
  case False
  with assms(3) have "butlast (time_key t) < butlast (time_key u)"
    by (cases t; cases u) (auto simp: less_utc_def)
  with False assms show ?thesis
    by (simp add: rfc3339nano_def less_append_right seconds_text_less)
next
  case True
  then have s: "seconds_text t = seconds_text u" by (cases t; cases u) (simp add: seconds_text_def)
  from True assms(3) have "nanos t < nanos u" by (cases t; cases u) (auto simp: less_utc_def)
  with assms(2) stripped_less [of "nanos t" "nanos u"] True s show ?thesis
    by (auto simp: rfc3339nano_def fraction_def valid_time_def)
qed

theorem rfc3339nano_order_witness:
  "UTC 2026 3 5 10 0 0 500000000 < UTC 2026 3 5 10 0 0 510000000
   \<and> \<not> rfc3339nano (UTC 2026 3 5 10 0 0 500000000) < rfc3339nano (UTC 2026 3 5 10 0 0 510000000)"
proof -
  let ?t = "UTC 2026 3 5 10 0 0 500000000" and ?u = "UTC 2026 3 5 10 0 0 510000000"
  have lt: "?t < ?u" by (simp add: less_utc_def)
  have "prefix (fraction (nanos ?t)) (fraction (nanos ?u))"
    by (simp add: fraction_def strip_zeros_def pad_numeral)
  with rfc3339nano_order [OF _ _ lt] lt show ?thesis by (simp add: valid_time_def)
qed

end
