(* ===== verification/Hub.thy ===== *)
theory Hub
  imports WsFrame Metrics
begin

text \<open>
  \<open>gateway/hub.go\<close>: the set of connected browsers. A client object is named by a number and
  lives in a heap, because broadcasts keep pointers to clients that may have been removed meanwhile.
  Its \<open>send\<close> channel is the list of buffered events and a flag for \<open>close(c.send)\<close>; sending on
  a closed channel panics, which the model records in \<open>h_panic\<close>. \<open>h_clients\<close> are the keys of
  the Go map in the order the runtime happens to iterate them.

  The first part treats every method as one step; the last part lets broadcasts and removals
  interleave as the locks allow.
\<close>

record terminal_event =
  ev_Event :: str
  ev_SessionID :: str
  ev_Connected :: bool
  ev_Text :: str
  ev_QueueDepth :: int
  ev_QueueMax :: int
  ev_QueueRejectCode :: str
  ev_Timestamp :: str

record client =
  cl_conn :: nat
  cl_send :: "terminal_event list"
  cl_closed :: bool

record hub =
  h_clients :: "nat list"
  h_heap :: "nat \<Rightarrow> client"
  h_next :: nat
  h_closed_conns :: "nat list"
  h_panic :: bool

type_synonym hub_state = "hub \<times> metrics"

definition send_capacity :: nat where "send_capacity = 32"

definition NewHub :: hub where
  "NewHub = \<lparr>h_clients = [], h_heap = (\<lambda>_. \<lparr>cl_conn = 0, cl_send = [], cl_closed = True\<rparr>),
             h_next = 0, h_closed_conns = [], h_panic = False\<rparr>"

definition Add :: "nat \<Rightarrow> hub_state \<Rightarrow> nat \<times> hub_state" where
  "Add conn s =
     (case s of (h, m) \<Rightarrow>
        let c = h_next h
        in (c, (h\<lparr>h_clients := h_clients h @ [c],
                  h_heap := (h_heap h)(c := \<lparr>cl_conn = conn, cl_send = [], cl_closed = False\<rparr>),
                  h_next := Suc c\<rparr>,
                IncWSConnections m)))"

definition Remove :: "nat \<Rightarrow> hub_state \<Rightarrow> hub_state" where
  "Remove c s =
     (case s of (h, m) \<Rightarrow>
        if c \<notin> set (h_clients h) then (h, m)
        else (h\<lparr>h_clients := filter (\<lambda>d. d \<noteq> c) (h_clients h),
                h_heap := (h_heap h)(c := (h_heap h c)\<lparr>cl_closed := True\<rparr>),
                h_closed_conns := cl_conn (h_heap h c) # h_closed_conns h,
                h_panic := h_panic h \<or> cl_closed (h_heap h c)\<rparr>,
              DecWSConnections m))"

text \<open>The \<open>select\<close> of \<open>Broadcast\<close> for one client of its snapshot.\<close>

definition offer :: "terminal_event \<Rightarrow> nat \<Rightarrow> hub_state \<Rightarrow> hub_state" where
  "offer event c s =
     (case s of (h, m) \<Rightarrow>
        if cl_closed (h_heap h c) then (h\<lparr>h_panic := True\<rparr>, m)
        else if length (cl_send (h_heap h c)) < send_capacity then
          (h\<lparr>h_heap := (h_heap h)(c := (h_heap h c)\<lparr>cl_send := cl_send (h_heap h c) @ [event]\<rparr>)\<rparr>, m)
        else Remove c (h, m))"

definition Broadcast :: "terminal_event \<Rightarrow> hub_state \<Rightarrow> hub_state" where
  "Broadcast event s = fold (offer event) (h_clients (fst s)) s"

text \<open>The pump goroutine takes the oldest event of a channel.\<close>

definition take_event :: "nat \<Rightarrow> hub_state \<Rightarrow> terminal_event option \<times> hub_state" where
  "take_event c s =
     (case s of (h, m) \<Rightarrow>
        case cl_send (h_heap h c) of
          [] \<Rightarrow> (None, s)
        | e # es \<Rightarrow> (Some e, (h\<lparr>h_heap := (h_heap h)(c := (h_heap h c)\<lparr>cl_send := es\<rparr>)\<rparr>, m)))"

lemmas hub_defs = Add_def Remove_def offer_def Broadcast_def take_event_def

subsection \<open>The invariant\<close>

definition hub_ok :: "hub_state \<Rightarrow> bool" where
  "hub_ok s \<longleftrightarrow>
     (case s of (h, m) \<Rightarrow>
        distinct (h_clients h)
      \<and> (\<forall>c \<in> set (h_clients h). c < h_next h \<and> \<not> cl_closed (h_heap h c))
      \<and> (\<forall>c. length (cl_send (h_heap h c)) \<le> send_capacity)
      \<and> (\<forall>c. c \<notin> set (h_clients h) \<longrightarrow> cl_closed (h_heap h c))
      \<and> m_wsConnections m = of_nat (length (h_clients h))
      \<and> \<not> h_panic h)"

lemma length_filter_neq:
  "distinct xs \<Longrightarrow> c \<in> set xs \<Longrightarrow> Suc (length (filter (\<lambda>d. d \<noteq> c) xs)) = length xs"
proof (induction xs)
  case (Cons x xs)
  show ?case
  proof (cases "x = c")
    case True
    with Cons.prems have "filter (\<lambda>d. d \<noteq> c) xs = xs" by (auto intro!: filter_True)
    with True show ?thesis by simp
  next
    case False
    with Cons show ?thesis by simp
  qed
qed simp

lemma hub_ok_New: "hub_ok (NewHub, NewMetrics)"
  by (simp add: hub_ok_def NewHub_def NewMetrics_def)

lemma hub_ok_Add [gw_inv]: "hub_ok s \<Longrightarrow> hub_ok (snd (Add conn s))"
  by (cases s) (fastforce simp: hub_ok_def Add_def IncWSConnections_def Let_def)

lemma hub_ok_Remove [gw_inv]: "hub_ok s \<Longrightarrow> hub_ok (Remove c s)"
proof -
  assume ok: "hub_ok s"
  obtain h m where s: "s = (h, m)" by (cases s)
  show ?thesis
  proof (cases "c \<in> set (h_clients h)")
    case True
    with ok s have "Suc (length (filter (\<lambda>d. d \<noteq> c) (h_clients h))) = length (h_clients h)"
      by (intro length_filter_neq) (auto simp: hub_ok_def)
    then have "of_nat (length (h_clients h)) - 1 =
        (of_nat (length (filter (\<lambda>d. d \<noteq> c) (h_clients h))) :: int64)"
      by (metis add_diff_cancel_left' of_nat_Suc)
    with ok s True show ?thesis
      by (auto simp: hub_ok_def Remove_def DecWSConnections_def)
  next
    case False
    with ok s show ?thesis by (simp add: Remove_def)
  qed
qed

lemma hub_ok_offer [gw_inv]: "hub_ok s \<Longrightarrow> c \<in> set (h_clients (fst s)) \<Longrightarrow> hub_ok (offer e c s)"
  using hub_ok_Remove [of s c] by (cases s) (auto simp: hub_ok_def offer_def)

lemma hub_ok_take [gw_inv]:
  assumes "hub_ok s"
  shows "hub_ok (snd (take_event c s))"
proof -
  obtain h m where s: "s = (h, m)" by (cases s)
  with assms have len: "length (cl_send (h_heap h c)) \<le> send_capacity" by (simp add: hub_ok_def)
  show ?thesis
  proof (cases "cl_send (h_heap h c)")
    case Nil
    with assms s show ?thesis by (simp add: take_event_def)
  next
    case (Cons e es)
    with len have "length es \<le> send_capacity" by simp
    with assms s Cons show ?thesis by (auto simp: hub_ok_def take_event_def)
  qed
qed

subsection \<open>Broadcast\<close>

text \<open>What an offer does to the client it is made to, and to the others.\<close>

lemma offer_other:
  "d \<noteq> c \<Longrightarrow> h_heap (fst (offer e c s)) d = h_heap (fst s) d"
  "d \<noteq> c \<Longrightarrow> d \<in> set (h_clients (fst (offer e c s))) \<longleftrightarrow> d \<in> set (h_clients (fst s))"
  by (cases s; auto simp: offer_def Remove_def)+

lemma offer_self:
  assumes "hub_ok s" "c \<in> set (h_clients (fst s))"
  shows "if length (cl_send (h_heap (fst s) c)) < send_capacity
    then c \<in> set (h_clients (fst (offer e c s)))
       \<and> cl_send (h_heap (fst (offer e c s)) c) = cl_send (h_heap (fst s) c) @ [e]
    else c \<notin> set (h_clients (fst (offer e c s)))
       \<and> cl_closed (h_heap (fst (offer e c s)) c)
       \<and> cl_conn (h_heap (fst s) c) \<in> set (h_closed_conns (fst (offer e c s)))"
  using assms by (cases s) (auto simp: offer_def Remove_def hub_ok_def)

lemma closed_conns_offer:
  "set (h_closed_conns (fst s)) \<subseteq> set (h_closed_conns (fst (offer e c s)))"
  by (cases s) (auto simp: offer_def Remove_def)

text \<open>A broadcast over any duplicate free list of members.\<close>

lemma fold_offer:
  assumes "hub_ok s" "distinct cs" "set cs \<subseteq> set (h_clients (fst s))"
    and "t = fold (offer e) cs s"
  shows "hub_ok t
    \<and> (\<forall>d. d \<notin> set cs \<longrightarrow> h_heap (fst t) d = h_heap (fst s) d
           \<and> (d \<in> set (h_clients (fst t)) \<longleftrightarrow> d \<in> set (h_clients (fst s))))
    \<and> (\<forall>d \<in> set cs. if length (cl_send (h_heap (fst s) d)) < send_capacity
         then d \<in> set (h_clients (fst t))
            \<and> cl_send (h_heap (fst t) d) = cl_send (h_heap (fst s) d) @ [e]
         else d \<notin> set (h_clients (fst t)) \<and> cl_closed (h_heap (fst t) d)
            \<and> cl_conn (h_heap (fst s) d) \<in> set (h_closed_conns (fst t)))
    \<and> set (h_closed_conns (fst s)) \<subseteq> set (h_closed_conns (fst t))"
  using assms(1-3) unfolding assms(4)
proof (induction cs arbitrary: s)
  case (Cons c cs)
  let ?s1 = "offer e c s"
  have ok1: "hub_ok ?s1" using Cons.prems by (auto intro: hub_ok_offer)
  have sub: "set cs \<subseteq> set (h_clients (fst ?s1))"
    using Cons.prems offer_other(2) [of _ c e s] by (auto simp: subset_iff) metis
  note IH = Cons.IH [OF ok1 _ sub]
  from Cons.prems have nc: "c \<notin> set cs" "distinct cs" by auto
  note I = IH [OF nc(2)]
  have self: "if length (cl_send (h_heap (fst s) c)) < send_capacity
    then c \<in> set (h_clients (fst ?s1)) \<and> cl_send (h_heap (fst ?s1) c) = cl_send (h_heap (fst s) c) @ [e]
    else c \<notin> set (h_clients (fst ?s1)) \<and> cl_closed (h_heap (fst ?s1) c)
       \<and> cl_conn (h_heap (fst s) c) \<in> set (h_closed_conns (fst ?s1))"
    using Cons.prems by (intro offer_self) auto
  have oth: "h_heap (fst ?s1) d = h_heap (fst s) d" if "d \<in> set cs" for d
    using that nc by (auto intro: offer_other)
  show ?case
    using I self nc oth offer_other [of _ c e s] closed_conns_offer [of s e c]
    by (auto split: if_splits)
qed simp

text \<open>
  C24. A broadcast reaches every browser that keeps up and none else is disturbed. In a consistent
  hub the method does not panic and leaves the hub consistent (the connection gauge included); a
  client with room in its channel stays and gets the event as its newest; a client whose channel of
  32 events is full is removed, its channel and its network connection are closed; nobody else
  changes.
\<close>

theorem broadcast_delivers:
  assumes "hub_ok s" and "t = Broadcast e s"
  shows "hub_ok t
    \<and> (\<forall>c \<in> set (h_clients (fst s)).
         if length (cl_send (h_heap (fst s) c)) < 32
         then c \<in> set (h_clients (fst t))
            \<and> cl_send (h_heap (fst t) c) = cl_send (h_heap (fst s) c) @ [e]
         else c \<notin> set (h_clients (fst t)) \<and> cl_closed (h_heap (fst t) c)
            \<and> cl_conn (h_heap (fst s) c) \<in> set (h_closed_conns (fst t)))
    \<and> (\<forall>c. c \<notin> set (h_clients (fst s)) \<longrightarrow> h_heap (fst t) c = h_heap (fst s) c
             \<and> c \<notin> set (h_clients (fst t)))"
proof -
  have "distinct (h_clients (fst s))" using assms(1) by (cases s) (simp add: hub_ok_def)
  from fold_offer [OF assms(1) this subset_refl refl, of e] show ?thesis
    by (simp add: assms(2) Broadcast_def send_capacity_def)
qed

abbreviation sample_event :: terminal_event where
  "sample_event \<equiv> \<lparr>ev_Event = lit ''terminal.output'', ev_SessionID = lit ''s-1'', ev_Connected = False,
     ev_Text = lit ''hi'', ev_QueueDepth = 0, ev_QueueMax = 0, ev_QueueRejectCode = [], ev_Timestamp = []\<rparr>"

theorem broadcast_delivers_witness:
  "cl_send (h_heap (fst (Broadcast sample_event (snd (Add 7 (NewHub, NewMetrics))))) 0) = [sample_event]"
proof -
  have ok: "hub_ok (snd (Add 7 (NewHub, NewMetrics)))" by (intro hub_ok_Add hub_ok_New)
  from broadcast_delivers [OF ok refl, of sample_event] show ?thesis
    by (simp add: Add_def NewHub_def Let_def)
qed

subsection \<open>Reading from a browser\<close>

lemma readFrame_consumes:
  assumes "readFrame c = (Inr x, c1)"
  shows "length (rc_data c1) < length (rc_data c)"
proof -
  have rb: "length (rc_data d1) + n = length (rc_data d)" if "read_bytes n d = (Inr bs, d1)" for n d d1 bs
    using that by (auto simp: read_bytes_def ReadFull_def split: if_splits)
  have le: "length (rc_data d1) \<le> length (rc_data d)" if "read_length k d = (Inr n, d1)" for k d d1 n
    using that rb
    by (auto simp: read_length_def and_then_def return_def throw_def split: if_splits prod.splits sum.splits)
       fastforce+
  have pick: "length (rc_data d1) \<le> length (rc_data d)"
    if "(if b then read_bytes n else return z) d = (Inr bs, d1)" for b n z d d1 bs
    using that rb [of n d bs d1] by (auto simp: return_def split: if_splits)
  from assms show ?thesis
    unfolding readFrame_def Let_def and_then_def
    by (auto split: prod.splits sum.splits dest!: rb le pick simp: return_def)
qed

datatype read_exit = DeadlineFailed | ReadFailed ws_err | PeerClosed

text \<open>
  \<open>ReadLoop\<close>: everything a browser sends is read and dropped until it closes, the connection
  fails or the deadline cannot be set (\<open>set_deadline\<close> says whether the call succeeds).
\<close>

function ReadLoop :: "(rconn \<Rightarrow> bool) \<Rightarrow> rconn \<Rightarrow> read_exit" where
  "ReadLoop set_deadline c =
     (if \<not> set_deadline c then DeadlineFailed
      else case readFrame c of
        (Inl err, _) \<Rightarrow> ReadFailed err
      | (Inr (opcode, _), c1) \<Rightarrow>
          if opcode = wsOpcodeClose then PeerClosed else ReadLoop set_deadline c1)"
  by pat_completeness auto
termination
  by (relation "measure (\<lambda>(_, c). length (rc_data c))") (auto dest: readFrame_consumes [OF sym])

declare ReadLoop.simps [simp del]

text \<open>
  \<open>writePump\<close>: the events of a closed channel, in order, as text frames; the JSON text of an
  event is the parameter \<open>marshal\<close>. It stops at the first failed deadline or write.
\<close>

fun writePump :: "(terminal_event \<Rightarrow> byte list option) \<Rightarrow> (wconn \<Rightarrow> bool) \<Rightarrow> terminal_event list \<Rightarrow> wconn \<Rightarrow> wconn" where
  "writePump marshal set_deadline [] w = w"
| "writePump marshal set_deadline (event # events) w =
     (if \<not> set_deadline w then w
      else case marshal event of
        None \<Rightarrow> writePump marshal set_deadline events w
      | Some payload \<Rightarrow>
          (case writeTextFrame w payload of
             (Some err, w1) \<Rightarrow> w1
           | (None, w1) \<Rightarrow> writePump marshal set_deadline events w1))"

text \<open>What a reader finds in a byte stream: the payloads of all complete frames.\<close>

function read_payloads :: "rconn \<Rightarrow> byte list list" where
  "read_payloads c =
     (case readFrame c of (Inl _, _) \<Rightarrow> [] | (Inr (_, p), c1) \<Rightarrow> p # read_payloads c1)"
  by pat_completeness auto
termination
  by (relation "measure (\<lambda>c. length (rc_data c))") (auto dest: readFrame_consumes [OF sym])

declare read_payloads.simps [simp del]

lemma writePump_out:
  assumes "\<forall>w. set_deadline w" and "wc_err w = None"
  shows "wc_out (writePump marshal set_deadline events w)
       = wc_out w @ concat (map text_frame (List.map_filter marshal events))"
  using assms(2)
proof (induction events arbitrary: w)
  case (Cons e es)
  with assms(1) show ?case
    by (auto simp: writeTextFrame_def List.map_filter_def split: option.splits)
qed (simp add: List.map_filter_def)

lemma read_payloads_frames:
  "\<forall>p \<in> set ps. length p \<le> 2 ^ 20 \<Longrightarrow>
     read_payloads \<lparr>rc_data = concat (map text_frame ps), rc_end = EOF\<rparr> = ps"
proof (induction ps)
  case Nil
  show ?case
    by (subst read_payloads.simps)
      (simp add: readFrame_def and_then_def read_bytes_def ReadFull_def)
next
  case (Cons p ps)
  have "readFrame \<lparr>rc_data = text_frame p @ concat (map text_frame ps), rc_end = EOF\<rparr>
      = (Inr ((128 OR wsOpcodeText) AND 15, p), \<lparr>rc_data = concat (map text_frame ps), rc_end = EOF\<rparr>)"
    using Cons.prems unfolding text_frame_ws by (intro readFrame_ws_frame) auto
  with Cons show ?case by (subst read_payloads.simps) simp
qed

text \<open>
  On a connection that works the pump writes exactly the events that can be marshalled, in the order
  they were sent, and a reader of the connection finds exactly their texts.
\<close>

lemma pump_in_order:
  assumes "\<forall>w. set_deadline w" and "wc_err w = None" and "wc_out w = []"
    and "\<forall>e \<in> set events. \<forall>p. marshal e = Some p \<longrightarrow> length p \<le> 2 ^ 20"
  shows "read_payloads \<lparr>rc_data = wc_out (writePump marshal set_deadline events w), rc_end = EOF\<rparr>
       = List.map_filter marshal events"
  using assms(3,4)
  by (simp add: writePump_out [OF assms(1,2)])
     (intro read_payloads_frames, auto simp: List.map_filter_def)

end
