(* ===== verification/HubRace.thy ===== *)
theory HubRace
  imports Hub "HOL-Library.Multiset"
begin

text \<open>
  The hub under concurrency. Only the updates of the client set are under \<open>h.mu\<close>: \<open>Add\<close> counts the
  connection after it, \<open>Remove\<close> counts it out, closes the channel and closes the connection after it,
  and \<open>Broadcast\<close> offers the event to each client of its copy without the lock. Meanwhile other
  goroutines add clients, remove them (the deferred \<open>Remove\<close> of handleTerminalWS, or another broadcast
  that met a full channel) and pump events out. A task is a goroutine between two such points; a step is
  one critical section or one channel operation. After a panic nothing moves.
\<close>

text \<open>The points of \<open>Remove\<close> after its critical section: what it did last.\<close>

datatype removal = Deleted | Counted | ChannelClosed

datatype hub_task =
    Adding nat
  | Serving terminal_event "nat list"
  | Removing nat removal "(terminal_event \<times> nat list) option"

record hub_sys =
  hs_state :: hub_state
  hs_tasks :: "hub_task list"

definition init_hub_sys :: hub_sys where
  "init_hub_sys = \<lparr>hs_state = (NewHub, NewMetrics), hs_tasks = []\<rparr>"

definition panicked :: "hub_sys \<Rightarrow> bool" where
  "panicked st = h_panic (fst (hs_state st))"

definition members :: "hub_sys \<Rightarrow> nat list" where
  "members st = h_clients (fst (hs_state st))"

subsection \<open>The sections of the methods\<close>

definition add_locked :: "nat \<Rightarrow> hub_state \<Rightarrow> nat \<times> hub_state" where
  "add_locked conn s =
     (let (h, m) = s; c = h_next h
      in (c, (h\<lparr>h_clients := h_clients h @ [c],
                h_heap := (h_heap h)(c := \<lparr>cl_conn = conn, cl_send = [], cl_closed = False\<rparr>),
                h_next := Suc c\<rparr>, m)))"

definition remove_locked :: "nat \<Rightarrow> hub_state \<Rightarrow> hub_state option" where
  "remove_locked c s =
     (let (h, m) = s
      in if c \<notin> set (h_clients h) then None
         else Some (h\<lparr>h_clients := filter (\<lambda>d. d \<noteq> c) (h_clients h)\<rparr>, m))"

definition on_metrics :: "(metrics \<Rightarrow> metrics) \<Rightarrow> hub_state \<Rightarrow> hub_state" where
  "on_metrics f s = (fst s, f (snd s))"

definition close_channel :: "nat \<Rightarrow> hub_state \<Rightarrow> hub_state" where
  "close_channel c s =
     (let (h, m) = s
      in (h\<lparr>h_heap := (h_heap h)(c := (h_heap h c)\<lparr>cl_closed := True\<rparr>),
            h_panic := h_panic h \<or> cl_closed (h_heap h c)\<rparr>, m))"

definition close_client_conn :: "nat \<Rightarrow> hub_state \<Rightarrow> hub_state" where
  "close_client_conn c s =
     (let (h, m) = s in (h\<lparr>h_closed_conns := cl_conn (h_heap h c) # h_closed_conns h\<rparr>, m))"

text \<open>Without interference the sections make up the methods of Hub.\<close>

lemma Add_sections:
  "Add conn s = (let (c, s1) = add_locked conn s in (c, on_metrics IncWSConnections s1))"
  by (cases s) (simp add: Add_def add_locked_def on_metrics_def Let_def)

lemma Remove_sections:
  "Remove c s =
     (case remove_locked c s of
        None \<Rightarrow> s
      | Some s1 \<Rightarrow> close_client_conn c (close_channel c (on_metrics DecWSConnections s1)))"
  by (cases s) (simp add: Remove_def remove_locked_def on_metrics_def close_channel_def close_client_conn_def Let_def)

text \<open>The \<open>select\<close> of \<open>Broadcast\<close>: send, panic, or find the channel full.\<close>

definition try_send :: "terminal_event \<Rightarrow> nat \<Rightarrow> hub_state \<Rightarrow> hub_state option" where
  "try_send event c s =
     (let (h, m) = s
      in if cl_closed (h_heap h c) then Some (h\<lparr>h_panic := True\<rparr>, m)
         else if length (cl_send (h_heap h c)) < send_capacity then
           Some (h\<lparr>h_heap := (h_heap h)(c := (h_heap h c)\<lparr>cl_send := cl_send (h_heap h c) @ [event]\<rparr>)\<rparr>, m)
         else None)"

lemma offer_sections:
  "offer event c s = (case try_send event c s of Some s1 \<Rightarrow> s1 | None \<Rightarrow> Remove c s)"
  by (cases s) (simp add: offer_def try_send_def)

inductive hub_step :: "hub_sys \<Rightarrow> hub_sys \<Rightarrow> bool" where
  add: "\<not> panicked st \<Longrightarrow> add_locked conn (hs_state st) = (c, s) \<Longrightarrow>
     hub_step st (st\<lparr>hs_state := s, hs_tasks := Adding c # hs_tasks st\<rparr>)"
| add_count: "\<not> panicked st \<Longrightarrow> hs_tasks st = before @ Adding c # after \<Longrightarrow>
     hub_step st (st\<lparr>hs_state := on_metrics IncWSConnections (hs_state st), hs_tasks := before @ after\<rparr>)"
| leave: "\<not> panicked st \<Longrightarrow> remove_locked c (hs_state st) = Some s \<Longrightarrow>
     hub_step st (st\<lparr>hs_state := s, hs_tasks := Removing c Deleted None # hs_tasks st\<rparr>)"
| leave_count: "\<not> panicked st \<Longrightarrow> hs_tasks st = before @ Removing c Deleted k # after \<Longrightarrow>
     hub_step st (st\<lparr>hs_state := on_metrics DecWSConnections (hs_state st),
                    hs_tasks := before @ Removing c Counted k # after\<rparr>)"
| leave_close: "\<not> panicked st \<Longrightarrow> hs_tasks st = before @ Removing c Counted k # after \<Longrightarrow>
     hub_step st (st\<lparr>hs_state := close_channel c (hs_state st),
                    hs_tasks := before @ Removing c ChannelClosed k # after\<rparr>)"
| leave_done: "\<not> panicked st \<Longrightarrow> hs_tasks st = before @ Removing c ChannelClosed k # after \<Longrightarrow>
     hub_step st (st\<lparr>hs_state := close_client_conn c (hs_state st),
                    hs_tasks := before @ (case k of None \<Rightarrow> [] | Some (e, cs) \<Rightarrow> [Serving e cs]) @ after\<rparr>)"
| pump: "\<not> panicked st \<Longrightarrow> hub_step st (st\<lparr>hs_state := snd (take_event c (hs_state st))\<rparr>)"
| snapshot: "\<not> panicked st \<Longrightarrow> distinct snap \<Longrightarrow> set snap = set (members st) \<Longrightarrow>
     hub_step st (st\<lparr>hs_tasks := Serving e snap # hs_tasks st\<rparr>)"
| serve: "\<not> panicked st \<Longrightarrow> hs_tasks st = before @ Serving e (c # cs) # after \<Longrightarrow>
     try_send e c (hs_state st) = Some s \<Longrightarrow>
     hub_step st (st\<lparr>hs_state := s, hs_tasks := before @ Serving e cs # after\<rparr>)"
| evict: "\<not> panicked st \<Longrightarrow> hs_tasks st = before @ Serving e (c # cs) # after \<Longrightarrow>
     try_send e c (hs_state st) = None \<Longrightarrow> remove_locked c (hs_state st) = Some s \<Longrightarrow>
     hub_step st (st\<lparr>hs_state := s, hs_tasks := before @ Removing c Deleted (Some (e, cs)) # after\<rparr>)"
| evicted: "\<not> panicked st \<Longrightarrow> hs_tasks st = before @ Serving e (c # cs) # after \<Longrightarrow>
     try_send e c (hs_state st) = None \<Longrightarrow> remove_locked c (hs_state st) = None \<Longrightarrow>
     hub_step st (st\<lparr>hs_tasks := before @ Serving e cs # after\<rparr>)"
| finish: "\<not> panicked st \<Longrightarrow> hs_tasks st = before @ Serving e [] # after \<Longrightarrow>
     hub_step st (st\<lparr>hs_tasks := before @ after\<rparr>)"

inductive hub_reach :: "hub_sys \<Rightarrow> bool" where
  start: "hub_reach init_hub_sys"
| next_step: "hub_reach st \<Longrightarrow> hub_step st st1 \<Longrightarrow> hub_reach st1"

subsection \<open>Consistency\<close>

text \<open>
  The clients out of the set whose channel is still to be closed, and the connections whose count the
  gauge still lacks or still has.
\<close>

fun to_close :: "hub_task \<Rightarrow> nat list" where
  "to_close (Removing c phase k) = (if phase = ChannelClosed then [] else [c])"
| "to_close _ = []"

fun uncounted :: "hub_task \<Rightarrow> int64" where
  "uncounted (Adding c) = 1"
| "uncounted (Removing c phase k) = (if phase = Deleted then -1 else 0)"
| "uncounted _ = 0"

definition closing :: "hub_task list \<Rightarrow> nat list" where
  "closing tasks = concat (map to_close tasks)"

definition lag :: "hub_task list \<Rightarrow> int64" where
  "lag tasks = sum_list (map uncounted tasks)"

lemma task_sums [simp]:
  "closing [] = []" "closing (t # ts) = to_close t @ closing ts" "closing (ts @ us) = closing ts @ closing us"
  "lag [] = 0" "lag (t # ts) = uncounted t + lag ts" "lag (ts @ us) = lag ts + lag us"
  by (simp_all add: closing_def lag_def)

definition hub_consistent :: "hub_sys \<Rightarrow> bool" where
  "hub_consistent st \<longleftrightarrow>
     (case hs_state st of (h, m) \<Rightarrow>
        distinct (h_clients h @ closing (hs_tasks st))
      \<and> (\<forall>c. \<not> cl_closed (h_heap h c) \<longleftrightarrow> c \<in> set (h_clients h @ closing (hs_tasks st)))
      \<and> (\<forall>c. \<not> cl_closed (h_heap h c) \<longrightarrow> c < h_next h)
      \<and> (\<forall>c. length (cl_send (h_heap h c)) \<le> send_capacity)
      \<and> m_wsConnections m + lag (hs_tasks st) = of_nat (length (h_clients h))
      \<and> \<not> h_panic h)"

text \<open>At rest this is the consistency of Hub.\<close>

lemma idle_tasks: "\<forall>t \<in> set ts. \<exists>e cs. t = Serving e cs \<Longrightarrow> closing ts = [] \<and> lag ts = 0"
  by (induction ts) auto

lemma hub_consistent_idle:
  assumes "hub_consistent st" "\<forall>t \<in> set (hs_tasks st). \<exists>e cs. t = Serving e cs"
  shows "hub_ok (hs_state st)"
proof -
  from idle_tasks [OF assms(2)] assms(1) show ?thesis by (auto simp: hub_consistent_def hub_ok_def split: prod.splits)
qed

lemma length_filter_int64:
  "distinct xs \<Longrightarrow> c \<in> set xs \<Longrightarrow>
     of_nat (length (filter (\<lambda>d. d \<noteq> c) xs)) = (of_nat (length xs) :: int64) - 1"
  by (simp flip: length_filter_neq [of xs c])

text \<open>The critical section of \<open>Remove\<close>, with the task that goes on with it.\<close>

lemma remove_consistent:
  assumes "hub_consistent st" "remove_locked c (hs_state st) = Some s"
    and "hs_state st1 = s" "mset (closing (hs_tasks st1)) = mset (c # closing (hs_tasks st))"
    and "lag (hs_tasks st1) = lag (hs_tasks st) - 1"
  shows "hub_consistent st1"
proof -
  obtain h m where h: "hs_state st = (h, m)" by (metis surj_pair)
  with assms(2) have c: "c \<in> set (h_clients h)"
    and s: "s = (h\<lparr>h_clients := filter (\<lambda>d. d \<noteq> c) (h_clients h)\<rparr>, m)"
    by (simp_all add: remove_locked_def split: if_splits)
  have set1: "set (closing (hs_tasks st1)) = insert c (set (closing (hs_tasks st)))"
    using mset_eq_setD [OF assms(4)] by simp
  have d: "distinct (closing (hs_tasks st1)) \<longleftrightarrow> distinct (c # closing (hs_tasks st))"
    using assms(4) by (metis mset_eq_imp_distinct_iff)
  have len: "of_nat (length (filter (\<lambda>d. d \<noteq> c) (h_clients h))) = (of_nat (length (h_clients h)) :: int64) - 1"
    using assms(1) h c by (intro length_filter_int64) (simp_all add: hub_consistent_def)
  show ?thesis
    using assms(1,3,5) h c s set1 d len by (auto simp: hub_consistent_def)
qed

text \<open>A step that only fills or empties a channel.\<close>

lemma send_consistent:
  assumes "hub_consistent st" "hs_state st = (h, m)"
    and "hs_state st1 = (h\<lparr>h_heap := (h_heap h)(c := (h_heap h c)\<lparr>cl_send := es\<rparr>)\<rparr>, m)"
    and "length es \<le> send_capacity" "closing (hs_tasks st1) = closing (hs_tasks st)"
    and "lag (hs_tasks st1) = lag (hs_tasks st)"
  shows "hub_consistent st1"
proof -
  let ?hp = "(h_heap h)(c := (h_heap h c)\<lparr>cl_send := es\<rparr>)"
  have same: "cl_closed (?hp d) = cl_closed (h_heap h d)" for d by simp
  have "length (cl_send (?hp d)) \<le> send_capacity" for d
    using assms(1,2,4) by (simp add: hub_consistent_def)
  with assms(1,2,3,5,6) show ?thesis by (simp add: hub_consistent_def same del: fun_upd_apply)
qed

definition stale_offer :: "hub_sys \<Rightarrow> bool" where
  "stale_offer st \<longleftrightarrow>
     (\<exists>e c cs. Serving e (c # cs) \<in> set (hs_tasks st) \<and> c \<notin> set (members st)
        \<and> cl_closed (h_heap (fst (hs_state st)) c))"

lemma hub_step_consistent:
  assumes "hub_step st st1" "hub_consistent st"
  shows "hub_consistent st1 \<or> panicked st1 \<and> stale_offer st"
  using assms
proof (induction rule: hub_step.induct)
  case (add st conn c s)
  obtain h m where h: "hs_state st = (h, m)" by (metis surj_pair)
  with add(2) have c: "c = h_next h" and s: "s = (h\<lparr>h_clients := h_clients h @ [c],
      h_heap := (h_heap h)(c := \<lparr>cl_conn = conn, cl_send = [], cl_closed = False\<rparr>), h_next := Suc c\<rparr>, m)"
    by (auto simp: add_locked_def Let_def)
  have open_iff: "\<not> cl_closed (h_heap h d) \<longleftrightarrow> d \<in> set (h_clients h) \<union> set (closing (hs_tasks st))"
    and below: "\<not> cl_closed (h_heap h d) \<Longrightarrow> d < h_next h" for d
    using add(3) h by (simp_all add: hub_consistent_def)
  have new: "c \<notin> set (h_clients h)" "c \<notin> set (closing (hs_tasks st))"
    using open_iff [of c] below [of c] c by auto
  have "hub_consistent (st\<lparr>hs_state := s, hs_tasks := Adding c # hs_tasks st\<rparr>)"
    using add(3) h new open_iff below unfolding hub_consistent_def s
    by (auto simp: c less_Suc_eq)
  then show ?case ..
next
  case (add_count st before c after)
  then show ?case
    by (auto simp: hub_consistent_def on_metrics_def IncWSConnections_def algebra_simps split: prod.splits)
next
  case (leave st c s)
  then show ?case by (intro disjI1 remove_consistent [OF leave(3,2)]) simp_all
next
  case (leave_count st before c k after)
  then show ?case
    by (auto simp: hub_consistent_def on_metrics_def DecWSConnections_def algebra_simps split: prod.splits)
next
  case (leave_close st before c k after)
  then show ?case by (auto simp: hub_consistent_def close_channel_def split: prod.splits)
next
  case (leave_done st before c k after)
  then show ?case by (auto simp: hub_consistent_def close_client_conn_def split: prod.splits option.splits)
next
  case (pump st c)
  obtain h m where h: "hs_state st = (h, m)" by (metis surj_pair)
  with pump(2) have len: "length (cl_send (h_heap h c)) \<le> send_capacity" by (simp add: hub_consistent_def)
  show ?case
  proof (cases "cl_send (h_heap h c)")
    case Nil
    with pump(2) h show ?thesis by (simp add: take_event_def hub_consistent_def)
  next
    case (Cons e es)
    with len h show ?thesis
      by (intro disjI1 send_consistent [OF pump(2) h, of _ c es]) (simp_all add: take_event_def)
  qed
next
  case (serve st before e c cs after s)
  obtain h m where h: "hs_state st = (h, m)" by (metis surj_pair)
  show ?case
  proof (cases "cl_closed (h_heap h c)")
    case True
    with serve(3,4) h have "c \<notin> set (members st)" "panicked (st\<lparr>hs_state := s, hs_tasks := before @ Serving e cs # after\<rparr>)"
      by (auto simp: hub_consistent_def members_def panicked_def try_send_def)
    moreover have "Serving e (c # cs) \<in> set (hs_tasks st)" using serve(2) by simp
    ultimately show ?thesis using True h unfolding stale_offer_def by auto
  next
    case False
    with serve(3) h have "length (cl_send (h_heap h c)) < send_capacity"
      "s = (h\<lparr>h_heap := (h_heap h)(c := (h_heap h c)\<lparr>cl_send := cl_send (h_heap h c) @ [e]\<rparr>)\<rparr>, m)"
      by (simp_all add: try_send_def split: if_splits)
    with serve(2) have "hub_consistent (st\<lparr>hs_state := s, hs_tasks := before @ Serving e cs # after\<rparr>)"
      by (intro send_consistent [OF serve(4) h, of _ c "cl_send (h_heap h c) @ [e]"]) simp_all
    then show ?thesis ..
  qed
next
  case (evict st before e c cs after s)
  then show ?case by (intro disjI1 remove_consistent [OF evict(5,4)]) simp_all
qed (auto simp: hub_consistent_def)

lemma hub_reach_consistent: "hub_reach st \<Longrightarrow> \<not> panicked st \<Longrightarrow> hub_consistent st"
proof (induction rule: hub_reach.induct)
  case start
  show ?case by (simp add: hub_consistent_def init_hub_sys_def NewHub_def NewMetrics_def)
next
  case (next_step st st1)
  from next_step.hyps(2) have "\<not> panicked st" by (cases rule: hub_step.cases) auto
  with next_step hub_step_consistent [OF next_step.hyps(2)] show ?case by blast
qed

text \<open>
  C25. The one way the hub can crash. In every run, with any number of browsers and of overlapping
  additions, removals and broadcasts, the hub stays consistent until a panic: the channels open are
  those of the clients in the set and of removals that have not closed theirs yet, each one once, no
  channel holds more than its capacity, and the connection gauge is the number of clients but for the
  additions and removals that have not counted yet; with none of these under way it is the consistency
  of the hub. And a step panics only when a broadcast in progress serves a client that has been removed,
  and its channel closed, since the broadcast copied the client set: no channel is closed twice.
\<close>

theorem hub_panic_only_stale_offer:
  assumes "hub_reach st" and "hub_step st st1" and "panicked st1"
  shows "hub_consistent st
    \<and> ((\<forall>t \<in> set (hs_tasks st). \<exists>e cs. t = Serving e cs) \<longrightarrow> hub_ok (hs_state st))
    \<and> (\<exists>e c cs. Serving e (c # cs) \<in> set (hs_tasks st) \<and> c \<notin> set (members st)
         \<and> cl_closed (h_heap (fst (hs_state st)) c))"
proof -
  from assms(2) have "\<not> panicked st" by (cases rule: hub_step.cases) auto
  with assms(1) have ok: "hub_consistent st" by (rule hub_reach_consistent)
  have "\<not> hub_consistent st1" using assms(3) by (auto simp: hub_consistent_def panicked_def split: prod.splits)
  with hub_step_consistent [OF assms(2) ok] have "stale_offer st" by blast
  with ok hub_consistent_idle [OF ok] show ?thesis by (auto simp: stale_offer_def)
qed

text \<open>The run behind the witness and the next lemma: a browser leaves during a broadcast.\<close>

definition one_client :: "bool \<Rightarrow> hub" where
  "one_client present =
     \<lparr>h_clients = (if present then [0] else []),
      h_heap = (h_heap NewHub)(0 := \<lparr>cl_conn = 7, cl_send = [], cl_closed = \<not> present\<rparr>),
      h_next = 1, h_closed_conns = [], h_panic = False\<rparr>"

lemma one_client_sections:
  "add_locked 7 (NewHub, m) = (0, (one_client True, m))"
  "remove_locked 0 (one_client True, m) = Some ((one_client True)\<lparr>h_clients := []\<rparr>, m)"
  "close_channel 0 ((one_client True)\<lparr>h_clients := []\<rparr>, m) = (one_client False, m)"
  "try_send e 0 (one_client False, m) = Some ((one_client False)\<lparr>h_panic := True\<rparr>, m)"
  by (simp_all add: add_locked_def remove_locked_def close_channel_def try_send_def one_client_def NewHub_def Let_def)

definition race_before :: hub_sys where
  "race_before =
     \<lparr>hs_state = (one_client False, DecWSConnections (IncWSConnections NewMetrics)),
      hs_tasks = [Removing 0 ChannelClosed None, Serving sample_event [0]]\<rparr>"

definition race_after :: hub_sys where
  "race_after =
     \<lparr>hs_state = ((one_client False)\<lparr>h_panic := True\<rparr>, DecWSConnections (IncWSConnections NewMetrics)),
      hs_tasks = [Removing 0 ChannelClosed None, Serving sample_event []]\<rparr>"

lemma hub_via: "hub_reach st \<Longrightarrow> hub_step st st1 \<Longrightarrow> st1 = st2 \<Longrightarrow> hub_reach st2"
  by (blast intro: hub_reach.next_step)

lemma one_client_reach:
  "hub_reach \<lparr>hs_state = (one_client True, IncWSConnections NewMetrics), hs_tasks = []\<rparr>"
proof -
  have 1: "hub_reach \<lparr>hs_state = (one_client True, NewMetrics), hs_tasks = [Adding 0]\<rparr>"
    by (rule hub_via [OF hub_reach.start hub_step.add [of _ 7]])
      (auto simp: init_hub_sys_def panicked_def one_client_sections, simp add: NewHub_def)
  show ?thesis
    by (rule hub_via [OF 1 hub_step.add_count [of _ "[]" 0 "[]"]])
      (auto simp: panicked_def on_metrics_def, simp add: one_client_def)
qed

lemma race_before_reach: "hub_reach race_before"
proof -
  let ?m = "IncWSConnections NewMetrics" and ?out = "(one_client True)\<lparr>h_clients := []\<rparr>"
  have np: "\<not> h_panic (one_client b)" for b by (simp add: one_client_def)
  have 1: "hub_reach \<lparr>hs_state = (one_client True, ?m), hs_tasks = [Serving sample_event [0]]\<rparr>"
    by (rule hub_via [OF one_client_reach hub_step.snapshot [of _ "[0]" sample_event]])
      (simp_all add: panicked_def members_def np, simp add: one_client_def)
  have 2: "hub_reach \<lparr>hs_state = (?out, ?m), hs_tasks = [Removing 0 Deleted None, Serving sample_event [0]]\<rparr>"
    by (rule hub_via [OF 1 hub_step.leave [of _ 0]]) (simp_all add: panicked_def np one_client_sections)
  have 3: "hub_reach \<lparr>hs_state = (?out, DecWSConnections ?m), hs_tasks = [Removing 0 Counted None, Serving sample_event [0]]\<rparr>"
    by (rule hub_via [OF 2 hub_step.leave_count [of _ "[]" 0 None]]) (simp_all add: panicked_def np on_metrics_def)
  show ?thesis
    by (rule hub_via [OF 3 hub_step.leave_close [of _ "[]" 0 None]])
      (simp_all add: panicked_def np one_client_sections race_before_def)
qed

lemma race_step: "hub_step race_before race_after"
proof -
  have "hub_step race_before (race_before\<lparr>hs_state := ((one_client False)\<lparr>h_panic := True\<rparr>, snd (hs_state race_before)),
      hs_tasks := [Removing 0 ChannelClosed None] @ Serving sample_event [] # []\<rparr>)"
    by (rule hub_step.serve [where c = 0]) (simp_all add: race_before_def panicked_def one_client_sections, simp add: one_client_def)
  then show ?thesis by (simp add: race_before_def race_after_def)
qed

lemma race_after_panicked: "panicked race_after"
  by (simp add: race_after_def panicked_def)

theorem hub_panic_only_stale_offer_witness: "hub_consistent race_before"
  using hub_panic_only_stale_offer [OF race_before_reach race_step race_after_panicked] by simp

text \<open>
  A browser that leaves while a broadcast is under way can crash the gateway: there is a run in
  which one browser connects, a broadcast copies the client set, the browser's read loop ends and
  removes it, closing its channel, and the broadcast then sends on the closed channel.
\<close>

lemma hub_race_panics: "\<exists>st. hub_reach st \<and> panicked st"
  using hub_reach.next_step [OF race_before_reach race_step] race_after_panicked by blast

end
