(* ===== verification/Manager.thy ===== *)
theory Manager
  imports Hub Queue Clock Telnet Decoder
begin

text \<open>
  \<open>gateway/manager.go\<close>: the one upstream session of the gateway. A \<open>gateway\<close> record is
  the \<open>Manager\<close> with everything it reaches: the session with its command queue, the metrics, the
  hub, and three logs of effects on the outside: the upstream connections closed, the bytes written
  to them, and the calls of the \<open>onTerminal\<close> callback.

  Each method is composed, in the order of the code, of its critical sections (\<open>..._locked\<close>,
  between \<open>m.mu.Lock\<close> and \<open>m.mu.Unlock\<close>) and of what it does between them, so that ManagerRace
  can interleave the same sections. The dialled connection, the answers of the connection and the
  clock are inputs. Upstream connections are named by numbers.
\<close>

record status =
  st_SessionID :: str
  st_Connected :: bool
  st_QueueDepth :: int
  st_QueueMax :: int
  st_LastActivity :: utc

record session =
  s_id :: str
  s_host :: str
  s_port :: int
  s_connected :: bool
  s_lastActivity :: utc
  s_conn :: "nat option"
  s_queue :: queue

record gateway =
  g_session :: "session option"
  g_sessionSeq :: uint64
  g_queueInterval :: int
  g_queueMaxDepth :: int
  g_hub :: hub
  g_metrics :: metrics
  g_closed :: "nat list"
  g_written :: "(nat \<times> byte list) list"
  g_terminal :: "(str \<times> str) list"

definition NewManager :: "int \<Rightarrow> int \<Rightarrow> metrics \<Rightarrow> gateway" where
  "NewManager queueInterval queueMaxDepth metrics =
     \<lparr>g_session = None, g_sessionSeq = 0, g_queueInterval = queueInterval,
      g_queueMaxDepth = queueMaxDepth, g_hub = NewHub, g_metrics = metrics, g_closed = [],
      g_written = [], g_terminal = []\<rparr>"

definition zero_status :: status where
  "zero_status = \<lparr>st_SessionID = [], st_Connected = False, st_QueueDepth = 0, st_QueueMax = 0,
     st_LastActivity = zero_time\<rparr>"

definition manager_broadcast :: "terminal_event \<Rightarrow> gateway \<Rightarrow> gateway" where
  "manager_broadcast event g =
     (let (h, m) = Broadcast event (g_hub g, IncEventsBroadcast (g_metrics g))
      in g\<lparr>g_hub := h, g_metrics := m\<rparr>)"

definition statusLocked :: "gateway \<Rightarrow> status" where
  "statusLocked g =
     (case g_session g of
        None \<Rightarrow> zero_status
      | Some s \<Rightarrow>
          \<lparr>st_SessionID = s_id s, st_Connected = s_connected s,
           st_QueueDepth = int (Depth (s_queue s)), st_QueueMax = MaxDepth (s_queue s),
           st_LastActivity = s_lastActivity s\<rparr>)"

definition ensureSessionLocked :: "utc \<Rightarrow> gateway \<Rightarrow> session \<times> gateway" where
  "ensureSessionLocked now g =
     (case g_session g of
        Some s \<Rightarrow> (s, g)
      | None \<Rightarrow>
          let seq = g_sessionSeq g + 1;
              sessionID = lit ''s-'' @ itoa (uint seq);
              s = \<lparr>s_id = sessionID, s_host = [], s_port = 0, s_connected = False,
                   s_lastActivity = now, s_conn = None,
                   s_queue = NewCommandQueue sessionID (g_queueMaxDepth g) (g_queueInterval g)\<rparr>
          in (s, g\<lparr>g_session := Some s, g_sessionSeq := seq\<rparr>))"

definition close_upstream :: "nat option \<Rightarrow> gateway \<Rightarrow> gateway" where
  "close_upstream conn g = (case conn of None \<Rightarrow> g | Some c \<Rightarrow> g\<lparr>g_closed := c # g_closed g\<rparr>)"

text \<open>An operation of the session's queue, on the queue and the shared metrics.\<close>

definition on_queue :: "(qstate \<Rightarrow> 'a \<times> qstate) \<Rightarrow> session \<Rightarrow> gateway \<Rightarrow> 'a \<times> gateway" where
  "on_queue f s g =
     (let (r, (q, m)) = f (s_queue s, g_metrics g)
      in (r, g\<lparr>g_session := Some (s\<lparr>s_queue := q\<rparr>), g_metrics := m\<rparr>))"

definition touch :: "str \<Rightarrow> utc \<Rightarrow> gateway \<Rightarrow> gateway" where
  "touch sessionID now g =
     (case g_session g of
        Some s \<Rightarrow> if s_id s = sessionID then g\<lparr>g_session := Some (s\<lparr>s_lastActivity := now\<rparr>)\<rparr> else g
      | None \<Rightarrow> g)"

subsection \<open>Connect\<close>

definition connected_event :: "str \<Rightarrow> int \<Rightarrow> status \<Rightarrow> utc \<Rightarrow> terminal_event" where
  "connected_event host port st now =
     \<lparr>ev_Event = lit ''session.connected'', ev_SessionID = st_SessionID st, ev_Connected = True,
      ev_Text = lit ''connected to '' @ host @ lit '':'' @ itoa port,
      ev_QueueDepth = st_QueueDepth st, ev_QueueMax = st_QueueMax st, ev_QueueRejectCode = [],
      ev_Timestamp = rfc3339nano now\<rparr>"

definition connect_locked ::
    "str \<Rightarrow> int \<Rightarrow> nat \<Rightarrow> utc \<Rightarrow> gateway \<Rightarrow> (status \<times> nat option) option \<times> gateway" where
  "connect_locked host port conn now g =
     (let (s, g1) = ensureSessionLocked now g
      in if s_connected s then (None, g1)
         else
           let (started, q) = Start (s_queue s);
               s1 = s\<lparr>s_host := host, s_port := port, s_conn := Some conn, s_connected := True,
                      s_lastActivity := now, s_queue := q\<rparr>;
               g2 = g1\<lparr>g_session := Some s1\<rparr>
           in (Some (statusLocked g2, started), g2))"

text \<open>The dial is an input: the text of its error, or the new connection.\<close>

definition Connect ::
    "str + nat \<Rightarrow> str \<Rightarrow> int \<Rightarrow> utc \<Rightarrow> gateway \<Rightarrow> (status \<times> gw_err option) \<times> gateway" where
  "Connect dialled host port now g =
     (case dialled of
        Inl msg \<Rightarrow> ((zero_status, Some (ErrUpstreamUnavailable msg)), g)
      | Inr conn \<Rightarrow>
          (case connect_locked host port conn now g of
             (None, g1) \<Rightarrow>
               let g2 = close_upstream (Some conn) g1
               in ((statusLocked g2, Some ErrSessionAlreadyConnected), g2)
           | (Some (st, started), g1) \<Rightarrow>
               ((st, None), manager_broadcast (connected_event host port st now) g1)))"

subsection \<open>Status\<close>

definition Status :: "utc \<Rightarrow> gateway \<Rightarrow> status \<times> gateway" where
  "Status now g = (let (s, g1) = ensureSessionLocked now g in (statusLocked g1, g1))"

definition BuildStatusEvent :: "utc \<Rightarrow> gateway \<Rightarrow> terminal_event \<times> gateway" where
  "BuildStatusEvent now g =
     (let (st, g1) = Status now g
      in (\<lparr>ev_Event = lit ''session.status'', ev_SessionID = st_SessionID st,
           ev_Connected = st_Connected st, ev_Text = [], ev_QueueDepth = st_QueueDepth st,
           ev_QueueMax = st_QueueMax st, ev_QueueRejectCode = [],
           ev_Timestamp = rfc3339nano now\<rparr>, g1))"

subsection \<open>Enqueue\<close>

definition rejected_event :: "status \<Rightarrow> nat \<Rightarrow> int \<Rightarrow> utc \<Rightarrow> terminal_event" where
  "rejected_event st depth queueMax now =
     \<lparr>ev_Event = lit ''queue.rejected'', ev_SessionID = st_SessionID st, ev_Connected = False,
      ev_Text = lit ''command rejected: queue full'', ev_QueueDepth = int depth,
      ev_QueueMax = queueMax, ev_QueueRejectCode = lit ''QUEUE_FULL'', ev_Timestamp = rfc3339nano now\<rparr>"

definition accepted_event :: "status \<Rightarrow> str \<Rightarrow> nat \<Rightarrow> utc \<Rightarrow> terminal_event" where
  "accepted_event st command depth now =
     \<lparr>ev_Event = lit ''queue.accepted'', ev_SessionID = st_SessionID st, ev_Connected = False,
      ev_Text = command, ev_QueueDepth = int depth, ev_QueueMax = st_QueueMax st,
      ev_QueueRejectCode = [], ev_Timestamp = rfc3339nano now\<rparr>"

definition manager_enqueue :: "str \<Rightarrow> utc \<Rightarrow> gateway \<Rightarrow> (status \<times> gw_err option) \<times> gateway" where
  "manager_enqueue command now g =
     (let (s, g1) = ensureSessionLocked now g
      in if \<not> s_connected s then ((statusLocked g1, Some ErrSessionNotConnected), g1)
         else
           let ((depth, err), g2) = on_queue (Enqueue command) s g1
           in case err of
                Some e \<Rightarrow>
                  let st = statusLocked g2;
                      g3 = (if e = ErrQueueFull
                            then manager_broadcast (rejected_event st depth (MaxDepth (s_queue s)) now) g2
                            else g2)
                  in ((st, Some e), g3)
              | None \<Rightarrow>
                  let g3 = touch (s_id s) now g2;
                      st = (statusLocked g3)\<lparr>st_QueueDepth := int depth\<rparr>
                  in ((st, None), manager_broadcast (accepted_event st command depth now) g3))"

subsection \<open>Disconnect\<close>

definition disconnected_event :: "status \<Rightarrow> str \<Rightarrow> nat \<Rightarrow> utc \<Rightarrow> terminal_event" where
  "disconnected_event st reason dropped now =
     \<lparr>ev_Event = lit ''session.disconnected'', ev_SessionID = st_SessionID st, ev_Connected = False,
      ev_Text = reason @ lit '', dropped_unsent='' @ itoa (int dropped), ev_QueueDepth = 0,
      ev_QueueMax = st_QueueMax st, ev_QueueRejectCode = [], ev_Timestamp = rfc3339nano now\<rparr>"

definition disconnect_locked ::
    "str \<Rightarrow> bool \<Rightarrow> utc \<Rightarrow> gateway \<Rightarrow> (status \<times> gw_err option + nat option \<times> status) \<times> gateway" where
  "disconnect_locked expectedSessionID failIfNotConnected now g =
     (let (s, g1) = ensureSessionLocked now g
      in if \<not> s_connected s then
           (Inl (statusLocked g1, if failIfNotConnected then Some ErrSessionNotConnected else None), g1)
         else if expectedSessionID \<noteq> [] \<and> s_id s \<noteq> expectedSessionID then
           (Inl (statusLocked g1, None), g1)
         else
           let g2 = g1\<lparr>g_session := Some (s\<lparr>s_conn := None, s_connected := False,
                                            s_lastActivity := now\<rparr>)\<rparr>
           in (Inr (s_conn s, statusLocked g2), g2))"

text \<open>
  After the lock: the connection is closed and the queue stopped (the session object, and with it
  the queue, is never replaced), and the disconnection is broadcast.
\<close>

definition stop_queue :: "gateway \<Rightarrow> nat \<times> gateway" where
  "stop_queue g = (case g_session g of None \<Rightarrow> (0, g) | Some s \<Rightarrow> on_queue StopAndDrop s g)"

definition disconnect ::
    "str \<Rightarrow> str \<Rightarrow> bool \<Rightarrow> utc \<Rightarrow> gateway \<Rightarrow> (status \<times> nat \<times> gw_err option) \<times> gateway" where
  "disconnect expectedSessionID reason failIfNotConnected now g =
     (case disconnect_locked expectedSessionID failIfNotConnected now g of
        (Inl (st, err), g1) \<Rightarrow> ((st, 0, err), g1)
      | (Inr (conn, st), g1) \<Rightarrow>
          let (dropped, g2) = stop_queue (close_upstream conn g1);
              st1 = st\<lparr>st_QueueDepth := 0\<rparr>
          in ((st1, dropped, None),
              manager_broadcast (disconnected_event st1 reason dropped now) g2))"

definition Disconnect :: "utc \<Rightarrow> gateway \<Rightarrow> (status \<times> nat \<times> gw_err option) \<times> gateway" where
  "Disconnect now g = disconnect [] (lit ''manual disconnect'') True now g"

subsection \<open>Sending commands\<close>

text \<open>
  \<open>writeCommand\<close>: the code page encoder is the parameter \<open>enc\<close>, \<open>None\<close> when a rune has
  no code; the connection's answers to \<open>SetWriteDeadline\<close> and \<open>Write\<close> are inputs.
\<close>

definition command_bytes :: "(str \<Rightarrow> byte list option) \<Rightarrow> str \<Rightarrow> byte list" where
  "command_bytes enc command =
     (case enc (command @ [10]) of Some payload \<Rightarrow> payload | None \<Rightarrow> encode_utf8 (command @ [10]))"

record conn_answer =
  ca_deadline :: "str option"
  ca_write :: "str option"
  ca_elapsed :: int

definition writeCommand ::
    "(str \<Rightarrow> byte list option) \<Rightarrow> str \<Rightarrow> str \<Rightarrow> conn_answer \<Rightarrow> utc \<Rightarrow> gateway \<Rightarrow> gw_err option \<times> gateway" where
  "writeCommand enc sessionID command answer now g =
     (case g_session g of
        None \<Rightarrow> (Some ErrSessionNotConnected, g)
      | Some s \<Rightarrow>
          if s_id s \<noteq> sessionID \<or> \<not> s_connected s then (Some ErrSessionNotConnected, g)
          else case s_conn s of
            None \<Rightarrow> (Some ErrSessionNotConnected, g)
          | Some conn \<Rightarrow>
              (case ca_deadline answer of
                 Some msg \<Rightarrow> (Some (ErrIO msg), g)
               | None \<Rightarrow>
                   (case ca_write answer of
                      Some msg \<Rightarrow> (Some (ErrIO msg), g)
                    | None \<Rightarrow>
                        (None, touch sessionID now
                           (g\<lparr>g_written := g_written g @ [(conn, command_bytes enc command)]\<rparr>)))))"

definition send_failed_event :: "str \<Rightarrow> str \<Rightarrow> nat \<Rightarrow> int \<Rightarrow> utc \<Rightarrow> terminal_event" where
  "send_failed_event sessionID command queueDepth queueMax now =
     \<lparr>ev_Event = lit ''queue.send_failed'', ev_SessionID = sessionID, ev_Connected = False,
      ev_Text = command, ev_QueueDepth = int queueDepth, ev_QueueMax = queueMax,
      ev_QueueRejectCode = [], ev_Timestamp = rfc3339nano now\<rparr>"

text \<open>
  One tick of the sender loop as \<open>ensureSessionLocked\<close> wires it: pop, \<open>writeCommand\<close> as the
  sender, the counters, and the failure callback.
\<close>

definition report_send :: "send_report \<Rightarrow> str \<Rightarrow> utc \<Rightarrow> gateway \<Rightarrow> gateway" where
  "report_send report sessionID now g =
     (case report of
        Sent _ \<Rightarrow> g
      | SendFailed command _ depth queueMax \<Rightarrow>
          manager_broadcast (send_failed_event sessionID command depth queueMax now) g)"

definition finish_send :: "str \<Rightarrow> gw_err option \<Rightarrow> int \<Rightarrow> utc \<Rightarrow> gateway \<Rightarrow> gateway" where
  "finish_send command err elapsed now g =
     (case g_session g of
        None \<Rightarrow> g
      | Some s \<Rightarrow>
          let (report, g1) = on_queue (after_send command err elapsed) s g
          in report_send report (s_id s) now g1)"

definition sender_tick ::
    "(str \<Rightarrow> byte list option) \<Rightarrow> conn_answer \<Rightarrow> utc \<Rightarrow> gateway \<Rightarrow> gateway" where
  "sender_tick enc answer now g =
     (case g_session g of
        None \<Rightarrow> g
      | Some s \<Rightarrow>
          (case on_queue pop s g of
             (None, g1) \<Rightarrow> g1
           | (Some command, g1) \<Rightarrow>
               let (err, g2) = writeCommand enc (s_id s) command answer now g1
               in finish_send command err (ca_elapsed answer) now g2))"

subsection \<open>Reading from upstream\<close>

datatype upstream_err = NetErrClosed | NetTimeout | UpstreamEOF | UpstreamErr str

definition disconnect_reason :: "upstream_err \<Rightarrow> str" where
  "disconnect_reason err =
     (case err of
        UpstreamEOF \<Rightarrow> lit ''upstream disconnected''
      | UpstreamErr msg \<Rightarrow> lit ''upstream disconnected: '' @ msg
      | NetTimeout \<Rightarrow> lit ''upstream disconnected: i/o timeout''
      | NetErrClosed \<Rightarrow> lit ''upstream disconnected: use of closed network connection'')"

definition handleUpstreamDisconnect :: "str \<Rightarrow> upstream_err \<Rightarrow> utc \<Rightarrow> gateway \<Rightarrow> gateway" where
  "handleUpstreamDisconnect sessionID err now g =
     snd (disconnect sessionID (disconnect_reason err) False now g)"

definition output_event :: "str \<Rightarrow> str \<Rightarrow> utc \<Rightarrow> terminal_event" where
  "output_event sessionID txt now =
     \<lparr>ev_Event = lit ''terminal.output'', ev_SessionID = sessionID, ev_Connected = False,
      ev_Text = txt, ev_QueueDepth = 0, ev_QueueMax = 0, ev_QueueRejectCode = [],
      ev_Timestamp = rfc3339nano now\<rparr>"

definition onTerminalOutput :: "str \<Rightarrow> str \<Rightarrow> utc \<Rightarrow> gateway \<Rightarrow> gateway" where
  "onTerminalOutput sessionID txt now g =
     manager_broadcast (output_event sessionID txt now)
       (touch sessionID now (g\<lparr>g_terminal := g_terminal g @ [(sessionID, txt)]\<rparr>))"

text \<open>
  One round of the loop of \<open>readUpstream\<close>: the answer to \<open>SetReadDeadline\<close>, the bytes and the
  error \<open>Read\<close> returns together, and the time. The loop runs over such rounds; when the list ends
  the goroutine is still blocked in \<open>Read\<close>.
\<close>

record read_round =
  rr_deadline :: "str option"
  rr_data :: "byte list"
  rr_err :: "upstream_err option"
  rr_now :: utc

definition deliver ::
    "(byte list \<Rightarrow> str option) \<Rightarrow> str \<Rightarrow> byte list \<Rightarrow> utc \<Rightarrow> telnet_state \<times> gateway \<Rightarrow> telnet_state \<times> gateway" where
  "deliver dec sessionID data now st =
     (case st of (f, g) \<Rightarrow>
        if data = [] then (f, g)
        else
          let (f1, payload) = Filter f data
          in (f1, if payload = [] then g
                  else onTerminalOutput sessionID (Decode dec payload) now g))"

datatype reader_exit = StillReading telnet_state | ReaderDone

fun readUpstream ::
    "(byte list \<Rightarrow> str option) \<Rightarrow> str \<Rightarrow> read_round list \<Rightarrow> telnet_state \<Rightarrow> gateway
     \<Rightarrow> reader_exit \<times> gateway" where
  "readUpstream dec sessionID [] f g = (StillReading f, g)"
| "readUpstream dec sessionID (r # rs) f g =
     (case rr_deadline r of
        Some msg \<Rightarrow>
          (ReaderDone, handleUpstreamDisconnect sessionID
             (UpstreamErr (lit ''set read deadline failed: '' @ msg)) (rr_now r) g)
      | None \<Rightarrow>
          let (f1, g1) = deliver dec sessionID (rr_data r) (rr_now r) (f, g)
          in case rr_err r of
               None \<Rightarrow> readUpstream dec sessionID rs f1 g1
             | Some NetErrClosed \<Rightarrow> (ReaderDone, g1)
             | Some NetTimeout \<Rightarrow> readUpstream dec sessionID rs f1 g1
             | Some err \<Rightarrow> (ReaderDone, handleUpstreamDisconnect sessionID err (rr_now r) g1))"

end
