(* ===== verification/ManagerSpec.thy ===== *)
theory ManagerSpec
  imports Manager "HOL-Library.Sublist"
begin

text \<open>
  What the session manager promises, and that it keeps it. The specification is a link that is down
  or up; an up link has an upstream connection and the commands accepted for it. Every call on the
  manager, every tick of the sender loop and every end of the upstream connection is one operation,
  and the operations of a run follow one another: what holds when calls overlap is the matter of
  ManagerRace, RaceRuns and CommandRace. The first theorem is a functional refinement of the calls of
  Manager, the others are derived on the level of the specification or of the reader loop.
\<close>

subsection \<open>The invariant\<close>

definition session_ok :: "gateway \<Rightarrow> bool" where
  "session_ok g \<longleftrightarrow>
     (case g_session g of
        None \<Rightarrow> g_sessionSeq g = 0
      | Some s \<Rightarrow>
          g_sessionSeq g = 1 \<and> s_id s = lit ''s-1'' \<and> q_sessionID (s_queue s) = s_id s
        \<and> q_maxDepth (s_queue s) = g_queueMaxDepth g
        \<and> (q_running (s_queue s) \<longleftrightarrow> s_connected s)
        \<and> (q_chans (s_queue s) \<noteq> None \<longleftrightarrow> s_connected s)
        \<and> (s_conn s \<noteq> None \<longleftrightarrow> s_connected s)
        \<and> (\<not> s_connected s \<longrightarrow> q_commands (s_queue s) = []))"

definition gw_ok :: "gateway \<Rightarrow> bool" where
  "gw_ok g \<longleftrightarrow> session_ok g \<and> hub_ok (g_hub g, g_metrics g)"

lemma broadcast_frame [simp]:
  "g_session (manager_broadcast e g) = g_session g"
  "g_sessionSeq (manager_broadcast e g) = g_sessionSeq g"
  "g_queueMaxDepth (manager_broadcast e g) = g_queueMaxDepth g"
  "g_queueInterval (manager_broadcast e g) = g_queueInterval g"
  "g_closed (manager_broadcast e g) = g_closed g"
  "g_written (manager_broadcast e g) = g_written g"
  "g_terminal (manager_broadcast e g) = g_terminal g"
  by (simp_all add: manager_broadcast_def split: prod.split)

lemma statusLocked_broadcast [simp]: "statusLocked (manager_broadcast e g) = statusLocked g"
  by (simp add: statusLocked_def)

lemma session_ok_broadcast [simp]: "session_ok (manager_broadcast e g) = session_ok g"
  by (simp add: session_ok_def split: option.split)

lemma hub_ok_metrics:
  "hub_ok (h, m) \<Longrightarrow> m_wsConnections m1 = m_wsConnections m \<Longrightarrow> hub_ok (h, m1)"
  by (simp add: hub_ok_def)

lemma hub_ok_Broadcast [gw_inv]: "hub_ok s \<Longrightarrow> hub_ok (Broadcast e s)"
  using fold_offer [OF _ _ subset_refl refl, of s e]
  by (cases s) (auto simp: Broadcast_def hub_ok_def)

lemma hub_ok_manager_broadcast [gw_inv]:
  assumes "hub_ok (g_hub g, g_metrics g)"
  shows "hub_ok (g_hub (manager_broadcast e g), g_metrics (manager_broadcast e g))"
proof -
  have "hub_ok (Broadcast e (g_hub g, IncEventsBroadcast (g_metrics g)))"
    using assms by (intro hub_ok_Broadcast, elim hub_ok_metrics) (simp add: IncEventsBroadcast_def)
  then show ?thesis
    by (cases "Broadcast e (g_hub g, IncEventsBroadcast (g_metrics g))") (simp add: manager_broadcast_def)
qed

text \<open>The queue operations leave the connection gauge alone.\<close>

lemma gauge_frame [simp]:
  "m_wsConnections (ObserveQueueSendLatency e m) = m_wsConnections m"
  "m_wsConnections (stop_done sid n m) = m_wsConnections m"
  by (simp_all add: ObserveQueueSendLatency_def stop_done_def AddQueueDroppedForSession_def
      AddQueueDropped_def Let_def)

definition keeps_gauge :: "(qstate \<Rightarrow> 'a \<times> qstate) \<Rightarrow> bool" where
  "keeps_gauge f \<longleftrightarrow> (\<forall>q m. m_wsConnections (snd (snd (f (q, m)))) = m_wsConnections m)"

lemma keeps_gauge [simp, intro]:
  "keeps_gauge (Enqueue c)" "keeps_gauge StopAndDrop" "keeps_gauge pop"
  "keeps_gauge (after_send c err elapsed)"
  by (auto simp: keeps_gauge_def Enqueue_def StopAndDrop_def stop_locked_def pop_def after_send_def
      counter_defs Let_def split: list.splits option.splits)

lemma on_queue_frame:
  assumes "on_queue f s g = (r, g1)"
  shows "g_sessionSeq g1 = g_sessionSeq g" "g_queueMaxDepth g1 = g_queueMaxDepth g"
    "g_queueInterval g1 = g_queueInterval g"
    "g_closed g1 = g_closed g" "g_written g1 = g_written g" "g_terminal g1 = g_terminal g"
    "g_hub g1 = g_hub g" "r = fst (f (s_queue s, g_metrics g))"
    "g_session g1 = Some (s\<lparr>s_queue := fst (snd (f (s_queue s, g_metrics g)))\<rparr>)"
    "g_metrics g1 = snd (snd (f (s_queue s, g_metrics g)))"
  using assms by (auto simp: on_queue_def split: prod.splits)

lemma hub_ok_on_queue [gw_inv]:
  assumes "on_queue f s g = (r, g1)" "keeps_gauge f" "hub_ok (g_hub g, g_metrics g)"
  shows "hub_ok (g_hub g1, g_metrics g1)"
  using assms hub_ok_metrics [OF assms(3), of "g_metrics g1"]
  by (simp add: on_queue_frame [OF assms(1)] keeps_gauge_def)

text \<open>The critical sections one by one.\<close>

lemma ensure_props:
  assumes "ensureSessionLocked now g = (s, g1)" "session_ok g"
  shows "session_ok g1" "g_session g1 = Some s" "g_hub g1 = g_hub g" "g_metrics g1 = g_metrics g"
    "g_queueMaxDepth g1 = g_queueMaxDepth g" "g_closed g1 = g_closed g" "g_written g1 = g_written g"
    "g_terminal g1 = g_terminal g"
    "g_session g = None \<Longrightarrow> \<not> s_connected s" "g_session g = Some t \<Longrightarrow> s = t"
    "s_id s = lit ''s-1''"
  using assms
  by (auto simp: ensureSessionLocked_def session_ok_def NewCommandQueue_def Let_def itoa_def
      digits.simps [of "Suc 0"] split: option.splits if_splits)


subsection \<open>The specification\<close>

datatype link = Down | Up nat "str list"

record spec =
  sp_link :: link
  sp_max :: int
  sp_closed :: "nat list"
  sp_written :: "(nat \<times> byte list) list"

datatype gw_op =
    OpConnect "str + nat" str int
  | OpDisconnect
  | OpEnqueue str
  | OpStatus
  | OpTick conn_answer
  | OpUpstreamEnd upstream_err
  | OpOutput str

text \<open>
  A reply is what the caller sees: session id, connected, depth, limit, error, dropped commands
  (the time of the last activity aside).
\<close>

datatype reply = Reply str bool int int "gw_err option" nat | NoReply

definition status_reply :: "bool \<Rightarrow> nat \<Rightarrow> spec \<Rightarrow> gw_err option \<Rightarrow> nat \<Rightarrow> reply" where
  "status_reply connected depth a err dropped =
     Reply (lit ''s-1'') connected (int depth) (sp_max a) err dropped"

fun spec_exec :: "(str \<Rightarrow> byte list option) \<Rightarrow> gw_op \<Rightarrow> spec \<Rightarrow> reply \<times> spec" where
  "spec_exec enc (OpConnect (Inl msg) host port) a =
     (Reply [] False 0 0 (Some (ErrUpstreamUnavailable msg)) 0, a)"
| "spec_exec enc (OpConnect (Inr conn) host port) a =
     (case sp_link a of
        Up c p \<Rightarrow> (status_reply True (length p) a (Some ErrSessionAlreadyConnected) 0,
                   a\<lparr>sp_closed := conn # sp_closed a\<rparr>)
      | Down \<Rightarrow> (status_reply True 0 a None 0, a\<lparr>sp_link := Up conn []\<rparr>))"
| "spec_exec enc OpDisconnect a =
     (case sp_link a of
        Down \<Rightarrow> (status_reply False 0 a (Some ErrSessionNotConnected) 0, a)
      | Up c p \<Rightarrow> (status_reply False 0 a None (length p),
                   a\<lparr>sp_link := Down, sp_closed := c # sp_closed a\<rparr>))"
| "spec_exec enc (OpEnqueue command) a =
     (case sp_link a of
        Down \<Rightarrow> (status_reply False 0 a (Some ErrSessionNotConnected) 0, a)
      | Up c p \<Rightarrow>
          if sp_max a \<le> int (length p) then (status_reply True (length p) a (Some ErrQueueFull) 0, a)
          else (status_reply True (Suc (length p)) a None 0, a\<lparr>sp_link := Up c (p @ [command])\<rparr>))"
| "spec_exec enc OpStatus a =
     (case sp_link a of
        Down \<Rightarrow> (status_reply False 0 a None 0, a)
      | Up c p \<Rightarrow> (status_reply True (length p) a None 0, a))"
| "spec_exec enc (OpTick answer) a =
     (case sp_link a of
        Up c (command # p) \<Rightarrow>
          (NoReply, if ca_deadline answer = None \<and> ca_write answer = None
                    then a\<lparr>sp_link := Up c p, sp_written := sp_written a @ [(c, command_bytes enc command)]\<rparr>
                    else a\<lparr>sp_link := Up c p\<rparr>)
      | _ \<Rightarrow> (NoReply, a))"
| "spec_exec enc (OpUpstreamEnd err) a =
     (NoReply, case sp_link a of Down \<Rightarrow> a
               | Up c p \<Rightarrow> a\<lparr>sp_link := Down, sp_closed := c # sp_closed a\<rparr>)"
| "spec_exec enc (OpOutput txt) a = (NoReply, a)"

fun runs :: "('op \<Rightarrow> 's \<Rightarrow> 'r \<times> 's) \<Rightarrow> 'op list \<Rightarrow> 's \<Rightarrow> 'r list \<times> 's" where
  "runs f [] s = ([], s)"
| "runs f (x # xs) s = (let (r, s1) = f x s; (rs, s2) = runs f xs s1 in (r # rs, s2))"

text \<open>The same operations on the model of the code, each with the time it happens.\<close>

definition reply_of :: "status \<Rightarrow> gw_err option \<Rightarrow> nat \<Rightarrow> reply" where
  "reply_of st err dropped =
     Reply (st_SessionID st) (st_Connected st) (st_QueueDepth st) (st_QueueMax st) err dropped"

fun gw_exec :: "(str \<Rightarrow> byte list option) \<Rightarrow> gw_op \<times> utc \<Rightarrow> gateway \<Rightarrow> reply \<times> gateway" where
  "gw_exec enc (OpConnect dialled host port, now) g =
     (let ((st, err), g1) = Connect dialled host port now g in (reply_of st err 0, g1))"
| "gw_exec enc (OpDisconnect, now) g =
     (let ((st, dropped, err), g1) = Disconnect now g in (reply_of st err dropped, g1))"
| "gw_exec enc (OpEnqueue command, now) g =
     (let ((st, err), g1) = manager_enqueue command now g in (reply_of st err 0, g1))"
| "gw_exec enc (OpStatus, now) g = (let (st, g1) = Status now g in (reply_of st None 0, g1))"
| "gw_exec enc (OpTick answer, now) g = (NoReply, sender_tick enc answer now g)"
| "gw_exec enc (OpUpstreamEnd err, now) g =
     (NoReply, handleUpstreamDisconnect (lit ''s-1'') err now g)"
| "gw_exec enc (OpOutput txt, now) g = (NoReply, onTerminalOutput (lit ''s-1'') txt now g)"

definition link_of :: "gateway \<Rightarrow> link" where
  "link_of g =
     (case g_session g of
        None \<Rightarrow> Down
      | Some s \<Rightarrow> (case s_conn s of None \<Rightarrow> Down | Some c \<Rightarrow> Up c (q_commands (s_queue s))))"

definition abs_gw :: "gateway \<Rightarrow> spec" where
  "abs_gw g = \<lparr>sp_link = link_of g, sp_max = g_queueMaxDepth g, sp_closed = g_closed g,
              sp_written = g_written g\<rparr>"

lemma link_of_broadcast [simp]: "link_of (manager_broadcast e g) = link_of g"
  by (simp add: link_of_def)

lemma abs_broadcast [simp]: "abs_gw (manager_broadcast e g) = abs_gw g"
  by (simp add: abs_gw_def link_of_def split: option.split)

lemma gw_ok_broadcast: "gw_ok g \<Longrightarrow> gw_ok (manager_broadcast e g)"
  by (simp add: gw_ok_def hub_ok_manager_broadcast)

text \<open>One operation simulates the other.\<close>

definition simulates :: "(str \<Rightarrow> byte list option) \<Rightarrow> gw_op \<Rightarrow> bool" where
  "simulates enc op \<longleftrightarrow>
     (\<forall>now g. gw_ok g \<longrightarrow>
        gw_ok (snd (gw_exec enc (op, now) g))
      \<and> spec_exec enc op (abs_gw g)
          = (fst (gw_exec enc (op, now) g), abs_gw (snd (gw_exec enc (op, now) g))))"


lemma ensure_ok:
  assumes "ensureSessionLocked now g = (s, g1)" "gw_ok g"
  shows "gw_ok g1" "g_session g1 = Some s" "abs_gw g1 = abs_gw g"
proof -
  note E = ensure_props [OF assms(1)]
  from assms(2) have ok: "session_ok g" by (simp add: gw_ok_def)
  show "gw_ok g1" using E(1,3,4) [OF ok] assms(2) by (simp add: gw_ok_def)
  show S: "g_session g1 = Some s" by (rule E(2) [OF ok])
  show "abs_gw g1 = abs_gw g"
    using E(2,5-10) [OF ok] E(1) [OF ok] ok
    by (cases "g_session g") (auto simp: abs_gw_def link_of_def session_ok_def split: option.splits)
qed

lemma ok_session_cases:
  assumes "gw_ok g" "g_session g = Some s"
  obtains (up) c ch where "s_connected s" "s_conn s = Some c" "q_running (s_queue s)"
      "q_chans (s_queue s) = Some ch" "link_of g = Up c (q_commands (s_queue s))"
    | (down) "\<not> s_connected s" "s_conn s = None" "\<not> q_running (s_queue s)"
      "q_chans (s_queue s) = None" "q_commands (s_queue s) = []" "link_of g = Down"
  using assms by (cases "s_connected s") (auto simp: gw_ok_def session_ok_def link_of_def)

lemma ok_session_facts:
  assumes "gw_ok g" "g_session g = Some s"
  shows "s_id s = lit ''s-1''" "q_maxDepth (s_queue s) = g_queueMaxDepth g" "g_sessionSeq g = 1"
    "q_sessionID (s_queue s) = lit ''s-1''" "hub_ok (g_hub g, g_metrics g)"
  using assms by (auto simp: gw_ok_def session_ok_def)


lemma abs_sel [simp]:
  "sp_link (abs_gw g) = link_of g" "sp_max (abs_gw g) = g_queueMaxDepth g"
  "sp_closed (abs_gw g) = g_closed g" "sp_written (abs_gw g) = g_written g"
  by (simp_all add: abs_gw_def)

text \<open>The status of a session that exists, read off the link.\<close>

definition reply_at :: "gateway \<Rightarrow> gw_err option \<Rightarrow> nat \<Rightarrow> reply" where
  "reply_at g err dropped =
     (case link_of g of
        Down \<Rightarrow> status_reply False 0 (abs_gw g) err dropped
      | Up c p \<Rightarrow> status_reply True (length p) (abs_gw g) err dropped)"

lemma reply_statusLocked:
  assumes "gw_ok g" "g_session g = Some s"
  shows "reply_of (statusLocked g) err dropped = reply_at g err dropped"
  using assms(1,2) ok_session_facts [OF assms]
  by (cases rule: ok_session_cases)
    (simp_all add: assms(2) reply_at_def status_reply_def reply_of_def statusLocked_def Depth_def
      MaxDepth_def)


lemma reply_broadcast [simp]: "reply_at (manager_broadcast e g) = reply_at g"
  by (simp add: reply_at_def fun_eq_iff link_of_def split: option.split link.split)

text \<open>
  An operation that first makes sure the session exists is simulated when it is simulated from a
  state with a session, up or down.
\<close>

definition sim_at :: "(str \<Rightarrow> byte list option) \<Rightarrow> gw_op \<Rightarrow> utc \<Rightarrow> gateway \<Rightarrow> gateway \<Rightarrow> bool" where
  "sim_at enc op now g g1 \<longleftrightarrow>
     (\<exists>g2. gw_exec enc (op, now) g = (fst (spec_exec enc op (abs_gw g1)), g2) \<and> gw_ok g2
         \<and> abs_gw g2 = snd (spec_exec enc op (abs_gw g1)))"

lemma simI:
  assumes up: "\<And>now g s g1 c ch. \<lbrakk>ensureSessionLocked now g = (s, g1); gw_ok g1; g_session g1 = Some s;
      s_connected s; s_conn s = Some c; q_running (s_queue s); q_chans (s_queue s) = Some ch;
      link_of g1 = Up c (q_commands (s_queue s))\<rbrakk> \<Longrightarrow> sim_at enc op now g g1"
    and down: "\<And>now g s g1. \<lbrakk>ensureSessionLocked now g = (s, g1); gw_ok g1; g_session g1 = Some s;
      \<not> s_connected s; s_conn s = None; \<not> q_running (s_queue s); q_chans (s_queue s) = None;
      q_commands (s_queue s) = []; link_of g1 = Down\<rbrakk> \<Longrightarrow> sim_at enc op now g g1"
  shows "simulates enc op"
  unfolding simulates_def
proof (intro allI impI)
  fix now g
  assume ok: "gw_ok g"
  obtain s g1 where e: "ensureSessionLocked now g = (s, g1)" by (metis surj_pair)
  note E = ensure_ok [OF e ok]
  have "sim_at enc op now g g1"
    using E(1,2)
  proof (cases rule: ok_session_cases)
    case (up c ch)
    then show ?thesis by (rule assms(1) [OF e E(1,2)])
  next
    case down
    then show ?thesis by (rule assms(2) [OF e E(1,2)])
  qed
  then show "gw_ok (snd (gw_exec enc (op, now) g)) \<and> spec_exec enc op (abs_gw g)
      = (fst (gw_exec enc (op, now) g), abs_gw (snd (gw_exec enc (op, now) g)))"
    unfolding sim_at_def E(3) [symmetric] by auto
qed

lemma sim_OpStatus: "simulates enc OpStatus"
  by (rule simI)
    (simp_all add: sim_at_def Status_def reply_statusLocked, simp_all add: reply_at_def)

lemma ok_closed: "gw_ok g \<Longrightarrow> gw_ok (g\<lparr>g_closed := cs\<rparr>)"
  by (simp add: gw_ok_def session_ok_def split: option.splits)

lemma link_of_closed [simp]: "link_of (g\<lparr>g_closed := cs\<rparr>) = link_of g"
  by (simp add: link_of_def)

lemma sim_OpConnect: "simulates enc (OpConnect dialled host port)"
proof (cases dialled)
  case (Inl msg)
  then show ?thesis
    by (simp add: simulates_def Connect_def reply_of_def zero_status_def)
next
  case (Inr conn)
  show ?thesis unfolding Inr
  proof (rule simI)
    fix now g s g1 c ch
    assume e: "ensureSessionLocked now g = (s, g1)" and ok: "gw_ok g1" and s: "g_session g1 = Some s"
      and up: "s_connected s" "link_of g1 = Up c (q_commands (s_queue s))"
    let ?g2 = "g1\<lparr>g_closed := conn # g_closed g1\<rparr>"
    have ok2: "gw_ok ?g2" and s2: "g_session ?g2 = Some s" using ok s by (simp_all add: ok_closed)
    have "gw_exec enc (OpConnect (Inr conn) host port, now) g
        = (reply_at ?g2 (Some ErrSessionAlreadyConnected) 0, ?g2)"
      using up by (simp add: Connect_def connect_locked_def e close_upstream_def Let_def
          reply_statusLocked [OF ok2 s2])
    with ok2 up show "sim_at enc (OpConnect (Inr conn) host port) now g g1"
      by (simp add: sim_at_def reply_at_def status_reply_def abs_gw_def)
  next
    fix now g s g1
    assume e: "ensureSessionLocked now g = (s, g1)" and ok: "gw_ok g1" and s: "g_session g1 = Some s"
      and down: "\<not> s_connected s" "\<not> q_running (s_queue s)" "q_commands (s_queue s) = []"
        "link_of g1 = Down"
    let ?s1 = "s\<lparr>s_host := host, s_port := port, s_conn := Some conn, s_connected := True,
                  s_lastActivity := now, s_queue := snd (Start (s_queue s))\<rparr>"
    let ?g2 = "g1\<lparr>g_session := Some ?s1\<rparr>"
    have ok2: "gw_ok ?g2"
      using ok_session_facts [OF ok s] down by (simp add: gw_ok_def session_ok_def Start_def Let_def)
    have l2: "link_of ?g2 = Up conn []" using down by (simp add: link_of_def Start_def Let_def)
    have "\<exists>ev. gw_exec enc (OpConnect (Inr conn) host port, now) g
        = (reply_at ?g2 None 0, manager_broadcast ev ?g2)"
      using down reply_statusLocked [OF ok2, of ?s1 None 0]
      by (auto simp: Connect_def connect_locked_def e Let_def split: prod.splits)
    with gw_ok_broadcast [OF ok2] down show "sim_at enc (OpConnect (Inr conn) host port) now g g1"
      by (auto simp: sim_at_def reply_at_def l2 status_reply_def abs_gw_def)
  qed
qed


lemma ok_session_update:
  assumes "gw_ok g" "g_session g = Some s" "g_session g1 = Some t"
    "g_sessionSeq g1 = g_sessionSeq g" "g_queueMaxDepth g1 = g_queueMaxDepth g"
    "s_id t = s_id s" "q_sessionID (s_queue t) = q_sessionID (s_queue s)"
    "q_maxDepth (s_queue t) = q_maxDepth (s_queue s)"
    "s_connected t = q_running (s_queue t)" "s_connected t = (q_chans (s_queue t) \<noteq> None)"
    "s_connected t = (s_conn t \<noteq> None)" "\<not> s_connected t \<longrightarrow> q_commands (s_queue t) = []"
    "hub_ok (g_hub g1, g_metrics g1)"
  shows "gw_ok g1"
  using assms by (simp add: gw_ok_def session_ok_def)

text \<open>The end of a session, asked for by \<open>Disconnect\<close> or seen by the reader.\<close>

lemma disconnect_up:
  assumes "ensureSessionLocked now g = (s, g1)" "gw_ok g1" "g_session g1 = Some s" "s_connected s"
    "s_conn s = Some c" "q_running (s_queue s)" "q_chans (s_queue s) = Some ch"
    "expected \<in> {[], lit ''s-1''}"
  shows "\<exists>st g2. disconnect expected reason b now g = ((st, length (q_commands (s_queue s)), None), g2)
     \<and> gw_ok g2 \<and> reply_of st None d = status_reply False 0 (abs_gw g1) None d
     \<and> abs_gw g2 = (abs_gw g1)\<lparr>sp_link := Down, sp_closed := c # g_closed g1\<rparr>"
proof -
  note F = ok_session_facts [OF assms(2,3)]
  let ?s1 = "s\<lparr>s_conn := None, s_connected := False, s_lastActivity := now\<rparr>"
  let ?g2 = "g1\<lparr>g_session := Some ?s1, g_closed := c # g_closed g1\<rparr>"
  obtain n g3 where q: "on_queue StopAndDrop ?s1 ?g2 = (n, g3)" by (metis surj_pair)
  note Q = on_queue_frame [OF q]
  let ?t = "?s1\<lparr>s_queue := (s_queue s)\<lparr>q_commands := [], q_running := False, q_chans := None\<rparr>\<rparr>"
  have stop: "n = length (q_commands (s_queue s))" "g_session g3 = Some ?t"
    using Q(8,9) assms(6,7) by (simp_all add: StopAndDrop_def stop_locked_def Let_def)
  have "hub_ok (g_hub g3, g_metrics g3)"
    using hub_ok_on_queue [OF q] F(5) by simp
  with stop Q assms(2,3) have ok3: "gw_ok g3"
    by (intro ok_session_update [of g1 s g3 ?t]) simp_all
  have abs3: "abs_gw g3 = (abs_gw g1)\<lparr>sp_link := Down, sp_closed := c # g_closed g1\<rparr>"
    using stop(2) Q by (simp add: abs_gw_def link_of_def)
  let ?st = "(statusLocked (g1\<lparr>g_session := Some ?s1\<rparr>))\<lparr>st_QueueDepth := 0\<rparr>"
  have "disconnect expected reason b now g
      = ((?st, n, None), manager_broadcast (disconnected_event ?st reason n now) g3)"
    using assms(1,3-5,8) F(1) q
    by (auto simp: disconnect_def disconnect_locked_def close_upstream_def stop_queue_def Let_def)
  moreover have "reply_of ?st None d = status_reply False 0 (abs_gw g1) None d"
    using F by (simp add: reply_of_def statusLocked_def status_reply_def MaxDepth_def)
  ultimately show ?thesis using gw_ok_broadcast [OF ok3] stop(1) abs3 by auto
qed

lemma disconnect_down:
  assumes "ensureSessionLocked now g = (s, g1)" "\<not> s_connected s"
  shows "disconnect expected reason b now g
     = ((statusLocked g1, 0, if b then Some ErrSessionNotConnected else None), g1)"
  using assms by (simp add: disconnect_def disconnect_locked_def)

lemma sim_OpDisconnect: "simulates enc OpDisconnect"
proof (rule simI, goal_cases)
  case (1 now g s g1 c ch)
  let ?d = "length (q_commands (s_queue s))"
  obtain st g2 where "disconnect [] (lit ''manual disconnect'') True now g = ((st, ?d, None), g2)"
    "gw_ok g2" "reply_of st None ?d = status_reply False 0 (abs_gw g1) None ?d"
    "abs_gw g2 = (abs_gw g1)\<lparr>sp_link := Down, sp_closed := c # g_closed g1\<rparr>"
    using disconnect_up [OF 1(1-7), of "[]" _ _ ?d] by blast
  with 1(8) show ?case by (simp add: sim_at_def Disconnect_def)
next
  case (2 now g s g1)
  then show ?case
    by (simp add: sim_at_def Disconnect_def disconnect_down reply_statusLocked)
      (simp add: reply_at_def)
qed

lemma sim_OpUpstreamEnd: "simulates enc (OpUpstreamEnd err)"
proof (rule simI, goal_cases)
  case (1 now g s g1 c ch)
  obtain st g2 where "disconnect (lit ''s-1'') (disconnect_reason err) False now g
        = ((st, length (q_commands (s_queue s)), None), g2)"
    "gw_ok g2" "abs_gw g2 = (abs_gw g1)\<lparr>sp_link := Down, sp_closed := c # g_closed g1\<rparr>"
    using disconnect_up [OF 1(1-7), of "lit ''s-1''" "disconnect_reason err" False] by blast
  with 1(8) show ?case by (simp add: sim_at_def handleUpstreamDisconnect_def)
next
  case (2 now g s g1)
  then show ?case by (simp add: sim_at_def handleUpstreamDisconnect_def disconnect_down)
qed


lemma ok_touch: "gw_ok g \<Longrightarrow> gw_ok (touch sid now g)"
  by (auto simp: touch_def gw_ok_def session_ok_def split: option.split)

lemma abs_touch [simp]: "abs_gw (touch sid now g) = abs_gw g"
  by (auto simp: touch_def abs_gw_def link_of_def split: option.split)

lemma sim_OpEnqueue: "simulates enc (OpEnqueue command)"
proof (rule simI, goal_cases)
  case (1 now g s g1 c ch)
  note F = ok_session_facts [OF 1(2,3)]
  let ?p = "q_commands (s_queue s)"
  obtain r g2 where q: "on_queue (Enqueue command) s g1 = (r, g2)" by (metis surj_pair)
  note Q = on_queue_frame [OF q]
  have hub: "hub_ok (g_hub g2, g_metrics g2)" using hub_ok_on_queue [OF q] F(5) by simp
  show ?case
  proof (cases "g_queueMaxDepth g1 \<le> int (length ?p)")
    case True
    with Q(8,9) F have r: "r = (length ?p, Some ErrQueueFull)" and s2: "g_session g2 = Some s"
      by (simp_all add: Enqueue_def)
    have ok2: "gw_ok g2" by (rule ok_session_update [OF 1(2,3) s2]) (use 1 Q hub in simp_all)
    have abs2: "abs_gw g2 = abs_gw g1" using s2 1(3) Q by (simp add: abs_gw_def link_of_def)
    have link2: "link_of g2 = Up c ?p" using s2 1(5) by (simp add: link_of_def)
    have "reply_at g2 (Some ErrQueueFull) 0 = status_reply True (length ?p) (abs_gw g1) (Some ErrQueueFull) 0"
      by (simp add: reply_at_def link2 abs2)
    moreover have "\<exists>ev. gw_exec enc (OpEnqueue command, now) g
        = (reply_of (statusLocked g2) (Some ErrQueueFull) 0, manager_broadcast ev g2)"
      using 1(1,4) q r by (auto simp: manager_enqueue_def Let_def)
    ultimately show ?thesis
      using 1(8) True gw_ok_broadcast [OF ok2] abs2
      by (auto simp: sim_at_def reply_statusLocked [OF ok2 s2])
  next
    case False
    let ?t = "s\<lparr>s_queue := (s_queue s)\<lparr>q_commands := ?p @ [command]\<rparr>\<rparr>"
    from False Q(8,9) F have r: "r = (Suc (length ?p), None)" and s2: "g_session g2 = Some ?t"
      by (simp_all add: Enqueue_def)
    have ok2: "gw_ok g2" by (rule ok_session_update [OF 1(2,3) s2]) (use 1 Q hub in simp_all)
    have abs2: "abs_gw g2 = (abs_gw g1)\<lparr>sp_link := Up c (?p @ [command])\<rparr>"
      using s2 1(5) Q by (simp add: abs_gw_def link_of_def)
    let ?g3 = "touch (s_id s) now g2"
    let ?st = "(statusLocked ?g3)\<lparr>st_QueueDepth := int (Suc (length ?p))\<rparr>"
    have "reply_of ?st None 0 = status_reply True (Suc (length ?p)) (abs_gw g1) None 0"
      using F s2 1(4) by (simp add: reply_of_def statusLocked_def status_reply_def MaxDepth_def touch_def)
    moreover have "\<exists>ev. gw_exec enc (OpEnqueue command, now) g
        = (reply_of ?st None 0, manager_broadcast ev ?g3)"
      using 1(1,4) q r by (auto simp: manager_enqueue_def Let_def)
    ultimately show ?thesis
      using 1(8) False gw_ok_broadcast [OF ok_touch [OF ok2]] abs2 by (auto simp: sim_at_def)
  qed
next
  case (2 now g s g1)
  then show ?case
    by (simp add: sim_at_def manager_enqueue_def reply_statusLocked) (simp add: reply_at_def)
qed

lemma terminal_frame [simp]:
  "gw_ok (g\<lparr>g_terminal := ts\<rparr>) \<longleftrightarrow> gw_ok g" "abs_gw (g\<lparr>g_terminal := ts\<rparr>) = abs_gw g"
  by (simp_all add: gw_ok_def session_ok_def abs_gw_def link_of_def split: option.split)

lemma output_keeps:
  "gw_ok g \<Longrightarrow> gw_ok (onTerminalOutput sid txt now g)"
  "abs_gw (onTerminalOutput sid txt now g) = abs_gw g"
  by (simp_all add: onTerminalOutput_def gw_ok_broadcast ok_touch)

lemma sim_OpOutput: "simulates enc (OpOutput txt)"
  by (simp add: simulates_def output_keeps)

lemma finish_send_frame:
  assumes "gw_ok g" "g_session g = Some s"
  shows "gw_ok (finish_send command err elapsed now g)
    \<and> abs_gw (finish_send command err elapsed now g) = abs_gw g"
proof -
  obtain r g1 where q: "on_queue (after_send command err elapsed) s g = (r, g1)" by (metis surj_pair)
  note Q = on_queue_frame [OF q]
  have s1: "g_session g1 = Some s"
    using Q(9) by (simp add: after_send_def split: option.splits)
  have "hub_ok (g_hub g1, g_metrics g1)"
    using hub_ok_on_queue [OF q] ok_session_facts(5) [OF assms] by simp
  with Q s1 assms have "gw_ok g1" by (simp add: gw_ok_def session_ok_def)
  moreover from Q s1 assms(2) have "abs_gw g1 = abs_gw g" by (simp add: abs_gw_def link_of_def)
  ultimately show ?thesis
    using q assms(2) by (simp add: finish_send_def report_send_def gw_ok_broadcast split: send_report.split)
qed

lemma writeCommand_ok:
  assumes "gw_ok g" "g_session g = Some s" "s_connected s" "s_conn s = Some c"
    and "writeCommand enc (s_id s) command answer now g = (err, g1)"
  shows "gw_ok g1 \<and> (\<exists>t. g_session g1 = Some t)
    \<and> abs_gw g1 = (if ca_deadline answer = None \<and> ca_write answer = None
          then (abs_gw g)\<lparr>sp_written := g_written g @ [(c, command_bytes enc command)]\<rparr> else abs_gw g)"
proof -
  have w: "gw_ok (g\<lparr>g_written := ws\<rparr>) \<longleftrightarrow> gw_ok g"
    "abs_gw (g\<lparr>g_written := ws\<rparr>) = (abs_gw g)\<lparr>sp_written := ws\<rparr>" for ws
    by (simp_all add: gw_ok_def session_ok_def abs_gw_def link_of_def split: option.split)
  show ?thesis
  proof (cases "ca_deadline answer = None \<and> ca_write answer = None")
    case True
    with assms have "g1 = touch (s_id s) now (g\<lparr>g_written := g_written g @ [(c, command_bytes enc command)]\<rparr>)"
      by (auto simp: writeCommand_def)
    with True assms(1,2) show ?thesis by (simp add: ok_touch w) (simp add: touch_def)
  next
    case False
    with assms have "g1 = g" by (auto simp: writeCommand_def split: option.splits)
    with False assms(1,2) show ?thesis by simp
  qed
qed

lemma sim_OpTick: "simulates enc (OpTick answer)"
  unfolding simulates_def
proof (intro allI impI)
  fix now g
  assume ok: "gw_ok g"
  let ?P = "gw_ok (snd (gw_exec enc (OpTick answer, now) g)) \<and> spec_exec enc (OpTick answer) (abs_gw g)
      = (fst (gw_exec enc (OpTick answer, now) g), abs_gw (snd (gw_exec enc (OpTick answer, now) g)))"
  show ?P
  proof (cases "g_session g")
    case None
    with ok show ?thesis by (simp add: sender_tick_def link_of_def)
  next
    case (Some s)
    obtain r g1 where q: "on_queue pop s g = (r, g1)" by (metis surj_pair)
    note Q = on_queue_frame [OF q]
    have hub: "hub_ok (g_hub g1, g_metrics g1)"
      using hub_ok_on_queue [OF q] ok_session_facts(5) [OF ok Some] by simp
    show ?thesis
    proof (cases "q_commands (s_queue s)")
      case Nil
      with Q(8,9) have r: "r = None" "g_session g1 = Some s" by (simp_all add: pop_def)
      with Q Some ok hub have "gw_ok g1" "abs_gw g1 = abs_gw g"
        by (simp_all add: gw_ok_def session_ok_def abs_gw_def link_of_def)
      with Nil Some q r ok show ?thesis
        by (simp add: sender_tick_def link_of_def split: option.split)
    next
      case (Cons command p)
      from ok Some obtain c where up: "s_connected s" "s_conn s = Some c" "q_running (s_queue s)"
          "q_chans (s_queue s) \<noteq> None"
        by (cases rule: ok_session_cases) (use Cons in auto)
      let ?t = "s\<lparr>s_queue := (s_queue s)\<lparr>q_commands := p\<rparr>\<rparr>"
      from Cons Q(8,9) have r: "r = Some command" and s1: "g_session g1 = Some ?t"
        by (simp_all add: pop_def)
      have ok1: "gw_ok g1" by (rule ok_session_update [OF ok Some s1]) (use up Q hub in simp_all)
      have abs1: "abs_gw g1 = (abs_gw g)\<lparr>sp_link := Up c p\<rparr>"
        using s1 up(2) Q by (simp add: abs_gw_def link_of_def)
      obtain err g2 where w: "writeCommand enc (s_id s) command answer now g1 = (err, g2)"
        by (metis surj_pair)
      from writeCommand_ok [OF ok1 s1, of c enc command answer now err g2] w up
      obtain t2 where W: "gw_ok g2" "g_session g2 = Some t2"
        "abs_gw g2 = (if ca_deadline answer = None \<and> ca_write answer = None
          then (abs_gw g1)\<lparr>sp_written := g_written g1 @ [(c, command_bytes enc command)]\<rparr>
          else abs_gw g1)" by auto
      have "gw_exec enc (OpTick answer, now) g = (NoReply, finish_send command err (ca_elapsed answer) now g2)"
        using Some q r w by (simp add: sender_tick_def)
      moreover have "link_of g = Up c (command # p)" using Some up Cons by (simp add: link_of_def)
      ultimately show ?thesis
        using finish_send_frame [OF W(1,2)] W(3) abs1 Q(5) by auto
    qed
  qed
qed


lemma sim_all: "simulates enc op"
  by (cases op) (simp_all add: sim_OpConnect sim_OpDisconnect sim_OpEnqueue sim_OpStatus sim_OpTick
      sim_OpUpstreamEnd sim_OpOutput)

lemma simD:
  assumes "gw_ok g"
  shows "gw_ok (snd (gw_exec enc (op, now) g))"
    "spec_exec enc op (abs_gw g) = (fst (gw_exec enc (op, now) g), abs_gw (snd (gw_exec enc (op, now) g)))"
  using sim_all [of enc op] assms by (simp_all add: simulates_def)

lemma sim_runs:
  assumes "gw_ok g" and "runs (gw_exec enc) ops g = (rs, g1)"
  shows "gw_ok g1 \<and> runs (spec_exec enc) (map fst ops) (abs_gw g) = (rs, abs_gw g1)"
  using assms
proof (induction ops arbitrary: g rs)
  case (Cons op ops)
  obtain x now where op: "op = (x, now)" by (cases op)
  obtain r g2 where e: "gw_exec enc (x, now) g = (r, g2)" by (metis surj_pair)
  obtain rs2 g3 where t: "runs (gw_exec enc) ops g2 = (rs2, g3)" by (metis surj_pair)
  have "gw_ok g2" "spec_exec enc x (abs_gw g) = (r, abs_gw g2)"
    using sim_all [unfolded simulates_def, rule_format, OF Cons.prems(1), of enc x now]
    by (simp_all only: e fst_conv snd_conv)
  with Cons.IH [of g2 rs2] Cons.prems(2) op e t show ?case by auto
qed simp

definition initial_spec :: "int \<Rightarrow> spec" where
  "initial_spec queueMax = \<lparr>sp_link = Down, sp_max = queueMax, sp_closed = [], sp_written = []\<rparr>"

lemma gw_ok_New: "gw_ok (NewManager interval queueMax NewMetrics)"
  by (simp add: gw_ok_def session_ok_def NewManager_def hub_ok_New)

lemma abs_New: "abs_gw (NewManager interval queueMax NewMetrics) = initial_spec queueMax"
  by (simp add: abs_gw_def link_of_def NewManager_def initial_spec_def)

text \<open>
  C1. The session manager implements its specification. For every sequence of calls, sender ticks,
  upstream outputs and upstream ends, whatever the dialler and the connection answer, every reply of
  the manager (session id, connected, queue depth and limit, error, number of dropped commands) is
  the reply of the specification, whose state is the abstraction of the manager's; and at every end
  the session, its queue and the hub are consistent (connected, queue running and connection present
  are the same thing, and nothing is pending on a link that is down).
\<close>

theorem manager_refines:
  assumes "runs (gw_exec enc) ops (NewManager interval queueMax NewMetrics) = (replies, g)"
  shows "runs (spec_exec enc) (map fst ops) (initial_spec queueMax) = (replies, abs_gw g) \<and> gw_ok g"
  using sim_runs [OF gw_ok_New assms] by (simp add: abs_New)

abbreviation noon :: utc where
  "noon \<equiv> UTC 2026 3 5 12 0 0 0"

theorem manager_refines_witness:
  "fst (runs (gw_exec (\<lambda>_. None))
     (map (\<lambda>op. (op, noon))
       [OpEnqueue [108], OpConnect (Inr 7) (lit ''mud'') 4000, OpEnqueue [108], OpEnqueue [110],
        OpEnqueue [115], OpTick \<lparr>ca_deadline = None, ca_write = None, ca_elapsed = 1\<rparr>,
        OpDisconnect])
     (NewManager 500 2 NewMetrics))
   = [Reply (lit ''s-1'') False 0 2 (Some ErrSessionNotConnected) 0,
      Reply (lit ''s-1'') True 0 2 None 0, Reply (lit ''s-1'') True 1 2 None 0,
      Reply (lit ''s-1'') True 2 2 None 0, Reply (lit ''s-1'') True 2 2 (Some ErrQueueFull) 0,
      NoReply, Reply (lit ''s-1'') False 0 2 None 1]"
  (is "fst (runs _ ?ops ?g) = ?rs")
proof -
  obtain rs g where r: "runs (gw_exec (\<lambda>_. None)) ?ops ?g = (rs, g)" by (metis surj_pair)
  from manager_refines [OF r] have "rs = ?rs"
    by (simp add: initial_spec_def status_reply_def)
  with r show ?thesis by simp
qed


subsection \<open>From an accepted command to the wire\<close>

text \<open>
  The commands a client saw accepted, each with the connection that was up: read off the operations
  and their replies. \<open>c\<close> is the connection of the last successful connect.
\<close>

fun succeeded :: "reply \<Rightarrow> bool" where
  "succeeded (Reply sid connected depth queueMax err dropped) = (err = None)"
| "succeeded NoReply = False"

fun conn_after :: "nat \<Rightarrow> gw_op \<Rightarrow> reply \<Rightarrow> nat" where
  "conn_after c (OpConnect (Inr conn) host port) r = (if succeeded r then conn else c)"
| "conn_after c op r = c"

fun accepted_by :: "nat \<Rightarrow> gw_op \<Rightarrow> reply \<Rightarrow> (nat \<times> str) list" where
  "accepted_by c (OpEnqueue command) r = (if succeeded r then [(c, command)] else [])"
| "accepted_by c op r = []"

fun accepted :: "nat \<Rightarrow> gw_op list \<Rightarrow> reply list \<Rightarrow> (nat \<times> str) list" where
  "accepted c (op # ops) (r # rs) = accepted_by c op r @ accepted (conn_after c op r) ops rs"
| "accepted c ops rs = []"

text \<open>A session without disconnections and with a connection that takes every write.\<close>

fun reliable :: "gw_op \<Rightarrow> bool" where
  "reliable OpDisconnect = False"
| "reliable (OpUpstreamEnd err) = False"
| "reliable (OpTick answer) = (ca_deadline answer = None \<and> ca_write answer = None)"
| "reliable op = True"

definition on_wire :: "(str \<Rightarrow> byte list option) \<Rightarrow> nat \<times> str \<Rightarrow> nat \<times> byte list" where
  "on_wire enc ccmd = (fst ccmd, command_bytes enc (snd ccmd))"

definition pending :: "spec \<Rightarrow> (nat \<times> str) list" where
  "pending a = (case sp_link a of Down \<Rightarrow> [] | Up c p \<Rightarrow> map (Pair c) p)"

definition wire_inv :: "(str \<Rightarrow> byte list option) \<Rightarrow> bool \<Rightarrow> nat \<Rightarrow> spec \<Rightarrow> (nat \<times> str) list \<Rightarrow> bool" where
  "wire_inv enc exact c a acc \<longleftrightarrow>
     (\<forall>c1 p. sp_link a = Up c1 p \<longrightarrow> c1 = c)
   \<and> (\<exists>gone. acc = gone @ pending a \<and> subseq (sp_written a) (map (on_wire enc) gone)
           \<and> (exact \<longrightarrow> sp_written a = map (on_wire enc) gone))"

lemma subseq_longer: "subseq xs ys \<Longrightarrow> subseq xs (ys @ zs)"
  using list_emb_append_mono [of "(=)" xs ys "[]" zs] by simp

lemma wire_step:
  assumes "wire_inv enc exact c a acc" and "spec_exec enc op a = (r, a1)" and "exact \<longrightarrow> reliable op"
  shows "wire_inv enc exact (conn_after c op r) a1 (acc @ accepted_by c op r)"
proof -
  from assms(1) obtain gone where gone: "acc = gone @ pending a"
      "subseq (sp_written a) (map (on_wire enc) gone)"
      "exact \<longrightarrow> sp_written a = map (on_wire enc) gone"
    and cur: "\<And>c1 p. sp_link a = Up c1 p \<Longrightarrow> c1 = c"
    unfolding wire_inv_def by blast
  have same: "wire_inv enc exact c a1 acc" if "sp_link a1 = sp_link a" "sp_written a1 = sp_written a"
    using that assms(1) by (simp add: wire_inv_def pending_def)
  show ?thesis
  proof (cases op)
    case (OpTick answer)
    show ?thesis
    proof (cases "\<exists>command p. sp_link a = Up c (command # p)")
      case True
      then obtain command p where l: "sp_link a = Up c (command # p)" by blast
      let ?gone = "gone @ [(c, command)]"
      have "acc = ?gone @ pending a1" "sp_link a1 = Up c p"
        using gone(1) l assms(2) OpTick by (auto simp: pending_def split: if_splits)
      moreover have "subseq (sp_written a1) (map (on_wire enc) ?gone)
          \<and> (exact \<longrightarrow> sp_written a1 = map (on_wire enc) ?gone)"
        using gone l assms(2,3) OpTick
        by (auto simp: on_wire_def intro: subseq_longer split: if_splits)
      ultimately show ?thesis
        using OpTick unfolding wire_inv_def by (intro conjI exI [of _ ?gone]) auto
    next
      case False
      with assms(2) OpTick cur have "a1 = a" by (auto split: link.splits list.splits)
      with assms(1) OpTick show ?thesis by simp
    qed
  next
    case (OpEnqueue command)
    with assms(2) cur gone show ?thesis
      by (auto simp: wire_inv_def pending_def status_reply_def split: link.splits if_splits)
  next
    case (OpConnect dialled host port)
    with assms(2) cur gone show ?thesis
      by (cases dialled) (auto simp: wire_inv_def pending_def status_reply_def split: link.splits)
  qed (use assms cur gone same in
        \<open>auto simp: wire_inv_def pending_def split: link.splits intro: subseq_longer\<close>)
qed

lemma wire_runs:
  "wire_inv enc exact c a acc \<Longrightarrow> runs (spec_exec enc) ops a = (rs, a1) \<Longrightarrow>
     (\<forall>op \<in> set ops. exact \<longrightarrow> reliable op) \<Longrightarrow>
     \<exists>c1. wire_inv enc exact c1 a1 (acc @ accepted c ops rs)"
proof (induction ops arbitrary: c a acc rs)
  case (Cons op ops)
  obtain r a2 where e: "spec_exec enc op a = (r, a2)" by (metis surj_pair)
  obtain rs2 a3 where t: "runs (spec_exec enc) ops a2 = (rs2, a3)" by (metis surj_pair)
  have "wire_inv enc exact (conn_after c op r) a2 (acc @ accepted_by c op r)"
    by (rule wire_step [OF Cons.prems(1) e]) (use Cons.prems(3) in simp)
  from Cons.IH [OF this, of rs2] Cons.prems(2,3) e t show ?case by auto
qed auto

text \<open>
  For calls that do not overlap: the bytes written upstream are, connection by connection, a subsequence
  of the encodings of the commands accepted while that connection was up, and when no session ends and
  every write succeeds, they are exactly the accepted commands short of those still pending. CommandRace
  has the commands under every interleaving.
\<close>

lemma commands_reach_wire:
  assumes "runs (gw_exec enc) ops (NewManager interval queueMax NewMetrics) = (replies, g)"
  shows "subseq (g_written g) (map (on_wire enc) (accepted 0 (map fst ops) replies))
    \<and> ((\<forall>op \<in> set (map fst ops). reliable op) \<longrightarrow>
         map (on_wire enc) (accepted 0 (map fst ops) replies)
           = g_written g @ map (on_wire enc) (pending (abs_gw g)))"
proof -
  from sim_runs [OF gw_ok_New assms]
  have run: "runs (spec_exec enc) (map fst ops) (initial_spec queueMax) = (replies, abs_gw g)"
    by (simp add: abs_New)
  have start: "wire_inv enc exact 0 (initial_spec queueMax) []" for exact
    by (simp add: wire_inv_def initial_spec_def pending_def)
  show ?thesis
    using wire_runs [OF start [of False] run] wire_runs [OF start [of True] run]
    by (auto simp: wire_inv_def intro: subseq_longer)
qed


subsection \<open>From the upstream to the terminal\<close>

text \<open>A round that does not end the loop.\<close>

definition goes_on :: "read_round \<Rightarrow> bool" where
  "goes_on r \<longleftrightarrow> rr_deadline r = None \<and> (rr_err r = None \<or> rr_err r = Some NetTimeout)"

lemma deliver_filter:
  "deliver dec sid data now (f, g) =
     (let (f1, payload) = Filter f data
      in (f1, if payload = [] then g else onTerminalOutput sid (Decode dec payload) now g))"
  by (simp add: deliver_def Filter_def)

lemma terminal_output [simp]:
  "g_terminal (onTerminalOutput sid txt now g) = g_terminal g @ [(sid, txt)]"
  by (simp add: onTerminalOutput_def touch_def split: option.split)

lemma readUpstream_feed:
  assumes "\<forall>r \<in> set rounds. goes_on r" and "feed Filter f (map rr_data rounds) = (f1, out)" and "gw_ok g"
  shows "\<exists>parts g1. concat parts = out \<and> [] \<notin> set parts \<and> gw_ok g1 \<and> abs_gw g1 = abs_gw g
    \<and> g_terminal g1 = g_terminal g @ map (\<lambda>p. (sid, Decode dec p)) parts
    \<and> (\<forall>rest. readUpstream dec sid (rounds @ rest) f g = readUpstream dec sid rest f1 g1)"
  using assms
proof (induction rounds arbitrary: f g out)
  case Nil
  then show ?case by (intro exI [of _ "[]"] exI [of _ g]) simp
next
  case (Cons r rounds)
  obtain f2 payload where F: "Filter f (rr_data r) = (f2, payload)" by (metis surj_pair)
  obtain f3 out2 where R: "feed Filter f2 (map rr_data rounds) = (f3, out2)" by (metis surj_pair)
  have f3: "f3 = f1" and out: "out = payload @ out2" using Cons.prems(2) F R by auto
  let ?g = "if payload = [] then g else onTerminalOutput sid (Decode dec payload) (rr_now r) g"
  have ok: "gw_ok ?g" "abs_gw ?g = abs_gw g" using Cons.prems(3) by (auto simp: output_keeps)
  obtain parts g1 where I: "concat parts = out2" "[] \<notin> set parts" "gw_ok g1" "abs_gw g1 = abs_gw ?g"
    "g_terminal g1 = g_terminal ?g @ map (\<lambda>p. (sid, Decode dec p)) parts"
    "\<And>rest. readUpstream dec sid (rounds @ rest) f2 ?g = readUpstream dec sid rest f3 g1"
    using Cons.IH [OF _ R [unfolded f3] ok(1)] Cons.prems(1) f3 by auto
  have "goes_on r" using Cons.prems(1) by simp
  then have "readUpstream dec sid ((r # rounds) @ rest) f g = readUpstream dec sid rest f3 g1" for rest
    unfolding I(6) [symmetric] by (auto simp: goes_on_def deliver_filter F)
  with I ok(2) f3 out show ?case
    by (intro exI [of _ "if payload = [] then parts else payload # parts"] exI [of _ g1]) auto
qed

lemma reader_run:
  assumes "\<forall>i \<in> set items. well_formed i" and "\<forall>r \<in> set rounds. goes_on r"
    and "concat (map rr_data rounds) = concat (map wire items)" and "gw_ok g"
  shows "\<exists>parts g1. concat parts = concat (map data_of items) \<and> [] \<notin> set parts
    \<and> readUpstream dec (lit ''s-1'')
        (rounds @ [\<lparr>rr_deadline = None, rr_data = [], rr_err = Some UpstreamEOF, rr_now = now\<rparr>])
        telnetStateData g = (ReaderDone, g1)
    \<and> g_terminal g1 = g_terminal g @ map (\<lambda>p. (lit ''s-1'', Decode dec p)) parts
    \<and> gw_ok g1 \<and> link_of g1 = Down
    \<and> (\<forall>c p. link_of g = Up c p \<longrightarrow> g_closed g1 = c # g_closed g)"
proof -
  have "feed Filter telnetStateData (map rr_data rounds)
      = (telnetStateData, concat (map data_of items))"
    using assms(1,3) by (simp add: telnet.feed_run filter_items)
  from readUpstream_feed [OF assms(2) this assms(4), of "lit ''s-1''" dec]
  obtain parts g1 where parts: "concat parts = concat (map data_of items)" "[] \<notin> set parts" "gw_ok g1"
    "abs_gw g1 = abs_gw g" "g_terminal g1 = g_terminal g @ map (\<lambda>p. (lit ''s-1'', Decode dec p)) parts"
    and run: "\<And>rest. readUpstream dec (lit ''s-1'') (rounds @ rest) telnetStateData g
        = readUpstream dec (lit ''s-1'') rest telnetStateData g1" by blast
  let ?g2 = "handleUpstreamDisconnect (lit ''s-1'') UpstreamEOF now g1"
  have "gw_ok ?g2" and "spec_exec enc (OpUpstreamEnd UpstreamEOF) (abs_gw g1) = (NoReply, abs_gw ?g2)" for enc
    using sim_OpUpstreamEnd [of enc UpstreamEOF, unfolded simulates_def, rule_format, OF parts(3), of now]
    by simp_all
  moreover have "g_terminal ?g2 = g_terminal g1"
    by (auto simp: handleUpstreamDisconnect_def disconnect_def disconnect_locked_def stop_queue_def
        ensureSessionLocked_def close_upstream_def on_queue_def Let_def
        split: option.splits prod.splits if_splits)
  ultimately show ?thesis
    using parts run [of "[\<lparr>rr_deadline = None, rr_data = [], rr_err = Some UpstreamEOF, rr_now = now\<rparr>]"]
    by (intro exI [of _ parts] exI [of _ ?g2])
      (auto simp: deliver_filter Filter_def dest: arg_cong [where f = sp_link] arg_cong [where f = sp_closed]
        split: link.splits)
qed

text \<open>
  C6. Everything the upstream says reaches the terminal, once and in order, until it ends. Let the
  upstream send a well-formed Telnet stream in any reads, idle timeouts in between, and then close.
  The texts handed to the terminal callback are the decodings of consecutive non-empty pieces that
  make up exactly the data bytes of the stream; then the reader stops, the session is down, its
  connection closed and its queue empty.
\<close>

theorem reader_delivers:
  assumes "\<forall>i \<in> set items. well_formed i" and "\<forall>r \<in> set rounds. goes_on r"
    and "concat (map rr_data rounds) = concat (map wire items)" and "gw_ok g"
  shows "\<exists>parts g1. concat parts = concat (map data_of items) \<and> [] \<notin> set parts
    \<and> readUpstream dec (lit ''s-1'')
        (rounds @ [\<lparr>rr_deadline = None, rr_data = [], rr_err = Some UpstreamEOF, rr_now = now\<rparr>])
        telnetStateData g = (ReaderDone, g1)
    \<and> g_terminal g1 = g_terminal g @ map (\<lambda>p. (lit ''s-1'', Decode dec p)) parts
    \<and> gw_ok g1 \<and> link_of g1 = Down
    \<and> (\<forall>c p. link_of g = Up c p \<longrightarrow> g_closed g1 = c # g_closed g)"
  using assms by (rule reader_run)

theorem reader_delivers_witness:
  "\<exists>parts. concat parts = [104, 105] \<and> [] \<notin> set parts
    \<and> map snd (g_terminal (snd (readUpstream (\<lambda>_. None) (lit ''s-1'')
        [\<lparr>rr_deadline = None, rr_data = [104, 255], rr_err = None, rr_now = noon\<rparr>,
         \<lparr>rr_deadline = None, rr_data = [253, 24, 105], rr_err = Some NetTimeout, rr_now = noon\<rparr>,
         \<lparr>rr_deadline = None, rr_data = [], rr_err = Some UpstreamEOF, rr_now = noon\<rparr>]
        telnetStateData (NewManager 500 20 NewMetrics))))
      = map (Decode (\<lambda>_. None)) parts"
  using reader_delivers [of "[Data 104, Negotiate 253 24, Data 105]"
      "[\<lparr>rr_deadline = None, rr_data = [104, 255], rr_err = None, rr_now = noon\<rparr>,
        \<lparr>rr_deadline = None, rr_data = [253, 24, 105], rr_err = Some NetTimeout, rr_now = noon\<rparr>]",
      OF _ _ _ gw_ok_New [of 500 20], of "\<lambda>_. None" noon]
  by (auto simp: goes_on_def NewManager_def simp del: readUpstream.simps)

end
