(* ===== verification/ManagerRace.thy ===== *)
theory ManagerRace
  imports ManagerSpec "HOL-Library.Multiset"
begin

text \<open>
  The session manager under concurrency. Requests, readers and sender loops interleave between their
  critical sections of \<open>m.mu\<close> and \<open>q.mu\<close> and their operations on channels and connections. A task is a
  goroutine at a point where it holds no lock; a step is one section or one operation, and the sections
  are those of Manager and Queue.

  A request that connects has dialled (\<open>Dialled\<close>), then has taken the session (\<open>Joined\<close>) and starts the
  reader, or has been refused and closes its connection (\<open>Refused\<close>). Whoever takes the session down closes
  its connection (\<open>Closing\<close>), calls \<open>StopAndDrop\<close> (\<open>Dropping\<close>), closes the stop channel (\<open>Signalling\<close>), waits
  for the sender loop (\<open>Draining\<close>) and counts. A sender loop is at its \<open>select\<close> (\<open>Loop\<close>), or has a command
  in hand: popped, with the connection read from the session, written, about to be counted. A loop whose
  stop channel is closed may still take ticks before \<open>select\<close> picks that channel. On a connection closed
  by the gateway itself a blocked \<open>Read\<close> returns \<open>net.ErrClosed\<close> and the reader leaves silently, but a
  reader at the top of its loop fails in \<open>SetReadDeadline\<close> and goes on to \<open>disconnect\<close>. The channels of
  the browsers are left to HubRace.
\<close>

declare lit.simps [simp del]

subsection \<open>Tasks and steps\<close>

datatype task =
    Dialled nat
  | Refused nat
  | Joined nat
  | Reading nat
  | ReadEnded nat upstream_err
  | Closing "nat option"
  | Dropping
  | Signalling nat nat
  | Draining nat nat
  | Loop nat
  | Popped nat str
  | Writing nat str nat
  | Wrote nat str
  | Counting nat str "gw_err option"

text \<open>
  The stop channels that are closed are \<open>rs_signalled\<close>. Four fields are ghosts: the commands accepted, each
  with the connection that was current; the commands written, each with the connection it went to; the
  commands given up, because the send failed or a stop dropped them; and whether a connect has taken the
  session while a disconnect was still under way.
\<close>

record race_sys =
  rs_gw :: gateway
  rs_tasks :: "task list"
  rs_next :: nat
  rs_signalled :: "nat set"
  rs_accepted :: "(nat \<times> str) list"
  rs_sent :: "(nat \<times> str) list"
  rs_lost :: "str list"
  rs_overlapped :: bool

definition init_race :: "int \<Rightarrow> int \<Rightarrow> race_sys" where
  "init_race interval queueMax =
     \<lparr>rs_gw = NewManager interval queueMax NewMetrics, rs_tasks = [], rs_next = 0, rs_signalled = {},
      rs_accepted = [], rs_sent = [], rs_lost = [], rs_overlapped = False\<rparr>"

text \<open>The first section of \<open>writeCommand\<close>: the connection of the session.\<close>

definition write_target :: "str \<Rightarrow> gateway \<Rightarrow> gw_err + nat" where
  "write_target sessionID g =
     (case g_session g of
        None \<Rightarrow> Inl ErrSessionNotConnected
      | Some s \<Rightarrow>
          if s_id s \<noteq> sessionID \<or> \<not> s_connected s then Inl ErrSessionNotConnected
          else (case s_conn s of None \<Rightarrow> Inl ErrSessionNotConnected | Some conn \<Rightarrow> Inr conn))"

definition written :: "(str \<Rightarrow> byte list option) \<Rightarrow> nat \<Rightarrow> str \<Rightarrow> gateway \<Rightarrow> gateway" where
  "written enc conn command g = g\<lparr>g_written := g_written g @ [(conn, command_bytes enc command)]\<rparr>"

lemma writeCommand_sections:
  "writeCommand enc sid command answer now g =
     (case write_target sid g of
        Inl err \<Rightarrow> (Some err, g)
      | Inr conn \<Rightarrow>
          (case ca_deadline answer of
             Some msg \<Rightarrow> (Some (ErrIO msg), g)
           | None \<Rightarrow>
               (case ca_write answer of
                  Some msg \<Rightarrow> (Some (ErrIO msg), g)
                | None \<Rightarrow> (None, touch sid now (written enc conn command g)))))"
  by (simp add: writeCommand_def write_target_def written_def split: option.split)

text \<open>The end of \<open>StopAndDrop\<close>, when the sender loop is gone.\<close>

definition drop_counted :: "nat \<Rightarrow> gateway \<Rightarrow> gateway" where
  "drop_counted dropped g = g\<lparr>g_metrics := stop_done (lit ''s-1'') dropped (g_metrics g)\<rparr>"

definition current :: "gateway \<Rightarrow> nat list" where
  "current g = (case g_session g of None \<Rightarrow> [] | Some s \<Rightarrow> (case s_conn s of None \<Rightarrow> [] | Some c \<Rightarrow> [c]))"

definition waiting :: "gateway \<Rightarrow> str list" where
  "waiting g = (case g_session g of None \<Rightarrow> [] | Some s \<Rightarrow> q_commands (s_queue s))"

text \<open>The channels of the sender loops, and the disconnects under way.\<close>

fun loop_of :: "task \<Rightarrow> nat list" where
  "loop_of (Loop ch) = [ch]"
| "loop_of (Popped ch command) = [ch]"
| "loop_of (Writing ch command conn) = [ch]"
| "loop_of (Wrote ch command) = [ch]"
| "loop_of (Counting ch command err) = [ch]"
| "loop_of _ = []"

fun stop_of :: "task \<Rightarrow> nat option list" where
  "stop_of (Closing conn) = [None]"
| "stop_of Dropping = [None]"
| "stop_of (Signalling dropped ch) = [Some ch]"
| "stop_of (Draining dropped ch) = [Some ch]"
| "stop_of _ = []"

definition loops :: "task list \<Rightarrow> nat list" where
  "loops tasks = concat (map loop_of tasks)"

definition stops :: "task list \<Rightarrow> nat option list" where
  "stops tasks = concat (map stop_of tasks)"

inductive race_step :: "(str \<Rightarrow> byte list option) \<Rightarrow> race_sys \<Rightarrow> race_sys \<Rightarrow> bool"
  for enc :: "str \<Rightarrow> byte list option" where
  dial: "race_step enc st (st\<lparr>rs_tasks := Dialled (rs_next st) # rs_tasks st, rs_next := Suc (rs_next st)\<rparr>)"
| connect: "rs_tasks st = before @ Dialled n # after \<Longrightarrow>
     connect_locked host port n now (rs_gw st) = (Some (r, started), g) \<Longrightarrow>
     race_step enc st (st\<lparr>rs_gw := g,
       rs_tasks := before @ Joined n # (case started of None \<Rightarrow> [] | Some ch \<Rightarrow> [Loop ch]) @ after,
       rs_overlapped := rs_overlapped st \<or> stops (rs_tasks st) \<noteq> []\<rparr>)"
| refuse: "rs_tasks st = before @ Dialled n # after \<Longrightarrow>
     connect_locked host port n now (rs_gw st) = (None, g) \<Longrightarrow>
     race_step enc st (st\<lparr>rs_gw := g, rs_tasks := before @ Refused n # after\<rparr>)"
| close_refused: "rs_tasks st = before @ Refused n # after \<Longrightarrow>
     race_step enc st (st\<lparr>rs_gw := close_upstream (Some n) (rs_gw st), rs_tasks := before @ after\<rparr>)"
| start_reader: "rs_tasks st = before @ Joined n # after \<Longrightarrow>
     race_step enc st (st\<lparr>rs_tasks := before @ Reading n # after\<rparr>)"
| disconnect: "disconnect_locked [] True now (rs_gw st) = (Inr (conn, r), g) \<Longrightarrow>
     race_step enc st (st\<lparr>rs_gw := g, rs_tasks := Closing conn # rs_tasks st\<rparr>)"
| disconnect_refused: "disconnect_locked [] True now (rs_gw st) = (Inl r, g) \<Longrightarrow>
     race_step enc st (st\<lparr>rs_gw := g\<rparr>)"
| close_conn: "rs_tasks st = before @ Closing conn # after \<Longrightarrow>
     race_step enc st (st\<lparr>rs_gw := close_upstream conn (rs_gw st), rs_tasks := before @ Dropping # after\<rparr>)"
| drop: "rs_tasks st = before @ Dropping # after \<Longrightarrow> g_session (rs_gw st) = Some s \<Longrightarrow>
     on_queue stop_locked s (rs_gw st) = ((dropped, stopCh), g) \<Longrightarrow>
     race_step enc st (st\<lparr>rs_gw := g,
       rs_tasks := before @ (case stopCh of None \<Rightarrow> [] | Some ch \<Rightarrow> [Signalling dropped ch]) @ after,
       rs_lost := rs_lost st @ q_commands (s_queue s)\<rparr>)"
| signal: "rs_tasks st = before @ Signalling dropped ch # after \<Longrightarrow>
     race_step enc st (st\<lparr>rs_signalled := insert ch (rs_signalled st), rs_tasks := before @ Draining dropped ch # after\<rparr>)"
| drained: "rs_tasks st = before @ Draining dropped ch # after \<Longrightarrow> ch \<notin> set (loops (rs_tasks st)) \<Longrightarrow>
     race_step enc st (st\<lparr>rs_gw := drop_counted dropped (rs_gw st), rs_tasks := before @ after\<rparr>)"
| enqueue: "manager_enqueue command now (rs_gw st) = ((r, err), g) \<Longrightarrow>
     race_step enc st (st\<lparr>rs_gw := g,
       rs_accepted := rs_accepted st @ (if err = None then map (\<lambda>c. (c, command)) (current (rs_gw st)) else [])\<rparr>)"
| status: "race_step enc st (st\<lparr>rs_gw := snd (Status now (rs_gw st))\<rparr>)"
| shows_text: "Reading n \<in> set (rs_tasks st) \<Longrightarrow>
     race_step enc st (st\<lparr>rs_gw := onTerminalOutput (lit ''s-1'') txt now (rs_gw st)\<rparr>)"
| pop: "rs_tasks st = before @ Loop ch # after \<Longrightarrow> g_session (rs_gw st) = Some s \<Longrightarrow>
     on_queue pop s (rs_gw st) = (Some command, g) \<Longrightarrow>
     race_step enc st (st\<lparr>rs_gw := g, rs_tasks := before @ Popped ch command # after\<rparr>)"
| pop_empty: "rs_tasks st = before @ Loop ch # after \<Longrightarrow> g_session (rs_gw st) = Some s \<Longrightarrow>
     on_queue pop s (rs_gw st) = (None, g) \<Longrightarrow> race_step enc st (st\<lparr>rs_gw := g\<rparr>)"
| exit: "rs_tasks st = before @ Loop ch # after \<Longrightarrow> ch \<in> rs_signalled st \<Longrightarrow>
     race_step enc st (st\<lparr>rs_tasks := before @ after\<rparr>)"
| target: "rs_tasks st = before @ Popped ch command # after \<Longrightarrow> write_target (lit ''s-1'') (rs_gw st) = Inr n \<Longrightarrow>
     race_step enc st (st\<lparr>rs_tasks := before @ Writing ch command n # after\<rparr>)"
| no_target: "rs_tasks st = before @ Popped ch command # after \<Longrightarrow> write_target (lit ''s-1'') (rs_gw st) = Inl err \<Longrightarrow>
     race_step enc st (st\<lparr>rs_tasks := before @ Counting ch command (Some err) # after,
                         rs_lost := rs_lost st @ [command]\<rparr>)"
| write_ok: "rs_tasks st = before @ Writing ch command n # after \<Longrightarrow> n \<notin> set (g_closed (rs_gw st)) \<Longrightarrow>
     race_step enc st (st\<lparr>rs_gw := written enc n command (rs_gw st), rs_tasks := before @ Wrote ch command # after,
                         rs_sent := rs_sent st @ [(n, command)]\<rparr>)"
| write_fails: "rs_tasks st = before @ Writing ch command n # after \<Longrightarrow>
     race_step enc st (st\<lparr>rs_tasks := before @ Counting ch command (Some (ErrIO msg)) # after,
                         rs_lost := rs_lost st @ [command]\<rparr>)"
| touch: "rs_tasks st = before @ Wrote ch command # after \<Longrightarrow>
     race_step enc st (st\<lparr>rs_gw := touch (lit ''s-1'') now (rs_gw st), rs_tasks := before @ Counting ch command None # after\<rparr>)"
| count: "rs_tasks st = before @ Counting ch command err # after \<Longrightarrow>
     race_step enc st (st\<lparr>rs_gw := finish_send command err elapsed now (rs_gw st), rs_tasks := before @ Loop ch # after\<rparr>)"
| read_end: "rs_tasks st = before @ Reading n # after \<Longrightarrow> n \<notin> set (g_closed (rs_gw st)) \<Longrightarrow>
     race_step enc st (st\<lparr>rs_tasks := before @ ReadEnded n err # after\<rparr>)"
| read_closed: "rs_tasks st = before @ Reading n # after \<Longrightarrow> n \<in> set (g_closed (rs_gw st)) \<Longrightarrow>
     race_step enc st (st\<lparr>rs_tasks := before @ after\<rparr>)"
| deadline_closed: "rs_tasks st = before @ Reading n # after \<Longrightarrow> n \<in> set (g_closed (rs_gw st)) \<Longrightarrow>
     race_step enc st (st\<lparr>rs_tasks := before @ ReadEnded n (UpstreamErr msg) # after\<rparr>)"
| reader_stop: "rs_tasks st = before @ ReadEnded n err # after \<Longrightarrow>
     disconnect_locked (lit ''s-1'') False now (rs_gw st) = (Inr (conn, r), g) \<Longrightarrow>
     race_step enc st (st\<lparr>rs_gw := g, rs_tasks := before @ Closing conn # after\<rparr>)"
| reader_gone: "rs_tasks st = before @ ReadEnded n err # after \<Longrightarrow>
     disconnect_locked (lit ''s-1'') False now (rs_gw st) = (Inl r, g) \<Longrightarrow>
     race_step enc st (st\<lparr>rs_gw := g, rs_tasks := before @ after\<rparr>)"

inductive race_reach :: "(str \<Rightarrow> byte list option) \<Rightarrow> int \<Rightarrow> int \<Rightarrow> race_sys \<Rightarrow> bool"
  for enc :: "str \<Rightarrow> byte list option" and interval :: int and queueMax :: int where
  start: "race_reach enc interval queueMax (init_race interval queueMax)"
| next_step: "race_reach enc interval queueMax st \<Longrightarrow> race_step enc st st1 \<Longrightarrow> race_reach enc interval queueMax st1"

subsection \<open>The session, seen through its sections\<close>

text \<open>What the interleaving depends on; a session not made yet is one that is down.\<close>

record session_view =
  v_conn :: "nat option"
  v_commands :: "str list"
  v_chans :: "nat option"
  v_starts :: nat
  v_closed :: "nat list"
  v_written :: "(nat \<times> byte list) list"

definition view :: "gateway \<Rightarrow> session_view" where
  "view g =
     (case g_session g of
        None \<Rightarrow> \<lparr>v_conn = None, v_commands = [], v_chans = None, v_starts = 0,
                 v_closed = g_closed g, v_written = g_written g\<rparr>
      | Some s \<Rightarrow> \<lparr>v_conn = s_conn s, v_commands = q_commands (s_queue s), v_chans = q_chans (s_queue s),
                   v_starts = q_starts (s_queue s), v_closed = g_closed g, v_written = g_written g\<rparr>)"

definition steady :: "gateway \<Rightarrow> bool" where
  "steady g \<longleftrightarrow>
     (case g_session g of
        None \<Rightarrow> g_sessionSeq g = 0
      | Some s \<Rightarrow>
          s_id s = lit ''s-1'' \<and> q_maxDepth (s_queue s) = g_queueMaxDepth g
        \<and> (s_connected s \<longleftrightarrow> s_conn s \<noteq> None) \<and> (q_running (s_queue s) \<longleftrightarrow> q_chans (s_queue s) \<noteq> None)
        \<and> int (length (q_commands (s_queue s))) \<le> max 0 (g_queueMaxDepth g))"

named_theorems views "what the sections do to the view"

lemma view_parts [simp]:
  "v_closed (view g) = g_closed g" "v_written (view g) = g_written g"
  "v_commands (view g) = waiting g"
  "current g = (case v_conn (view g) of None \<Rightarrow> [] | Some c \<Rightarrow> [c])"
  by (simp_all add: view_def waiting_def current_def split: option.split)

lemma ensure_view:
  assumes "ensureSessionLocked now g = (s, g1)" "steady g"
  shows "g_session g1 = Some s" "steady g1" "view g1 = view g" "s_id s = lit ''s-1''"
  using assms
  by (auto simp: ensureSessionLocked_def steady_def view_def NewCommandQueue_def Let_def
      itoa_def digits.simps [of "Suc 0"] lit.simps split: option.splits if_splits)

text \<open>An operation on the queue of the session, when it exists.\<close>

lemma on_queue_view:
  assumes "on_queue f s g = (r, g1)" "g_session g = Some s" "steady g" "f (s_queue s, g_metrics g) = (r1, (q, m))"
    and "q_maxDepth q = q_maxDepth (s_queue s)" "q_running q \<longleftrightarrow> q_chans q \<noteq> None"
    and "int (length (q_commands q)) \<le> max 0 (q_maxDepth q)"
  shows "r = r1" "steady g1"
    "view g1 = (view g)\<lparr>v_commands := q_commands q, v_chans := q_chans q, v_starts := q_starts q\<rparr>"
  using assms by (auto simp: on_queue_def steady_def view_def)

lemma quiet_view:
  assumes "g_session g1 = g_session g" "g_sessionSeq g1 = g_sessionSeq g" "g_queueMaxDepth g1 = g_queueMaxDepth g"
    "g_closed g1 = g_closed g" "g_written g1 = g_written g"
  shows "view g1 = view g" "steady g1 = steady g"
  using assms by (simp_all add: view_def steady_def split: option.split)

lemma broadcast_view [simp]: "view (manager_broadcast e g) = view g" "steady (manager_broadcast e g) = steady g"
  by (rule quiet_view; simp)+

lemma touch_view [simp]: "view (touch sid now g) = view g" "steady (touch sid now g) = steady g"
  by (auto simp: touch_def view_def steady_def split: option.split)

lemma counted_view [simp]: "view (drop_counted n g) = view g" "steady (drop_counted n g) = steady g"
  by (rule quiet_view; simp add: drop_counted_def)+

lemma written_view [simp]:
  "view (written enc n command g) = (view g)\<lparr>v_written := g_written g @ [(n, command_bytes enc command)]\<rparr>"
  "steady (written enc n command g) = steady g"
  by (simp_all add: written_def view_def steady_def split: option.split)

lemma close_view [simp]:
  "view (close_upstream conn g) = (view g)\<lparr>v_closed := (case conn of None \<Rightarrow> [] | Some c \<Rightarrow> [c]) @ g_closed g\<rparr>"
  "steady (close_upstream conn g) = steady g"
  by (simp_all add: close_upstream_def view_def steady_def split: option.split)

lemma output_view [simp]:
  "view (onTerminalOutput sid txt now g) = view g" "steady (onTerminalOutput sid txt now g) = steady g"
proof -
  have "view (g\<lparr>g_terminal := ts\<rparr>) = view g" "steady (g\<lparr>g_terminal := ts\<rparr>) = steady g" for ts
    by (rule quiet_view; simp)+
  then show "view (onTerminalOutput sid txt now g) = view g" "steady (onTerminalOutput sid txt now g) = steady g"
    by (simp_all add: onTerminalOutput_def)
qed

lemma status_view:
  "steady g \<Longrightarrow> view (snd (Status now g)) = view g \<and> steady (snd (Status now g))"
proof -
  assume st: "steady g"
  obtain s g1 where e: "ensureSessionLocked now g = (s, g1)" by (metis surj_pair)
  show "view (snd (Status now g)) = view g \<and> steady (snd (Status now g))"
    using ensure_view(2,3) [OF e st] by (simp add: Status_def e)
qed

lemma target_view: "steady g \<Longrightarrow> write_target (lit ''s-1'') g =
    (case v_conn (view g) of None \<Rightarrow> Inl ErrSessionNotConnected | Some c \<Rightarrow> Inr c)"
proof (cases "g_session g")
  case (Some s)
  assume "steady g"
  with Some show ?thesis by (cases "s_conn s") (simp_all add: write_target_def steady_def view_def)
qed (simp add: write_target_def view_def)

lemma connect_view:
  assumes "connect_locked host port n now g = (r, g1)" "steady g"
  shows "steady g1" "case r of
      None \<Rightarrow> view g1 = view g
    | Some (st, started) \<Rightarrow> v_conn (view g) = None
        \<and> started = (if v_chans (view g) = None then Some (v_starts (view g)) else None)
        \<and> view g1 = (if v_chans (view g) = None
             then (view g)\<lparr>v_conn := Some n, v_chans := Some (v_starts (view g)), v_starts := Suc (v_starts (view g))\<rparr>
             else (view g)\<lparr>v_conn := Some n\<rparr>)"
proof -
  obtain s g2 where e: "ensureSessionLocked now g = (s, g2)" by (metis surj_pair)
  note E = ensure_view [OF e assms(2)]
  have v: "view g = \<lparr>v_conn = s_conn s, v_commands = q_commands (s_queue s), v_chans = q_chans (s_queue s),
      v_starts = q_starts (s_queue s), v_closed = g_closed g2, v_written = g_written g2\<rparr>"
    unfolding E(3) [symmetric] using E(1) by (simp add: view_def)
  have s: "s_connected s \<longleftrightarrow> s_conn s \<noteq> None" "q_running (s_queue s) \<longleftrightarrow> q_chans (s_queue s) \<noteq> None"
    using E(1,2) by (simp_all add: steady_def)
  show "steady g1" using assms(1) e E(1,2)
    by (auto simp: connect_locked_def Start_def Let_def steady_def split: if_splits prod.splits)
  show "case r of
      None \<Rightarrow> view g1 = view g
    | Some (st, started) \<Rightarrow> v_conn (view g) = None
        \<and> started = (if v_chans (view g) = None then Some (v_starts (view g)) else None)
        \<and> view g1 = (if v_chans (view g) = None
             then (view g)\<lparr>v_conn := Some n, v_chans := Some (v_starts (view g)), v_starts := Suc (v_starts (view g))\<rparr>
             else (view g)\<lparr>v_conn := Some n\<rparr>)"
  proof (cases "s_connected s")
    case True
    with assms(1) e E(3) show ?thesis by (auto simp: connect_locked_def)
  next
    case False
    with assms(1) e s show ?thesis
      unfolding v by (auto simp: connect_locked_def Start_def Let_def view_def split: if_splits)
  qed
qed

lemma disconnect_view:
  assumes "disconnect_locked expected b now g = (r, g1)" "steady g"
  shows "steady g1" "case r of
      Inl _ \<Rightarrow> view g1 = view g
    | Inr (conn, st) \<Rightarrow> conn = v_conn (view g) \<and> conn \<noteq> None \<and> view g1 = (view g)\<lparr>v_conn := None\<rparr>"
proof -
  obtain s g2 where e: "ensureSessionLocked now g = (s, g2)" by (metis surj_pair)
  note E = ensure_view [OF e assms(2)]
  have v: "view g = \<lparr>v_conn = s_conn s, v_commands = q_commands (s_queue s), v_chans = q_chans (s_queue s),
      v_starts = q_starts (s_queue s), v_closed = g_closed g2, v_written = g_written g2\<rparr>"
    unfolding E(3) [symmetric] using E(1) by (simp add: view_def)
  show "steady g1" using assms(1) e E(1,2)
    by (auto simp: disconnect_locked_def Let_def steady_def split: if_splits)
  show "case r of
      Inl _ \<Rightarrow> view g1 = view g
    | Inr (conn, st) \<Rightarrow> conn = v_conn (view g) \<and> conn \<noteq> None \<and> view g1 = (view g)\<lparr>v_conn := None\<rparr>"
    using assms(1) e E(1,2,3) unfolding v
    by (auto simp: disconnect_locked_def Let_def view_def steady_def split: if_splits)
qed

lemma drop_view:
  assumes "on_queue stop_locked s g = ((dropped, stopCh), g1)" "g_session g = Some s" "steady g"
  shows "steady g1" "stopCh = v_chans (view g)" "view g1 = (view g)\<lparr>v_commands := [], v_chans := None\<rparr>"
    "q_commands (s_queue s) = waiting g"
proof -
  let ?q = "if q_running (s_queue s) then (s_queue s)\<lparr>q_commands := [], q_running := False, q_chans := None\<rparr>
    else (s_queue s)\<lparr>q_commands := []\<rparr>"
  have s: "q_running (s_queue s) \<longleftrightarrow> q_chans (s_queue s) \<noteq> None" using assms(2,3) by (simp add: steady_def)
  have f: "stop_locked (s_queue s, g_metrics g)
      = ((length (q_commands (s_queue s)), q_chans (s_queue s)), (?q, SetQueueDepth 0 (g_metrics g)))"
    using s by (simp add: stop_locked_def Let_def)
  note V = on_queue_view [OF assms f]
  have v: "v_chans (view g) = q_chans (s_queue s)" "v_starts (view g) = q_starts (s_queue s)" "waiting g = q_commands (s_queue s)"
    using assms(2) by (simp_all add: view_def waiting_def)
  show "steady g1" "stopCh = v_chans (view g)" "view g1 = (view g)\<lparr>v_commands := [], v_chans := None\<rparr>"
    using V s v by (auto split: if_splits)
  show "q_commands (s_queue s) = waiting g" by (simp add: v)
qed

lemma pop_view:
  assumes "on_queue pop s g = (r, g1)" "g_session g = Some s" "steady g"
  shows "steady g1" "case r of
      None \<Rightarrow> waiting g = [] \<and> view g1 = view g
    | Some command \<Rightarrow> waiting g = command # waiting g1 \<and> view g1 = (view g)\<lparr>v_commands := waiting g1\<rparr>"
proof -
  obtain r1 q m where f: "pop (s_queue s, g_metrics g) = (r1, (q, m))" by (metis prod_cases3)
  have q: "q_maxDepth q = q_maxDepth (s_queue s)" "q_running q = q_running (s_queue s)" "q_chans q = q_chans (s_queue s)"
    "q_starts q = q_starts (s_queue s)" "case r1 of None \<Rightarrow> q_commands (s_queue s) = [] \<and> q_commands q = []
      | Some command \<Rightarrow> q_commands (s_queue s) = command # q_commands q"
    using f by (auto simp: pop_def split: list.splits)
  have len: "length (q_commands q) \<le> length (q_commands (s_queue s))"
    using q(5) by (auto split: option.splits)
  have st: "q_running (s_queue s) \<longleftrightarrow> q_chans (s_queue s) \<noteq> None" "int (length (q_commands (s_queue s))) \<le> max 0 (q_maxDepth (s_queue s))"
    using assms(2,3) by (simp_all add: steady_def)
  note V = on_queue_view [OF assms f q(1)]
  have v: "v_chans (view g) = q_chans (s_queue s)" "v_starts (view g) = q_starts (s_queue s)" "waiting g = q_commands (s_queue s)"
    using assms(2) by (simp_all add: view_def waiting_def)
  have g1: "r = r1" "steady g1" "view g1 = (view g)\<lparr>v_commands := q_commands q\<rparr>"
    using V q st len v by (simp_all add: max_def split: if_splits)
  have "waiting g1 = q_commands q" using arg_cong [OF g1(3), of v_commands] by simp
  with g1 q(5) v(3) show "steady g1" "case r of
      None \<Rightarrow> waiting g = [] \<and> view g1 = view g
    | Some command \<Rightarrow> waiting g = command # waiting g1 \<and> view g1 = (view g)\<lparr>v_commands := waiting g1\<rparr>"
    by (auto simp: view_def waiting_def split: option.splits)
qed

lemma finish_view:
  "steady g \<Longrightarrow> view (finish_send command err elapsed now g) = view g \<and> steady (finish_send command err elapsed now g)"
proof (cases "g_session g")
  case (Some s)
  assume st: "steady g"
  obtain r g1 where q: "on_queue (after_send command err elapsed) s g = (r, g1)" by (metis surj_pair)
  obtain r1 m where f: "after_send command err elapsed (s_queue s, g_metrics g) = (r1, (s_queue s, m))"
    by (cases err) (simp_all add: after_send_def)
  have s: "q_running (s_queue s) \<longleftrightarrow> q_chans (s_queue s) \<noteq> None" "int (length (q_commands (s_queue s))) \<le> max 0 (q_maxDepth (s_queue s))"
    using Some st by (simp_all add: steady_def)
  note V = on_queue_view [OF q Some st f refl s]
  have "view g1 = view g" using V(3) Some by (simp add: view_def)
  with V(2) q Some show ?thesis by (simp add: finish_send_def report_send_def split: send_report.split)
qed (simp add: finish_send_def)

lemma enqueue_view:
  assumes "manager_enqueue command now g = ((r, err), g1)" "steady g"
  shows "steady g1" "if err = None
    then v_conn (view g) \<noteq> None \<and> view g1 = (view g)\<lparr>v_commands := waiting g @ [command]\<rparr>
    else view g1 = view g"
proof -
  obtain s g2 where e: "ensureSessionLocked now g = (s, g2)" by (metis surj_pair)
  note E = ensure_view [OF e assms(2)]
  have s: "q_running (s_queue s) \<longleftrightarrow> q_chans (s_queue s) \<noteq> None" "s_connected s \<longleftrightarrow> s_conn s \<noteq> None"
    "int (length (q_commands (s_queue s))) \<le> max 0 (q_maxDepth (s_queue s))"
    using E(1,2) by (simp_all add: steady_def)
  have v: "v_conn (view g) = s_conn s" "v_chans (view g) = q_chans (s_queue s)" "v_starts (view g) = q_starts (s_queue s)"
    "waiting g = q_commands (s_queue s)"
    using E(1,3) by (auto simp: view_def waiting_def split: option.splits)
  obtain d err1 g3 where q: "on_queue (Enqueue command) s g2 = ((d, err1), g3)" by (metis surj_pair)
  let ?p = "q_commands (s_queue s)"
  have "steady g1 \<and> (if err = None
    then v_conn (view g) \<noteq> None \<and> view g1 = (view g)\<lparr>v_commands := waiting g @ [command]\<rparr> else view g1 = view g)"
  proof (cases "s_connected s")
    case False
    with assms(1) e E show ?thesis by (auto simp: manager_enqueue_def)
  next
    case True
    show ?thesis
    proof (cases "q_maxDepth (s_queue s) \<le> int (length ?p)")
      case full: True
      then have f: "Enqueue command (s_queue s, g_metrics g2)
          = ((length ?p, Some ErrQueueFull), (s_queue s, IncQueueRejected (g_metrics g2)))"
        by (simp add: Enqueue_def)
      note V = on_queue_view [OF q E(1,2) f refl s(1,3)]
      have "view g3 = view g" using V(3) E(1,3) v by (simp add: view_def)
      with V(1,2) True assms(1) e q show ?thesis by (auto simp: manager_enqueue_def Let_def)
    next
      case room: False
      let ?q = "(s_queue s)\<lparr>q_commands := ?p @ [command]\<rparr>"
      have f: "Enqueue command (s_queue s, g_metrics g2)
          = ((Suc (length ?p), None), (?q, SetQueueDepth (Suc (length ?p)) (g_metrics g2)))"
        using room by (simp add: Enqueue_def Let_def)
      note V = on_queue_view [OF q E(1,2) f]
      have "view g3 = (view g)\<lparr>v_commands := waiting g @ [command]\<rparr>" "steady g3" "err1 = None"
        using V s room E(3) v by simp_all
      with True assms(1) e q s(2) v(1) show ?thesis by (auto simp: manager_enqueue_def Let_def)
    qed
  qed
  then show "steady g1" "if err = None
    then v_conn (view g) \<noteq> None \<and> view g1 = (view g)\<lparr>v_commands := waiting g @ [command]\<rparr>
    else view g1 = view g" by simp_all
qed

subsection \<open>What survives every interleaving\<close>

text \<open>The connections a task has to close.\<close>

fun owned :: "task \<Rightarrow> nat list" where
  "owned (Dialled n) = [n]"
| "owned (Refused n) = [n]"
| "owned (Closing (Some n)) = [n]"
| "owned _ = []"

lemma owned_Closing: "owned (Closing conn) = (case conn of None \<Rightarrow> [] | Some n \<Rightarrow> [n])"
  by (cases conn) simp_all

lemma task_lists [simp]:
  "stops [] = []" "stops (t # ts) = stop_of t @ stops ts" "stops (ts @ us) = stops ts @ stops us"
  "loops [] = []" "loops (t # ts) = loop_of t @ loops ts" "loops (ts @ us) = loops ts @ loops us"
  by (simp_all add: stops_def loops_def)

definition race_inv :: "race_sys \<Rightarrow> bool" where
  "race_inv st \<longleftrightarrow>
     steady (rs_gw st)
   \<and> mset (g_closed (rs_gw st)) + mset (concat (map owned (rs_tasks st))) + mset (current (rs_gw st))
       = mset [0..<rs_next st]
   \<and> (v_conn (view (rs_gw st)) = None \<longrightarrow>
        waiting (rs_gw st) = [] \<and> v_chans (view (rs_gw st)) = None \<or> None \<in> set (stops (rs_tasks st)))"

lemma race_inv_parts:
  assumes "race_inv st"
  shows "steady (rs_gw st)"
    "mset (g_closed (rs_gw st)) + mset (concat (map owned (rs_tasks st)))
       + mset (case v_conn (view (rs_gw st)) of None \<Rightarrow> [] | Some c \<Rightarrow> [c]) = mset [0..<rs_next st]"
    "v_conn (view (rs_gw st)) = None \<Longrightarrow>
       waiting (rs_gw st) = [] \<and> v_chans (view (rs_gw st)) = None \<or> None \<in> set (stops (rs_tasks st))"
  using assms by (simp_all add: race_inv_def)

text \<open>A step keeps the invariant when its view, its tasks and its connections fit together.\<close>

lemma race_inv_via:
  assumes "race_inv st" "steady (rs_gw st1)"
    and "v_conn (view (rs_gw st1)) = conn" "g_closed (rs_gw st1) = closed" "waiting (rs_gw st1) = commands"
      "v_chans (view (rs_gw st1)) = chans"
    and "mset closed + mset (concat (map owned (rs_tasks st1))) + mset (case conn of None \<Rightarrow> [] | Some c \<Rightarrow> [c])
       = mset [0..<rs_next st1]"
    and "conn = None \<Longrightarrow> commands = [] \<and> chans = None \<or> None \<in> set (stops (rs_tasks st1))"
  shows "race_inv st1"
  using assms by (simp add: race_inv_def)

lemma view_fields:
  assumes "view g = v"
  shows "v_conn (view g) = v_conn v" "g_closed g = v_closed v" "waiting g = v_commands v"
    "v_chans (view g) = v_chans v" "v_starts (view g) = v_starts v" "g_written g = v_written v"
  using assms view_parts [of g] by auto

lemma race_inv_step:
  assumes "race_step enc st st1" "race_inv st"
  shows "race_inv st1"
  using assms
proof (induction rule: race_step.induct)
  case (dial st)
  then show ?case by (simp add: race_inv_def)
next
  case (connect st before n after host port now r started g)
  note I = race_inv_parts [OF connect(3)]
  note V = connect_view [OF connect(2) I(1), simplified]
  note F = view_fields [OF V(2) [THEN conjunct2, THEN conjunct2]]
  show ?case using V(1,2) F(2) I(2) connect(1)
    by (auto simp: race_inv_def split: if_splits)
next
  case (refuse st before n after host port now g)
  note I = race_inv_parts [OF refuse(3)]
  note V = connect_view [OF refuse(2) I(1), simplified]
  show ?case using V(1) view_fields [OF V(2)] I refuse(1) by (auto simp: race_inv_def)
next
  case (disconnect now st conn r g)
  note I = race_inv_parts [OF disconnect(2)]
  note V = disconnect_view [OF disconnect(1) I(1), simplified]
  show ?case using V view_fields [of g, OF V(2) [THEN conjunct2, THEN conjunct2]] I(2)
    by (auto simp: race_inv_def)
next
  case (disconnect_refused now st r g)
  note I = race_inv_parts [OF disconnect_refused(2)]
  note V = disconnect_view [OF disconnect_refused(1) I(1), simplified]
  show ?case using V(1) view_fields [OF V(2)] I by (auto simp: race_inv_def)
next
  case (close_conn st before conn after)
  note I = race_inv_parts [OF close_conn(2)]
  show ?case using I close_conn(1) view_fields [OF close_view(1) [of conn "rs_gw st"]]
    by (cases conn) (auto simp: race_inv_def)
next
  case (close_refused st before n after)
  note I = race_inv_parts [OF close_refused(2)]
  show ?case using I close_refused(1) view_fields [OF close_view(1) [of "Some n" "rs_gw st"]]
    by (auto simp: race_inv_def)
next
  case (drop st before after s dropped stopCh g)
  note I = race_inv_parts [OF drop(4)]
  note V = drop_view [OF drop(3,2) I(1)]
  show ?case using V(1) view_fields [OF V(3)] I(2) drop(1)
    by (auto simp: race_inv_def split: option.split)
next
  case (drained st before dropped ch after)
  note I = race_inv_parts [OF drained(3)]
  show ?case using I drained(1) view_fields [OF counted_view(1) [of dropped "rs_gw st"]] by (auto simp: race_inv_def)
next
  case (enqueue command now st r err g)
  note I = race_inv_parts [OF enqueue(2)]
  note V = enqueue_view [OF enqueue(1) I(1)]
  show ?case
  proof (cases "err = None")
    case True
    note V2 = V(2) [unfolded True, simplified]
    show ?thesis using V(1) V2 view_fields [OF V2 [THEN conjunct2]] I by (auto simp: race_inv_def)
  next
    case False
    with V(2) have "view g = view (rs_gw st)" by simp
    from view_fields [OF this] V(1) I False show ?thesis by (auto simp: race_inv_def)
  qed
next
  case (status st now)
  note I = race_inv_parts [OF status]
  note V = status_view [OF I(1), of now]
  show ?case using V view_fields [OF V [THEN conjunct1]] I by (auto simp: race_inv_def)
next
  case (shows_text n st shown now)
  note I = race_inv_parts [OF shows_text(2)]
  show ?case using I view_fields [OF output_view(1) [of _ shown now "rs_gw st"]] by (auto simp: race_inv_def)
next
  case (pop st before ch after s command g)
  note I = race_inv_parts [OF pop(4)]
  note V = pop_view [OF pop(3,2) I(1), simplified]
  show ?case using V view_fields [OF V(2) [THEN conjunct2]] I pop(1) by (auto simp: race_inv_def)
next
  case (pop_empty st before ch after s g)
  note I = race_inv_parts [OF pop_empty(4)]
  note V = pop_view [OF pop_empty(3,2) I(1), simplified]
  show ?case using V view_fields [OF V(2) [THEN conjunct2]] I by (auto simp: race_inv_def)
next
  case (write_ok st before ch command n after)
  note I = race_inv_parts [OF write_ok(3)]
  show ?case using I write_ok(1) view_fields [OF written_view(1) [of enc n command "rs_gw st"]]
    by (auto simp: race_inv_def)
next
  case (touch st before ch command after now)
  note I = race_inv_parts [OF touch(2)]
  show ?case using I touch(1) view_fields [OF touch_view(1) [of _ now "rs_gw st"]]
    by (auto simp: race_inv_def)
next
  case (count st before ch command err after elapsed now)
  note I = race_inv_parts [OF count(2)]
  note V = finish_view [OF I(1), of command err elapsed now]
  show ?case using V I count(1) view_fields [OF V [THEN conjunct1]] by (auto simp: race_inv_def)
next
  case (reader_stop st before n err after now conn r g)
  note I = race_inv_parts [OF reader_stop(3)]
  note V = disconnect_view [OF reader_stop(2) I(1), simplified]
  show ?case using V view_fields [of g, OF V(2) [THEN conjunct2, THEN conjunct2]] I(2) reader_stop(1)
    by (auto simp: race_inv_def)
next
  case (reader_gone st before n err after now r g)
  note I = race_inv_parts [OF reader_gone(3)]
  note V = disconnect_view [OF reader_gone(2) I(1), simplified]
  show ?case using V(1) view_fields [OF V(2)] I reader_gone(1) by (auto simp: race_inv_def)
qed (auto simp: race_inv_def)

lemma race_reach_inv: "race_reach enc interval queueMax st \<Longrightarrow> race_inv st"
proof (induction rule: race_reach.induct)
  case start
  show ?case by (simp add: race_inv_def init_race_def NewManager_def steady_def view_def waiting_def)
qed (blast intro: race_inv_step)

end
