(* ===== verification/RaceRuns.thy ===== *)
theory RaceRuns
  imports ManagerRace
begin

text \<open>
  Concrete runs of ManagerRace, with limit 20: the gateway of a run is made from its view and the
  metrics, a state of a run from these, the tasks and the ghosts (no command is given up in these
  runs), and each lemma \<open>go_...\<close> takes one step.
\<close>

definition run_gw :: "session_view \<Rightarrow> metrics \<Rightarrow> gateway" where
  "run_gw v m =
     (NewManager 500 20 m)\<lparr>g_sessionSeq := 1, g_closed := v_closed v, g_written := v_written v,
        g_session := Some \<lparr>s_id = lit ''s-1'', s_host = [], s_port = 4000, s_connected = (v_conn v \<noteq> None),
          s_lastActivity = noon, s_conn = v_conn v,
          s_queue = \<lparr>q_commands = v_commands v, q_sessionID = lit ''s-1'', q_maxDepth = 20, q_interval = 500,
            q_running = (v_chans v \<noteq> None), q_chans = v_chans v, q_starts = v_starts v\<rparr>\<rparr>\<rparr>"

definition run_st ::
    "session_view \<Rightarrow> metrics \<Rightarrow> task list \<Rightarrow> nat \<Rightarrow> nat set \<Rightarrow> (nat \<times> str) list \<Rightarrow> (nat \<times> str) list \<Rightarrow> bool \<Rightarrow> race_sys" where
  "run_st v m tasks n signalled acc sent overlapped =
     \<lparr>rs_gw = run_gw v m, rs_tasks = tasks, rs_next = n, rs_signalled = signalled, rs_accepted = acc,
      rs_sent = sent, rs_lost = [], rs_overlapped = overlapped\<rparr>"

definition reaches where
  "reaches enc v tasks n signalled acc sent overlapped \<longleftrightarrow>
     (\<exists>m. race_reach enc 500 20 (run_st v m tasks n signalled acc sent overlapped))"

lemma run_st_sel [simp]:
  "rs_gw (run_st v m ts n S acc sent ov) = run_gw v m" "rs_tasks (run_st v m ts n S acc sent ov) = ts"
  "rs_next (run_st v m ts n S acc sent ov) = n" "rs_signalled (run_st v m ts n S acc sent ov) = S"
  "rs_accepted (run_st v m ts n S acc sent ov) = acc" "rs_sent (run_st v m ts n S acc sent ov) = sent"
  "rs_lost (run_st v m ts n S acc sent ov) = []" "rs_overlapped (run_st v m ts n S acc sent ov) = ov"
  by (simp_all add: run_st_def)

lemma run_view [simp]:
  "view (run_gw v m) = v" "waiting (run_gw v m) = v_commands v" "g_closed (run_gw v m) = v_closed v"
  "g_written (run_gw v m) = v_written v"
  by (simp_all add: view_def waiting_def run_gw_def NewManager_def)

lemma run_steady: "length (v_commands v) \<le> 20 \<Longrightarrow> steady (run_gw v m)"
  by (simp add: steady_def run_gw_def NewManager_def)

lemma go:
  assumes "reaches enc v ts n S acc sent ov"
    and "\<And>m. \<exists>st1 m1. race_step enc (run_st v m ts n S acc sent ov) st1
           \<and> st1 = run_st v1 m1 ts1 n1 S1 acc1 sent1 ov1"
  shows "reaches enc v1 ts1 n1 S1 acc1 sent1 ov1"
  using assms unfolding reaches_def by (blast intro: race_reach.next_step)

lemma itoa_1: "itoa 1 = [49]"
  by (simp add: itoa_def digits.simps)

lemma run_connect:
  "v_conn v = None \<Longrightarrow> \<exists>r. connect_locked [] 4000 c noon (run_gw v m)
     = (Some (r, case v_chans v of None \<Rightarrow> Some (v_starts v) | Some _ \<Rightarrow> None),
        run_gw (v\<lparr>v_conn := Some c, v_chans := Some (case v_chans v of None \<Rightarrow> v_starts v | Some ch \<Rightarrow> ch),
                  v_starts := (case v_chans v of None \<Rightarrow> Suc (v_starts v) | Some _ \<Rightarrow> v_starts v)\<rparr>) m)"
  by (simp add: connect_locked_def ensureSessionLocked_def NewManager_def Start_def run_gw_def Let_def
      split: option.split)

lemma run_disconnect:
  "v_conn v = Some c \<Longrightarrow> expected \<in> {[], lit ''s-1''} \<Longrightarrow>
     \<exists>r. disconnect_locked expected b noon (run_gw v m) = (Inr (Some c, r), run_gw (v\<lparr>v_conn := None\<rparr>) m)"
  by (auto simp: disconnect_locked_def ensureSessionLocked_def NewManager_def run_gw_def Let_def)

lemma run_drop:
  "\<exists>s. g_session (run_gw v m) = Some s \<and> q_commands (s_queue s) = v_commands v \<and>
     on_queue stop_locked s (run_gw v m)
       = ((length (v_commands v), v_chans v), run_gw (v\<lparr>v_commands := [], v_chans := None\<rparr>) (SetQueueDepth 0 m))"
  by (cases "v_chans v") (simp_all add: run_gw_def NewManager_def on_queue_def stop_locked_def Let_def)

lemma run_enqueue:
  "v_conn v \<noteq> None \<Longrightarrow> length (v_commands v) < 20 \<Longrightarrow>
     \<exists>r m1. manager_enqueue command noon (run_gw v m)
       = ((r, None), run_gw (v\<lparr>v_commands := v_commands v @ [command]\<rparr>) m1)"
  by (auto simp: manager_enqueue_def ensureSessionLocked_def NewManager_def run_gw_def on_queue_def
      Enqueue_def touch_def manager_broadcast_def Broadcast_def NewHub_def Let_def split: prod.split)

lemma run_pop:
  "v_commands v = command # rest \<Longrightarrow>
     \<exists>s m1. g_session (run_gw v m) = Some s \<and> on_queue pop s (run_gw v m) = (Some command, run_gw (v\<lparr>v_commands := rest\<rparr>) m1)"
  by (simp add: run_gw_def NewManager_def on_queue_def pop_def Let_def)

lemma run_close: "close_upstream (Some c) (run_gw v m) = run_gw (v\<lparr>v_closed := c # v_closed v\<rparr>) m"
  by (simp add: close_upstream_def run_gw_def NewManager_def)

lemma run_counted: "drop_counted dropped (run_gw v m) = run_gw v (stop_done (lit ''s-1'') dropped m)"
  by (simp add: drop_counted_def run_gw_def NewManager_def)

lemma run_written:
  "written enc c command (run_gw v m) = run_gw (v\<lparr>v_written := v_written v @ [(c, command_bytes enc command)]\<rparr>) m"
  by (simp add: written_def run_gw_def NewManager_def)

lemma go_dial: "reaches enc v ts n S acc sent ov \<Longrightarrow> reaches enc v (Dialled n # ts) (Suc n) S acc sent ov"
  by (rule go, assumption, rule exI, rule exI, rule conjI, rule race_step.dial) (simp add: run_st_def)

text \<open>A connect starts the sender loop, or finds the old one still running.\<close>

lemma go_connect:
  assumes "reaches enc v (before @ Dialled c # after) n S acc sent ov" "v_conn v = None" "v_chans v = None"
  shows "reaches enc (v\<lparr>v_conn := Some c, v_chans := Some (v_starts v), v_starts := Suc (v_starts v)\<rparr>)
     (before @ Joined c # Loop (v_starts v) # after) n S acc sent (ov \<or> stops (before @ after) \<noteq> [])"
proof (rule go [OF assms(1)], goal_cases)
  case (1 m)
  obtain r where r: "connect_locked [] 4000 c noon (run_gw v m) = (Some (r, Some (v_starts v)),
      run_gw (v\<lparr>v_conn := Some c, v_chans := Some (v_starts v), v_starts := Suc (v_starts v)\<rparr>) m)"
    using run_connect [OF assms(2), of c m] assms(3) by auto
  show ?case
    by (rule exI, rule exI, rule conjI, rule race_step.connect [where before = before and after = after])
      (use r in \<open>auto simp: run_st_def\<close>)
qed

lemma go_connect_late:
  assumes "reaches enc v (before @ Dialled c # after) n S acc sent ov" "v_conn v = None" "v_chans v = Some ch"
  shows "reaches enc (v\<lparr>v_conn := Some c\<rparr>) (before @ Joined c # after) n S acc sent
     (ov \<or> stops (before @ after) \<noteq> [])"
proof (rule go [OF assms(1)], goal_cases)
  case (1 m)
  have same: "v\<lparr>v_conn := Some c, v_chans := Some ch\<rparr> = v\<lparr>v_conn := Some c\<rparr>"
    using assms(3) by (cases v) simp
  obtain r where r: "connect_locked [] 4000 c noon (run_gw v m) = (Some (r, None), run_gw (v\<lparr>v_conn := Some c\<rparr>) m)"
    using run_connect [OF assms(2), of c m] assms(3) same by auto
  show ?case
    by (rule exI, rule exI, rule conjI, rule race_step.connect [where before = before and after = after])
      (use r in \<open>auto simp: run_st_def\<close>)
qed

lemma go_start_reader:
  "reaches enc v (before @ Joined c # after) n S acc sent ov \<Longrightarrow> reaches enc v (before @ Reading c # after) n S acc sent ov"
  by (rule go, assumption, rule exI, rule exI, rule conjI, rule race_step.start_reader [where before = before])
    (auto simp: run_st_def)

lemma go_disconnect:
  assumes "reaches enc v ts n S acc sent ov" "v_conn v = Some c"
  shows "reaches enc (v\<lparr>v_conn := None\<rparr>) (Closing (Some c) # ts) n S acc sent ov"
proof (rule go [OF assms(1)], goal_cases)
  case (1 m)
  obtain r where r: "disconnect_locked [] True noon (run_gw v m) = (Inr (Some c, r), run_gw (v\<lparr>v_conn := None\<rparr>) m)"
    using run_disconnect [OF assms(2)] by blast
  show ?case
    by (rule exI, rule exI, rule conjI, rule race_step.disconnect) (use r in \<open>auto simp: run_st_def\<close>)
qed

lemma go_close:
  "reaches enc v (before @ Closing (Some c) # after) n S acc sent ov \<Longrightarrow>
     reaches enc (v\<lparr>v_closed := c # v_closed v\<rparr>) (before @ Dropping # after) n S acc sent ov"
  by (rule go, assumption, rule exI, rule exI, rule conjI, rule race_step.close_conn [where before = before])
    (auto simp: run_st_def run_close)

lemma go_drop:
  assumes "reaches enc v (before @ Dropping # after) n S acc sent ov" "v_commands v = []" "v_chans v = Some ch"
  shows "reaches enc (v\<lparr>v_commands := [], v_chans := None\<rparr>) (before @ Signalling 0 ch # after) n S acc sent ov"
proof (rule go [OF assms(1)], goal_cases)
  case (1 m)
  obtain s where s: "g_session (run_gw v m) = Some s" "q_commands (s_queue s) = []"
    "on_queue stop_locked s (run_gw v m) = ((0, Some ch), run_gw (v\<lparr>v_commands := [], v_chans := None\<rparr>) (SetQueueDepth 0 m))"
    using run_drop [of v m] assms(2,3) by auto
  show ?case
    by (rule exI, rule exI, rule conjI, rule race_step.drop [where before = before and after = after])
      (use s in \<open>auto simp: run_st_def\<close>)
qed

text \<open>The rest of \<open>StopAndDrop\<close>, whose loop leaves at its next \<open>select\<close>.\<close>

lemma go_signal:
  "reaches enc v (before @ Signalling d ch # after) n S acc sent ov \<Longrightarrow>
     reaches enc v (before @ Draining d ch # after) n (insert ch S) acc sent ov"
  by (rule go, assumption, rule exI, rule exI, rule conjI, rule race_step.signal [where before = before])
    (auto simp: run_st_def)

lemma go_exit:
  "reaches enc v (before @ Loop ch # after) n S acc sent ov \<Longrightarrow> ch \<in> S \<Longrightarrow>
     reaches enc v (before @ after) n S acc sent ov"
  by (rule go, assumption, rule exI, rule exI, rule conjI, rule race_step.exit [where before = before])
    (auto simp: run_st_def)

lemma go_drained:
  "reaches enc v (before @ Draining d ch # after) n S acc sent ov \<Longrightarrow> ch \<notin> set (loops (before @ after)) \<Longrightarrow>
     reaches enc v (before @ after) n S acc sent ov"
  by (rule go, assumption, rule exI, rule exI, rule conjI, rule race_step.drained [where before = before])
    (auto simp: run_st_def run_counted)

lemma go_read_closed:
  "reaches enc v (before @ Reading c # after) n S acc sent ov \<Longrightarrow> c \<in> set (v_closed v) \<Longrightarrow>
     reaches enc v (before @ after) n S acc sent ov"
  by (rule go, assumption, rule exI, rule exI, rule conjI, rule race_step.read_closed [where before = before])
    (auto simp: run_st_def)

lemma go_deadline:
  "reaches enc v (before @ Reading c # after) n S acc sent ov \<Longrightarrow> c \<in> set (v_closed v) \<Longrightarrow>
     reaches enc v (before @ ReadEnded c (UpstreamErr msg) # after) n S acc sent ov"
  by (rule go, assumption, rule exI, rule exI, rule conjI, rule race_step.deadline_closed [where before = before])
    (auto simp: run_st_def)

lemma go_enqueue:
  assumes "reaches enc v ts n S acc sent ov" "v_conn v = Some c" "length (v_commands v) < 20"
  shows "reaches enc (v\<lparr>v_commands := v_commands v @ [command]\<rparr>) ts n S (acc @ [(c, command)]) sent ov"
proof (rule go [OF assms(1)], goal_cases)
  case (1 m)
  have "v_conn v \<noteq> None" using assms(2) by simp
  from run_enqueue [OF this assms(3)] obtain r m1 where
    e: "manager_enqueue command noon (run_gw v m) = ((r, None), run_gw (v\<lparr>v_commands := v_commands v @ [command]\<rparr>) m1)"
    by blast
  show ?case
    by (rule exI, rule exI, rule conjI, rule race_step.enqueue) (use e assms(2) in \<open>auto simp: run_st_def\<close>)
qed

lemma go_pop:
  assumes "reaches enc v (before @ Loop ch # after) n S acc sent ov" "v_commands v = command # rest"
  shows "reaches enc (v\<lparr>v_commands := rest\<rparr>) (before @ Popped ch command # after) n S acc sent ov"
proof (rule go [OF assms(1)], goal_cases)
  case (1 m)
  obtain s m1 where s: "g_session (run_gw v m) = Some s"
    "on_queue pop s (run_gw v m) = (Some command, run_gw (v\<lparr>v_commands := rest\<rparr>) m1)"
    using run_pop [OF assms(2)] by blast
  show ?case
    by (rule exI, rule exI, rule conjI, rule race_step.pop [where before = before and after = after])
      (use s in \<open>auto simp: run_st_def\<close>)
qed

lemma go_target:
  "reaches enc v (before @ Popped ch command # after) n S acc sent ov \<Longrightarrow> v_conn v = Some c \<Longrightarrow> length (v_commands v) \<le> 20 \<Longrightarrow>
     reaches enc v (before @ Writing ch command c # after) n S acc sent ov"
  by (rule go, assumption, rule exI, rule exI, rule conjI, rule race_step.target [where before = before])
    (auto simp: run_st_def target_view run_steady)

lemma go_write:
  "reaches enc v (before @ Writing ch command c # after) n S acc sent ov \<Longrightarrow> c \<notin> set (v_closed v) \<Longrightarrow>
     reaches enc (v\<lparr>v_written := v_written v @ [(c, command_bytes enc command)]\<rparr>)
       (before @ Wrote ch command # after) n S acc (sent @ [(c, command)]) ov"
  by (rule go, assumption, rule exI, rule exI, rule conjI, rule race_step.write_ok [where before = before])
    (auto simp: run_st_def run_written)

subsection \<open>The runs\<close>

abbreviation sv :: "nat option \<Rightarrow> str list \<Rightarrow> nat option \<Rightarrow> nat \<Rightarrow> nat list \<Rightarrow> (nat \<times> byte list) list \<Rightarrow> session_view" where
  "sv conn commands chans starts closed sent \<equiv>
     \<lparr>v_conn = conn, v_commands = commands, v_chans = chans, v_starts = starts, v_closed = closed, v_written = sent\<rparr>"

lemma run_first_connect:
  "\<exists>r. connect_locked [] 4000 0 noon (NewManager 500 20 NewMetrics)
     = (Some (r, Some 0), run_gw (sv (Some 0) [] (Some 0) 1 [] []) NewMetrics)"
  by (simp add: connect_locked_def ensureSessionLocked_def NewManager_def NewCommandQueue_def Start_def
      run_gw_def itoa_1 lit.simps Let_def)

lemma run_joined: "reaches enc (sv (Some 0) [] (Some 0) 1 [] []) [Joined 0, Loop 0] 1 {} [] [] False"
proof -
  obtain r where r: "connect_locked [] 4000 0 noon (NewManager 500 20 NewMetrics)
      = (Some (r, Some 0), run_gw (sv (Some 0) [] (Some 0) 1 [] []) NewMetrics)" using run_first_connect by blast
  let ?d = "(init_race 500 20)\<lparr>rs_tasks := [Dialled 0], rs_next := 1\<rparr>"
  have "race_step enc (init_race 500 20) ?d"
    using race_step.dial [of enc "init_race 500 20"] by (simp add: init_race_def)
  with race_reach.start have "race_reach enc 500 20 ?d" by (rule race_reach.next_step)
  moreover have "race_step enc ?d (run_st (sv (Some 0) [] (Some 0) 1 [] []) NewMetrics [Joined 0, Loop 0] 1 {} [] [] False)"
    using race_step.connect [of ?d "[]" 0 "[]" "[]" 4000 noon r "Some 0" _ enc] r
    by (simp add: run_st_def init_race_def)
  ultimately show ?thesis unfolding reaches_def by (blast intro: race_reach.next_step)
qed

lemma run_up: "reaches enc (sv (Some 0) [] (Some 0) 1 [] []) [Reading 0, Loop 0] 1 {} [] [] False"
  using go_start_reader [where before = "[]", simplified, OF run_joined] .

lemma run_disconnected:
  "reaches enc (sv None [] (Some 0) 1 [] []) [Closing (Some 0), Reading 0, Loop 0] 1 {} [] [] False"
  using go_disconnect [OF run_up] by simp

text \<open>From the end of the first session to the end of \<open>StopAndDrop\<close>, other tasks aside.\<close>

lemma go_stop:
  assumes "reaches enc (sv conn [] (Some ch) starts closed sent) (before @ Closing (Some c) # Reading d # Loop ch # after) n S [] [] ov"
    and "ch \<notin> set (loops (before @ after))"
  shows "reaches enc (sv conn [] None starts (c # closed) sent) (before @ Reading d # after) n (insert ch S) [] [] ov"
proof -
  have "reaches enc (sv conn [] (Some ch) starts (c # closed) sent) (before @ Dropping # Reading d # Loop ch # after) n S [] [] ov"
    using go_close [OF assms(1)] by simp
  from go_drop [OF this]
  have "reaches enc (sv conn [] None starts (c # closed) sent) (before @ Signalling 0 ch # Reading d # Loop ch # after) n S [] [] ov"
    by simp
  from go_exit [of _ _ "before @ [Draining 0 ch, Reading d]" ch after, simplified, OF go_signal [OF this]]
  have "reaches enc (sv conn [] None starts (c # closed) sent) (before @ Draining 0 ch # Reading d # after) n (insert ch S) [] [] ov"
    by simp
  from go_drained [OF this] assms(2) show ?thesis by simp
qed

text \<open>
  C7. No connection leaks and none is closed twice, in every interleaving. In any run of requests,
  readers and sender loops, each connection ever dialled is at any time in exactly one place: closed,
  or current, or in the hands of a goroutine that is about to use or close it. The session keeps its
  id \<open>s-1\<close>, the queue never exceeds its limit, and when the session is down the queue is empty and
  its loop stopped, or a goroutine is on its way to do that.
\<close>

theorem no_connection_leak:
  assumes "race_reach enc interval queueMax st"
  shows "mset (g_closed (rs_gw st)) + mset (concat (map owned (rs_tasks st))) + mset (current (rs_gw st))
       = mset [0..<rs_next st]
    \<and> (\<forall>s. g_session (rs_gw st) = Some s \<longrightarrow>
         s_id s = lit ''s-1''
       \<and> int (length (q_commands (s_queue s))) \<le> max 0 (MaxDepth (s_queue s))
       \<and> (\<not> s_connected s \<longrightarrow>
            q_commands (s_queue s) = [] \<and> \<not> q_running (s_queue s)
          \<or> (\<exists>conn. Closing conn \<in> set (rs_tasks st)) \<or> Dropping \<in> set (rs_tasks st)))"
proof -
  from race_reach_inv [OF assms] have inv: "race_inv st" .
  have "None \<in> set (stop_of t) \<Longrightarrow> (\<exists>conn. t = Closing conn) \<or> t = Dropping" for t
    by (cases t) simp_all
  then have "None \<in> set (stops ts) \<Longrightarrow> (\<exists>conn. Closing conn \<in> set ts) \<or> Dropping \<in> set ts" for ts
    by (induction ts) auto
  with inv show ?thesis
    by (auto simp: race_inv_def steady_def MaxDepth_def view_def waiting_def)
qed

theorem no_connection_leak_witness:
  "mset (current (run_gw (sv None [] (Some 0) 1 [] []) NewMetrics))
     + mset (concat (map owned [Closing (Some 0), Reading 0, Loop 0])) = {#0#}"
proof -
  obtain m1 where "race_reach (\<lambda>_. None) 500 20
      (run_st (sv None [] (Some 0) 1 [] []) m1 [Closing (Some 0), Reading 0, Loop 0] 1 {} [] [] False)"
    using run_disconnected unfolding reaches_def by blast
  from no_connection_leak [OF this] show ?thesis by simp
qed

text \<open>
  C8. A connect that overlaps a disconnect leaves a session that never sends. There is a run, with
  nothing left in progress but the reader of the new connection, after which the session is
  connected while the sender loop of its queue is not running: the connect found the old loop still
  running and did not start one, and the disconnect then stopped it. Every command is accepted, up to
  the limit, and no sender loop is there to send it.
\<close>

theorem connect_race_stalls:
  "\<exists>st s. race_reach enc 500 20 st \<and> rs_tasks st = [Reading 1] \<and> g_session (rs_gw st) = Some s
     \<and> s_connected s \<and> s_conn s = Some 1 \<and> \<not> q_running (s_queue s)
     \<and> (\<forall>command now. snd (fst (manager_enqueue command now (rs_gw st))) = None)"
proof -
  let ?v = "sv (Some 1) [] None 1 [0] []"
  have 1: "reaches enc (sv (Some 1) [] (Some 0) 1 [] []) [Joined 1, Closing (Some 0), Reading 0, Loop 0] 2 {} [] [] True"
    using go_connect_late [where before = "[]", unfolded append.simps, OF go_dial [OF run_disconnected]]
    by (simp add: numeral_2_eq_2)
  from go_stop [of _ _ _ _ _ _ "[Reading 1]" _ _ "[]", unfolded append.simps, OF go_start_reader [where before = "[]", unfolded append.simps, OF 1]]
  have "reaches enc ?v [Reading 1, Reading 0] 2 {0} [] [] True" by simp
  from go_read_closed [of _ _ "[Reading 1]" _ "[]", unfolded append.simps, OF this]
  obtain m where "race_reach enc 500 20 (run_st ?v m [Reading 1] 2 {0} [] [] True)"
    unfolding reaches_def by auto
  then show ?thesis
    by (intro exI [of _ "run_st ?v m [Reading 1] 2 {0} [] [] True"])
      (simp add: run_gw_def manager_enqueue_def ensureSessionLocked_def NewManager_def on_queue_def
        Enqueue_def Let_def)
qed

text \<open>
  C9. The reader of an old connection can take down a new one, and without any overlap of a connect
  and a disconnect. The session id that \<open>handleUpstreamDisconnect\<close> passes to protect later sessions
  never changes, so it protects nothing: there is a run in which the reader of connection 0, which was
  closed by a disconnect, next fails to set its deadline, and its call of \<open>disconnect\<close> takes down
  connection 1, opened meanwhile.
\<close>

theorem stale_reader_disconnects:
  "\<exists>st st1 err. race_reach enc 500 20 st \<and> \<not> rs_overlapped st \<and> race_step enc st st1
     \<and> current (rs_gw st) = [1] \<and> g_closed (rs_gw st) = [0]
     \<and> rs_tasks st = [Reading 1, Loop 1, ReadEnded 0 err]
     \<and> current (rs_gw st1) = [] \<and> rs_tasks st1 = [Reading 1, Loop 1, Closing (Some 1)]"
proof -
  let ?err = "UpstreamErr (lit ''set read deadline failed'')" and ?v = "sv (Some 1) [] (Some 1) 2 [0] []"
  have 1: "reaches enc (sv None [] None 1 [0] []) [Reading 0] 1 {0} [] [] False"
    using go_stop [of _ _ _ _ _ _ "[]" _ _ "[]", unfolded append.simps, OF run_disconnected] by simp
  have 2: "reaches enc ?v [Joined 1, Loop 1, Reading 0] 2 {0} [] [] False"
    using go_connect [where before = "[]", unfolded append.simps, OF go_dial [OF 1]] by (simp add: numeral_2_eq_2)
  have "reaches enc ?v [Reading 1, Loop 1, ReadEnded 0 ?err] 2 {0} [] [] False"
    using go_deadline [of _ _ "[Reading 1, Loop 1]" _ "[]", unfolded append.simps, OF go_start_reader [where before = "[]", unfolded append.simps, OF 2]]
    by simp
  then obtain m where reach: "race_reach enc 500 20 (run_st ?v m [Reading 1, Loop 1, ReadEnded 0 ?err] 2 {0} [] [] False)"
    unfolding reaches_def by blast
  let ?st = "run_st ?v m [Reading 1, Loop 1, ReadEnded 0 ?err] 2 {0} [] [] False"
  obtain r where r: "disconnect_locked (lit ''s-1'') False noon (run_gw ?v m)
      = (Inr (Some 1, r), run_gw (?v\<lparr>v_conn := None\<rparr>) m)"
    using run_disconnect [of ?v 1] by force
  let ?st1 = "?st\<lparr>rs_gw := run_gw (?v\<lparr>v_conn := None\<rparr>) m, rs_tasks := [Reading 1, Loop 1] @ Closing (Some 1) # []\<rparr>"
  have "race_step enc ?st ?st1" by (rule race_step.reader_stop) (use r in simp_all)
  with reach show ?thesis
    by (intro exI [of _ ?st] exI [of _ ?st1] exI [of _ ?err]) simp
qed

end
