(* ===== verification/CommandRace.thy ===== *)
theory CommandRace
  imports RaceRuns "HOL-Library.Sublist"
begin

text \<open>
  The way of a command from \<open>Enqueue\<close> to the wire, over every run of ManagerRace: a command is in the
  queue, in the hands of a sender loop, written, or given up. The ghost fields of \<open>race_sys\<close> say which
  commands were accepted for which connection and which were written to which. As long as no connect
  takes the session while a disconnect is still under way, at most one loop and at most one stop are
  alive, and they belong to the same connection.
\<close>

fun hand_of :: "task \<Rightarrow> str list" where
  "hand_of (Popped ch command) = [command]"
| "hand_of (Writing ch command conn) = [command]"
| "hand_of _ = []"

fun target_of :: "task \<Rightarrow> nat list" where
  "target_of (Writing ch command conn) = [conn]"
| "target_of _ = []"

definition in_hand :: "task list \<Rightarrow> str list" where
  "in_hand tasks = concat (map hand_of tasks)"

definition targets :: "task list \<Rightarrow> nat list" where
  "targets tasks = concat (map target_of tasks)"

lemma hand_lists [simp]:
  "in_hand [] = []" "in_hand (t # ts) = hand_of t @ in_hand ts" "in_hand (ts @ us) = in_hand ts @ in_hand us"
  "targets [] = []" "targets (t # ts) = target_of t @ targets ts" "targets (ts @ us) = targets ts @ targets us"
  by (simp_all add: in_hand_def targets_def)

text \<open>Without a sender loop nothing is in hand.\<close>

lemma hands_in_loops: "loops ts = [] \<Longrightarrow> in_hand ts = [] \<and> targets ts = []"
proof (induction ts)
  case (Cons t ts)
  then show ?case by (cases t) simp_all
qed simp

lemma target_in_hand: "in_hand ts = [] \<Longrightarrow> targets ts = []"
proof (induction ts)
  case (Cons t ts)
  then show ?case by (cases t) simp_all
qed simp

subsection \<open>Every accepted command is in one place\<close>

definition flow_inv :: "(str \<Rightarrow> byte list option) \<Rightarrow> race_sys \<Rightarrow> bool" where
  "flow_inv enc st \<longleftrightarrow>
     g_written (rs_gw st) = map (on_wire enc) (rs_sent st)
   \<and> mset (map snd (rs_accepted st))
       = mset (map snd (rs_sent st)) + mset (rs_lost st) + mset (in_hand (rs_tasks st)) + mset (waiting (rs_gw st))"

lemma flow_inv_step:
  assumes "race_step enc st st1" "race_inv st" "flow_inv enc st"
  shows "flow_inv enc st1"
  using assms
proof (induction rule: race_step.induct)
  case (connect st before n after host port now r started g)
  note I = race_inv_parts [OF connect(3)]
  note V = connect_view [OF connect(2) I(1), simplified]
  show ?case using view_fields [OF V(2) [THEN conjunct2, THEN conjunct2]] connect(1,4)
    by (cases started) (auto simp: flow_inv_def split: if_splits)
next
  case (refuse st before n after host port now g)
  note I = race_inv_parts [OF refuse(3)]
  note V = connect_view [OF refuse(2) I(1), simplified]
  show ?case using view_fields [OF V(2)] refuse(1,4) by (auto simp: flow_inv_def)
next
  case (disconnect now st conn r g)
  note I = race_inv_parts [OF disconnect(2)]
  note V = disconnect_view [OF disconnect(1) I(1), simplified]
  show ?case using view_fields [of g, OF V(2) [THEN conjunct2, THEN conjunct2]] disconnect(3)
    by (auto simp: flow_inv_def)
next
  case (disconnect_refused now st r g)
  note I = race_inv_parts [OF disconnect_refused(2)]
  note V = disconnect_view [OF disconnect_refused(1) I(1), simplified]
  show ?case using view_fields [OF V(2)] disconnect_refused(3) by (auto simp: flow_inv_def)
next
  case (close_conn st before conn after)
  then show ?case using view_fields [OF close_view(1) [of conn "rs_gw st"]] by (auto simp: flow_inv_def)
next
  case (close_refused st before n after)
  then show ?case using view_fields [OF close_view(1) [of "Some n" "rs_gw st"]] by (auto simp: flow_inv_def)
next
  case (drop st before after s dropped stopCh g)
  note I = race_inv_parts [OF drop(4)]
  note V = drop_view [OF drop(3,2) I(1)]
  show ?case using view_fields [OF V(3)] V(4) drop(1,5)
    by (auto simp: flow_inv_def split: option.split)
next
  case (drained st before dropped ch after)
  then show ?case using view_fields [OF counted_view(1) [of dropped "rs_gw st"]] by (auto simp: flow_inv_def)
next
  case (enqueue command now st r err g)
  note I = race_inv_parts [OF enqueue(2)]
  note V = enqueue_view [OF enqueue(1) I(1)]
  show ?case
  proof (cases "err = None")
    case True
    note V2 = V(2) [unfolded True, simplified]
    show ?thesis using V2 view_fields [OF V2 [THEN conjunct2]] enqueue(3) True by (auto simp: flow_inv_def)
  next
    case False
    with V(2) have "view g = view (rs_gw st)" by simp
    from view_fields [OF this] enqueue(3) False show ?thesis by (auto simp: flow_inv_def)
  qed
next
  case (status st now)
  note V = status_view [OF race_inv_parts(1) [OF status(1)], of now]
  show ?case using view_fields [OF V [THEN conjunct1]] status(2) by (auto simp: flow_inv_def)
next
  case (shows_text n st shown now)
  then show ?case using view_fields [OF output_view(1) [of _ shown now "rs_gw st"]] by (auto simp: flow_inv_def)
next
  case (pop st before ch after s command g)
  note I = race_inv_parts [OF pop(4)]
  note V = pop_view [OF pop(3,2) I(1), simplified]
  show ?case using V(2) view_fields [OF V(2) [THEN conjunct2]] pop(1,5) by (auto simp: flow_inv_def)
next
  case (pop_empty st before ch after s g)
  note I = race_inv_parts [OF pop_empty(4)]
  note V = pop_view [OF pop_empty(3,2) I(1), simplified]
  show ?case using view_fields [OF V(2) [THEN conjunct2]] pop_empty(5) by (auto simp: flow_inv_def)
next
  case (write_ok st before ch command n after)
  then show ?case using view_fields [OF written_view(1) [of enc n command "rs_gw st"]]
    by (auto simp: flow_inv_def on_wire_def)
next
  case (touch st before ch command after now)
  then show ?case using view_fields [OF touch_view(1) [of _ now "rs_gw st"]] by (auto simp: flow_inv_def)
next
  case (count st before ch command err after elapsed now)
  note V = finish_view [OF race_inv_parts(1) [OF count(2)], of command err elapsed now]
  show ?case using count(1,3) view_fields [OF V [THEN conjunct1]] by (auto simp: flow_inv_def)
next
  case (reader_stop st before n err after now conn r g)
  note I = race_inv_parts [OF reader_stop(3)]
  note V = disconnect_view [OF reader_stop(2) I(1), simplified]
  show ?case using view_fields [of g, OF V(2) [THEN conjunct2, THEN conjunct2]] reader_stop(1,4)
    by (auto simp: flow_inv_def)
next
  case (reader_gone st before n err after now r g)
  note I = race_inv_parts [OF reader_gone(3)]
  note V = disconnect_view [OF reader_gone(2) I(1), simplified]
  show ?case using view_fields [OF V(2)] reader_gone(1,4) by (auto simp: flow_inv_def)
qed (auto simp: flow_inv_def)

subsection \<open>Runs without an overlap\<close>

lemma single_append [simp]: "xs @ ys = [x] \<longleftrightarrow> xs = [x] \<and> ys = [] \<or> xs = [] \<and> ys = [x]"
  by (cases xs) auto

definition at_rest :: "session_view \<Rightarrow> task list \<Rightarrow> nat set \<Rightarrow> bool" where
  "at_rest v tasks signalled \<longleftrightarrow>
     stops tasks = []
   \<and> (v_conn v = None \<and> v_chans v = None \<and> loops tasks = [] \<and> v_commands v = []
      \<or> v_conn v \<noteq> None \<and> (\<exists>ch. v_chans v = Some ch \<and> loops tasks = [ch] \<and> ch \<notin> signalled))"

definition stopping :: "session_view \<Rightarrow> task list \<Rightarrow> nat set \<Rightarrow> bool" where
  "stopping v tasks signalled \<longleftrightarrow>
     stops tasks = [None] \<and> v_conn v = None
   \<and> (\<exists>ch. v_chans v = Some ch \<and> loops tasks = [ch] \<and> ch \<notin> signalled)"

definition draining :: "session_view \<Rightarrow> task list \<Rightarrow> bool" where
  "draining v tasks \<longleftrightarrow>
     v_conn v = None \<and> v_chans v = None \<and> v_commands v = []
   \<and> (\<exists>ch. stops tasks = [Some ch] \<and> (loops tasks = [ch] \<or> loops tasks = []))"

definition shape :: "session_view \<Rightarrow> task list \<Rightarrow> nat set \<Rightarrow> bool" where
  "shape v tasks signalled \<longleftrightarrow>
     at_rest v tasks signalled \<or> stopping v tasks signalled \<or> draining v tasks"

lemmas shape_defs = shape_def at_rest_def stopping_def draining_def

definition fresh :: "session_view \<Rightarrow> task list \<Rightarrow> nat set \<Rightarrow> bool" where
  "fresh v tasks signalled \<longleftrightarrow>
     (\<forall>ch \<in> signalled \<union> set_option (v_chans v) \<union> {ch. Some ch \<in> set (stops tasks)}. ch < v_starts v)"

definition in_order :: "session_view \<Rightarrow> race_sys \<Rightarrow> bool" where
  "in_order v st \<longleftrightarrow>
     (\<exists>gone dead c.
        rs_accepted st = gone @ map (Pair c) (in_hand (rs_tasks st) @ v_commands v) @ dead
      \<and> subseq (rs_sent st) gone \<and> (rs_lost st = [] \<longrightarrow> rs_sent st = gone \<and> dead = [])
      \<and> (v_conn v \<noteq> None \<longrightarrow> v_conn v = Some c \<and> dead = [])
      \<and> set (targets (rs_tasks st)) \<subseteq> {c})"

definition orderly :: "race_sys \<Rightarrow> bool" where
  "orderly st \<longleftrightarrow> shape (view (rs_gw st)) (rs_tasks st) (rs_signalled st)
     \<and> fresh (view (rs_gw st)) (rs_tasks st) (rs_signalled st)"

lemma orderly_step:
  assumes "race_step enc st st1" "race_inv st" "orderly st" "\<not> rs_overlapped st1"
  shows "orderly st1"
  using assms
proof (induction rule: race_step.induct)
  case (connect st before n after host port now r started g)
  note I = race_inv_parts [OF connect(3)]
  note V = connect_view [OF connect(2) I(1), simplified]
  show ?case using V(2) connect(1,4,5)
    by (auto simp: orderly_def shape_defs fresh_def intro: less_SucI split: if_splits option.splits)
next
  case (refuse st before n after host port now g)
  note V = connect_view [OF refuse(2) race_inv_parts(1) [OF refuse(3)], simplified]
  show ?case using V(2) refuse(1,4) by (simp add: orderly_def shape_defs fresh_def)
next
  case (disconnect now st conn r g)
  note V = disconnect_view [OF disconnect(1) race_inv_parts(1) [OF disconnect(2)], simplified]
  show ?case using V(2) disconnect(3)
    by (auto simp: orderly_def shape_defs fresh_def split: option.splits)
next
  case (disconnect_refused now st r g)
  note V = disconnect_view [OF disconnect_refused(1) race_inv_parts(1) [OF disconnect_refused(2)], simplified]
  show ?case using V(2) disconnect_refused(3) by (simp add: orderly_def)
next
  case (close_conn st before conn after)
  then show ?case by (auto simp: orderly_def shape_defs fresh_def)
next
  case (close_refused st before n after)
  then show ?case by (auto simp: orderly_def shape_defs fresh_def)
next
  case (drop st before after s dropped stopCh g)
  note V = drop_view [OF drop(3,2) race_inv_parts(1) [OF drop(4)]]
  show ?case using V(2,3) drop(1,5)
    by (auto simp: orderly_def shape_defs fresh_def split: option.splits)
next
  case (enqueue command now st r err g)
  note V = enqueue_view [OF enqueue(1) race_inv_parts(1) [OF enqueue(2)]]
  show ?case
  proof (cases "err = None")
    case True
    with V(2) enqueue(3) show ?thesis by (auto simp: orderly_def shape_defs fresh_def)
  next
    case False
    with V(2) enqueue(3) show ?thesis by (simp add: orderly_def)
  qed
next
  case (status st now)
  then show ?case using status_view [OF race_inv_parts(1) [OF status(1)], of now] by (simp add: orderly_def)
next
  case (pop st before ch after s command g)
  note V = pop_view [OF pop(3,2) race_inv_parts(1) [OF pop(4)], simplified]
  show ?case using V(2) pop(1,5)
    by (auto simp: orderly_def shape_defs fresh_def split: option.splits)
next
  case (pop_empty st before ch after s g)
  note V = pop_view [OF pop_empty(3,2) race_inv_parts(1) [OF pop_empty(4)], simplified]
  show ?case using V(2) pop_empty(5) by (simp add: orderly_def)
next
  case (count st before ch command err after elapsed now)
  note V = finish_view [OF race_inv_parts(1) [OF count(2)], of command err elapsed now]
  show ?case using V count(1,3) by (auto simp: orderly_def shape_defs fresh_def)
next
  case (reader_stop st before n err after now conn r g)
  note V = disconnect_view [OF reader_stop(2) race_inv_parts(1) [OF reader_stop(3)], simplified]
  show ?case using V(2) reader_stop(1,4)
    by (auto simp: orderly_def shape_defs fresh_def split: option.splits)
next
  case (reader_gone st before n err after now r g)
  note V = disconnect_view [OF reader_gone(2) race_inv_parts(1) [OF reader_gone(3)], simplified]
  show ?case using V(2) reader_gone(1,4) by (simp add: orderly_def shape_defs fresh_def)
qed (auto simp: orderly_def shape_defs fresh_def split: option.splits)

text \<open>The steps that touch neither the queue nor a command in hand.\<close>

lemma in_order_keep:
  assumes "in_order v st" "v_commands v1 = v_commands v" "v_conn v1 = v_conn v \<or> v_conn v1 = None"
    and "in_hand (rs_tasks st1) = in_hand (rs_tasks st)" "targets (rs_tasks st1) = targets (rs_tasks st)"
    and "rs_accepted st1 = rs_accepted st" "rs_sent st1 = rs_sent st" "rs_lost st1 = rs_lost st"
  shows "in_order v1 st1"
proof -
  from assms(1) obtain gone dead c where
    "rs_accepted st = gone @ map (Pair c) (in_hand (rs_tasks st) @ v_commands v) @ dead"
    "subseq (rs_sent st) gone" "rs_lost st = [] \<longrightarrow> rs_sent st = gone \<and> dead = []"
    "v_conn v \<noteq> None \<longrightarrow> v_conn v = Some c \<and> dead = []" "set (targets (rs_tasks st)) \<subseteq> {c}"
    unfolding in_order_def by blast
  with assms(2-) show ?thesis
    unfolding in_order_def by (intro exI [of _ gone] exI [of _ dead] exI [of _ c]) auto
qed

text \<open>The command in hand is written or given up.\<close>

lemma in_order_done:
  assumes "in_order v st" "in_hand (rs_tasks st) = [command]" "in_hand (rs_tasks st1) = []"
    and "v_commands v1 = v_commands v" "v_conn v1 = v_conn v" "rs_accepted st1 = rs_accepted st"
    and "rs_sent st1 = rs_sent st \<and> rs_lost st1 \<noteq> []
       \<or> targets (rs_tasks st) = [n] \<and> rs_sent st1 = rs_sent st @ [(n, command)] \<and> rs_lost st1 = rs_lost st"
  shows "in_order v1 st1"
proof -
  from assms(1,2) obtain gone dead c where
    o: "rs_accepted st = gone @ map (Pair c) (command # v_commands v) @ dead"
      "subseq (rs_sent st) gone" "rs_lost st = [] \<longrightarrow> rs_sent st = gone \<and> dead = []"
      "v_conn v \<noteq> None \<longrightarrow> v_conn v = Some c \<and> dead = []" "set (targets (rs_tasks st)) \<subseteq> {c}"
    unfolding in_order_def by auto
  have "subseq (rs_sent st1) (gone @ [(c, command)]) \<and> (rs_lost st1 = [] \<longrightarrow> rs_sent st1 = gone @ [(c, command)] \<and> dead = [])"
    using assms(7) o by (auto intro: subseq_longer)
  with o assms show ?thesis
    unfolding in_order_def
    by (intro exI [of _ "gone @ [(c, command)]"] exI [of _ dead] exI [of _ c]) (simp add: target_in_hand)
qed

lemma one_in_hand:
  assumes "loops (before @ t # after) = [ch]" "hand_of t = [command]"
  shows "in_hand before = []" "in_hand after = []" "loop_of t = [ch]"
proof -
  from assms(2) have "loop_of t \<noteq> []" by (cases t) auto
  with assms(1) show "in_hand before = []" "in_hand after = []" "loop_of t = [ch]"
    by (auto simp: append_eq_Cons_conv intro: hands_in_loops [THEN conjunct1])
qed

lemma in_orderE:
  assumes "in_order v st"
  obtains gone dead c where
    "rs_accepted st = gone @ map (Pair c) (in_hand (rs_tasks st) @ v_commands v) @ dead"
    "subseq (rs_sent st) gone" "rs_lost st = [] \<longrightarrow> rs_sent st = gone \<and> dead = []"
    "v_conn v \<noteq> None \<longrightarrow> v_conn v = Some c \<and> dead = []" "set (targets (rs_tasks st)) \<subseteq> {c}"
  using assms unfolding in_order_def by blast

lemma in_orderI:
  assumes "rs_accepted st = gone @ map (Pair c) (in_hand (rs_tasks st) @ v_commands v) @ dead"
    "subseq (rs_sent st) gone" "rs_lost st = [] \<longrightarrow> rs_sent st = gone \<and> dead = []"
    "v_conn v \<noteq> None \<longrightarrow> v_conn v = Some c \<and> dead = []" "set (targets (rs_tasks st)) \<subseteq> {c}"
  shows "in_order v st"
  using assms unfolding in_order_def by blast

lemma orderly_loop:
  assumes "orderly st" "loops (rs_tasks st) \<noteq> []"
  obtains ch where "loops (rs_tasks st) = [ch]"
  using assms by (auto simp: orderly_def shape_defs)

lemma orderly_hand:
  assumes "orderly st" "rs_tasks st = before @ t # after" "hand_of t = [command]"
  shows "in_hand before = []" "in_hand after = []"
proof -
  from assms(2,3) have "loops (rs_tasks st) \<noteq> []" by (cases t) auto
  from orderly_loop [OF assms(1) this] obtain ch where "loops (before @ t # after) = [ch]"
    unfolding assms(2) by blast
  from one_in_hand [OF this assms(3)] show "in_hand before = []" "in_hand after = []" by simp_all
qed

lemma in_order_step:
  assumes "race_step enc st st1" "race_inv st" "orderly st" "in_order (view (rs_gw st)) st" "\<not> rs_overlapped st1"
  shows "in_order (view (rs_gw st1)) st1"
  using assms
proof (induction rule: race_step.induct)
  case (connect st before n after host port now r started g)
  note V = connect_view [OF connect(2) race_inv_parts(1) [OF connect(3)], simplified]
  from connect(4,6) V(2) have rest: "loops (rs_tasks st) = []" "waiting (rs_gw st) = []"
    by (auto simp: orderly_def shape_defs)
  from hands_in_loops [OF rest(1)] have none: "in_hand (rs_tasks st) = []" "targets (rs_tasks st) = []" by simp_all
  have v: "v_conn (view g) = Some n" "waiting g = []"
    using view_fields [OF V(2) [THEN conjunct2, THEN conjunct2]] rest(2) by (auto split: if_splits)
  show ?case
    using connect(5)
  proof (cases rule: in_orderE)
    case (1 gone dead c)
    with none rest v connect(1) show ?thesis
      by (intro in_orderI [of _ "gone @ dead" n _ "[]"]) (cases started; auto intro: subseq_longer)+
  qed
next
  case (refuse st before n after host port now g)
  note V = connect_view [OF refuse(2) race_inv_parts(1) [OF refuse(3)], simplified]
  show ?case by (rule in_order_keep [OF refuse(5)]) (use V(2) refuse(1) in auto)
next
  case (disconnect now st conn r g)
  note V = disconnect_view [OF disconnect(1) race_inv_parts(1) [OF disconnect(2)], simplified]
  show ?case by (rule in_order_keep [OF disconnect(4)]) (use V(2) in auto)
next
  case (disconnect_refused now st r g)
  note V = disconnect_view [OF disconnect_refused(1) race_inv_parts(1) [OF disconnect_refused(2)], simplified]
  show ?case by (rule in_order_keep [OF disconnect_refused(4)]) (use V(2) in auto)
next
  case (drop st before after s dropped stopCh g)
  note V = drop_view [OF drop(3,2) race_inv_parts(1) [OF drop(4)]]
  have down: "v_conn (view (rs_gw st)) = None"
    using drop(1,5) by (auto simp: orderly_def shape_defs)
  show ?case
    using drop(6)
  proof (cases rule: in_orderE)
    case (1 gone dead c)
    with V(3,4) down drop(1) show ?thesis
      by (intro in_orderI [of _ gone c _ "map (Pair c) (waiting (rs_gw st)) @ dead"]) (cases stopCh; auto)+
  qed
next
  case (enqueue command now st r err g)
  note V = enqueue_view [OF enqueue(1) race_inv_parts(1) [OF enqueue(2)]]
  show ?case
  proof (cases "err = None")
    case False
    with V(2) show ?thesis by (intro in_order_keep [OF enqueue(4)]) auto
  next
    case True
    note V2 = V(2) [unfolded True, simplified]
    show ?thesis
      using enqueue(4)
    proof (cases rule: in_orderE)
      case (1 gone dead c)
      with V2 True show ?thesis by (intro in_orderI [of _ gone c _ "[]"]) auto
    qed
  qed
next
  case (status st now)
  show ?case using status_view [OF race_inv_parts(1) [OF status(1)], of now]
    by (intro in_order_keep [OF status(3)]) auto
next
  case (pop st before ch after s command g)
  note V = pop_view [OF pop(3,2) race_inv_parts(1) [OF pop(4)], simplified]
  have "loops (rs_tasks st) \<noteq> []" using pop(1) by simp
  from orderly_loop [OF pop(5) this] obtain ch1 where "loops (rs_tasks st) = [ch1]" .
  with pop(1) have "loops before = []" "loops after = []" by auto
  from this [THEN hands_in_loops]
  have none: "in_hand before = []" "in_hand after = []" "targets before = []" "targets after = []" by auto
  have w: "waiting (rs_gw st) = command # waiting g" "v_conn (view g) = v_conn (view (rs_gw st))"
    using V(2) by simp_all
  show ?case
    using pop(6)
  proof (cases rule: in_orderE)
    case (1 gone dead c)
    with none w pop(1) show ?thesis by (intro in_orderI [of _ gone c _ dead]) auto
  qed
next
  case (pop_empty st before ch after s g)
  note V = pop_view [OF pop_empty(3,2) race_inv_parts(1) [OF pop_empty(4)], simplified]
  show ?case by (rule in_order_keep [OF pop_empty(6)]) (use V(2) in auto)
next
  case (target st before ch command after n)
  have "v_conn (view (rs_gw st)) = Some n"
    using target(2) target_view [OF race_inv_parts(1) [OF target(3)]] by (simp split: option.splits)
  show ?case
    using target(5)
  proof (cases rule: in_orderE)
    case (1 gone dead c)
    with \<open>v_conn (view (rs_gw st)) = Some n\<close> target(1) show ?thesis
      by (intro in_orderI [of _ gone c _ dead]) auto
  qed
next
  case (no_target st before ch command after err)
  note H = orderly_hand [OF no_target(4,1), of command, simplified]
  show ?case by (rule in_order_done [OF no_target(5), of command]) (use H no_target(1) in auto)
next
  case (write_ok st before ch command n after)
  note H = orderly_hand [OF write_ok(4,1), of command, simplified]
  show ?case
    by (rule in_order_done [OF write_ok(5), of command _ _ n]) (use H write_ok(1) in \<open>auto simp: target_in_hand\<close>)
next
  case (write_fails st before ch command n after msg)
  note H = orderly_hand [OF write_fails(3,1), of command, simplified]
  show ?case by (rule in_order_done [OF write_fails(4), of command]) (use H write_fails(1) in auto)
next
  case (count st before ch command err after elapsed now)
  note V = finish_view [OF race_inv_parts(1) [OF count(2)], of command err elapsed now]
  show ?case by (rule in_order_keep [OF count(4)]) (use V count(1) in auto)
next
  case (reader_stop st before n err after now conn r g)
  note V = disconnect_view [OF reader_stop(2) race_inv_parts(1) [OF reader_stop(3)], simplified]
  show ?case by (rule in_order_keep [OF reader_stop(5)]) (use V(2) reader_stop(1) in auto)
next
  case (reader_gone st before n err after now r g)
  note V = disconnect_view [OF reader_gone(2) race_inv_parts(1) [OF reader_gone(3)], simplified]
  show ?case by (rule in_order_keep [OF reader_gone(5)]) (use V(2) reader_gone(1) in auto)
qed (erule in_order_keep; simp)+

lemma overlap_stays: "race_step enc st st1 \<Longrightarrow> rs_overlapped st \<Longrightarrow> rs_overlapped st1"
  by (induction rule: race_step.induct) simp_all

lemma race_reach_flow:
  "race_reach enc interval queueMax st \<Longrightarrow>
     flow_inv enc st \<and> (\<not> rs_overlapped st \<longrightarrow> orderly st \<and> in_order (view (rs_gw st)) st)"
proof (induction rule: race_reach.induct)
  case start
  show ?case
    by (simp add: flow_inv_def orderly_def shape_defs fresh_def in_order_def init_race_def NewManager_def
        view_def waiting_def)
next
  case (next_step st st1)
  note inv = race_reach_inv [OF next_step(1)]
  show ?case
  proof (intro conjI impI)
    show "flow_inv enc st1" using flow_inv_step [OF next_step(2) inv] next_step(3) by blast
    assume calm: "\<not> rs_overlapped st1"
    with overlap_stays [OF next_step(2)] next_step(3) have o: "orderly st" "in_order (view (rs_gw st)) st" by blast+
    show "orderly st1" by (rule orderly_step [OF next_step(2) inv o(1) calm])
    show "in_order (view (rs_gw st1)) st1" by (rule in_order_step [OF next_step(2) inv o calm])
  qed
qed

text \<open>
  C5. Accepted commands go to the wire at most once, and in order to the connection they were accepted
  for as long as no connect overlaps a disconnect. Over every interleaving of requests, readers and
  sender loops: the bytes written upstream are the encodings of the commands sent, each on its
  connection, and every accepted command is in exactly one place: sent, given up (its send failed or a
  stop dropped it), in the hands of a sender loop, or in the queue. In a run in which no connect takes
  the session between a disconnect's unlock and the end of its \<open>StopAndDrop\<close>, the commands sent, with
  their connections, are moreover a subsequence of the commands accepted, with theirs: none is out of
  order or on a later connection; and while nothing has been given up, they are exactly the accepted
  commands short of the one in hand and the queue.
\<close>

theorem commands_delivered:
  assumes "race_reach enc interval queueMax st"
  shows "g_written (rs_gw st) = map (on_wire enc) (rs_sent st)
    \<and> mset (map snd (rs_accepted st))
        = mset (map snd (rs_sent st)) + mset (rs_lost st) + mset (in_hand (rs_tasks st)) + mset (waiting (rs_gw st))
    \<and> (\<not> rs_overlapped st \<longrightarrow>
         subseq (rs_sent st) (rs_accepted st)
       \<and> (rs_lost st = [] \<longrightarrow>
            (\<exists>c. rs_accepted st = rs_sent st @ map (Pair c) (in_hand (rs_tasks st) @ waiting (rs_gw st)))))"
proof -
  note F = race_reach_flow [OF assms]
  have "subseq (rs_sent st) (rs_accepted st) \<and> (rs_lost st = [] \<longrightarrow>
      (\<exists>c. rs_accepted st = rs_sent st @ map (Pair c) (in_hand (rs_tasks st) @ waiting (rs_gw st))))"
    if "\<not> rs_overlapped st"
    using F that by (auto elim!: in_orderE intro: subseq_longer)
  with F show ?thesis by (simp add: flow_inv_def)
qed

subsection \<open>Two runs with a command\<close>

lemma run_sending:
  "reaches enc (sv (Some 0) [[110]] (Some 0) 1 [] []) [Reading 0, Writing 0 [108] 0] 1 {} [(0, [108]), (0, [110])] [] False"
proof -
  have 1: "reaches enc (sv (Some 0) [[108]] (Some 0) 1 [] []) [Reading 0, Loop 0] 1 {} [(0, [108])] [] False"
    using go_enqueue [OF run_up, where c = 0 and command = "[108]"] by simp
  have 2: "reaches enc (sv (Some 0) [[108], [110]] (Some 0) 1 [] []) [Reading 0, Loop 0] 1 {} [(0, [108]), (0, [110])] [] False"
    using go_enqueue [OF 1, where c = 0 and command = "[110]"] by simp
  have "reaches enc (sv (Some 0) [[110]] (Some 0) 1 [] []) [Reading 0, Popped 0 [108]] 1 {} [(0, [108]), (0, [110])] [] False"
    using go_pop [of _ _ "[Reading 0]" _ "[]", unfolded append.simps, OF 2] by simp
  from go_target [of _ _ "[Reading 0]" _ _ "[]", unfolded append.simps, OF this] show ?thesis by simp
qed

theorem commands_delivered_witness:
  "\<exists>st. race_reach (\<lambda>_. None) 500 20 st \<and> rs_accepted st = [(0, [108]), (0, [110])]
     \<and> g_written (rs_gw st) = [(0, [108, 10])]
     \<and> mset (map snd (rs_accepted st))
         = mset (map snd (rs_sent st)) + mset (rs_lost st) + mset (in_hand (rs_tasks st)) + mset (waiting (rs_gw st))"
proof -
  obtain m where r: "race_reach (\<lambda>_. None) 500 20
      (run_st (sv (Some 0) [[110]] (Some 0) 1 [] [(0, [108, 10])]) m [Reading 0, Wrote 0 [108]] 1 {}
        [(0, [108]), (0, [110])] [(0, [108])] False)" (is "race_reach _ _ _ ?st")
    using go_write [of "\<lambda>_. None" _ "[Reading 0]" _ _ _ "[]", unfolded append.simps, OF run_sending]
    unfolding reaches_def by (auto simp: command_bytes_def encode_utf8_def rune_bytes_def)
  from commands_delivered [OF r] have "g_written (rs_gw ?st) = map (on_wire (\<lambda>_. None)) (rs_sent ?st)"
    "mset (map snd (rs_accepted ?st))
       = mset (map snd (rs_sent ?st)) + mset (rs_lost ?st) + mset (in_hand (rs_tasks ?st)) + mset (waiting (rs_gw ?st))"
    by blast+
  with r show ?thesis
    by (intro exI [of _ ?st]) (simp add: on_wire_def command_bytes_def encode_utf8_def rune_bytes_def)
qed

text \<open>
  With an overlap the last part fails: a command accepted for connection 0 is still in the queue when a
  second connect takes the session, between the unlock of \<open>disconnect\<close> and its \<open>StopAndDrop\<close>, and the
  sender loop, not stopped yet, writes it to connection 1.
\<close>

lemma command_misdelivered:
  "\<exists>st. race_reach enc 500 20 st \<and> rs_accepted st = [(0, command)] \<and> rs_sent st = [(1, command)]
     \<and> g_written (rs_gw st) = [(1, command_bytes enc command)]"
proof -
  have 1: "reaches enc (sv (Some 0) [command] (Some 0) 1 [] []) [Reading 0, Loop 0] 1 {} [(0, command)] [] False"
    using go_enqueue [OF run_up, where c = 0 and command = command] by simp
  have "reaches enc (sv None [command] (Some 0) 1 [] []) [Closing (Some 0), Reading 0, Loop 0] 1 {} [(0, command)] [] False"
    using go_disconnect [OF 1] by simp
  from go_connect_late [of _ _ "[]", unfolded append.simps, OF go_dial [OF this]]
  have 2: "reaches enc (sv (Some 1) [command] (Some 0) 1 [] [])
      [Joined 1, Closing (Some 0), Reading 0, Loop 0] 2 {} [(0, command)] [] True"
    by (simp add: numeral_2_eq_2)
  let ?before = "[Joined 1, Closing (Some 0), Reading 0]"
  have "reaches enc (sv (Some 1) [] (Some 0) 1 [] []) [Joined 1, Closing (Some 0), Reading 0, Popped 0 command] 2 {} [(0, command)] [] True"
    using go_pop [of _ _ ?before _ "[]", unfolded append.simps, OF 2] by simp
  from go_target [of _ _ ?before _ _ "[]", unfolded append.simps, OF this]
  have "reaches enc (sv (Some 1) [] (Some 0) 1 [] []) [Joined 1, Closing (Some 0), Reading 0, Writing 0 command 1] 2 {} [(0, command)] [] True"
    by simp
  from go_write [of _ _ ?before _ _ _ "[]", unfolded append.simps, OF this]
  obtain m where "race_reach enc 500 20 (run_st (sv (Some 1) [] (Some 0) 1 [] [(1, command_bytes enc command)]) m
      [Joined 1, Closing (Some 0), Reading 0, Wrote 0 command] 2 {} [(0, command)] [(1, command)] True)" (is "race_reach _ _ _ ?st")
    unfolding reaches_def by auto
  then show ?thesis by (intro exI [of _ ?st]) simp
qed

end
