(* ===== verification/Regex.thy ===== *)
theory Regex
  imports Prelude
begin

text \<open>
  The fragment of Go's \<open>regexp\<close> the parser uses: a concatenation of greedy repetitions of
  character classes, some of them captured. A match is sought as the package documents it, leftmost
  first and each repetition as long as possible; the matcher is a backtracking one, so it makes no
  assumption about the classes.
\<close>

datatype item = Item (chars: "rune \<Rightarrow> bool") (lo: nat) (hi: "nat option") (captured: bool)

type_synonym regex = "item list"

definition run_len :: "(rune \<Rightarrow> bool) \<Rightarrow> nat option \<Rightarrow> str \<Rightarrow> nat" where
  "run_len p h s = length (takeWhile p (case h of None \<Rightarrow> s | Some n \<Rightarrow> take n s))"

fun first_some :: "('a \<Rightarrow> 'b option) \<Rightarrow> 'a list \<Rightarrow> 'b option" where
  "first_some f [] = None"
| "first_some f (x # xs) = (case f x of None \<Rightarrow> first_some f xs | Some y \<Rightarrow> Some y)"

text \<open>The captures of the match at the start of a text, and what follows the match.\<close>

fun match_here :: "regex \<Rightarrow> str \<Rightarrow> (str list \<times> str) option" where
  "match_here [] s = Some ([], s)"
| "match_here (Item p l h cap # re) s =
     first_some
       (\<lambda>n. case match_here re (drop n s) of
              None \<Rightarrow> None
            | Some (caps, rest) \<Rightarrow> Some (if cap then take n s # caps else caps, rest))
       (rev [l..<Suc (run_len p h s)])"

text \<open>\<open>FindAllStringSubmatch\<close>, \<open>MatchString\<close> and \<open>ReplaceAllString\<close> with the empty text,
  for patterns that match no empty text.\<close>

function find_all :: "regex \<Rightarrow> str \<Rightarrow> str list list" where
  "find_all re s =
     (case s of [] \<Rightarrow> []
      | c # t \<Rightarrow>
          (case match_here re s of
             None \<Rightarrow> find_all re t
           | Some (caps, rest) \<Rightarrow>
               if length rest < length s then caps # find_all re rest else find_all re t))"
  by pat_completeness auto
termination
  by (relation "measure (\<lambda>(re, s). length s)") auto

function delete_all :: "regex \<Rightarrow> str \<Rightarrow> str" where
  "delete_all re s =
     (case s of [] \<Rightarrow> []
      | c # t \<Rightarrow>
          (case match_here re s of
             None \<Rightarrow> c # delete_all re t
           | Some (caps, rest) \<Rightarrow>
               if length rest < length s then delete_all re rest else c # delete_all re t))"
  by pat_completeness auto
termination
  by (relation "measure (\<lambda>(re, s). length s)") auto

declare find_all.simps [simp del] delete_all.simps [simp del]

fun match_string :: "regex \<Rightarrow> str \<Rightarrow> bool" where
  "match_string re [] = (match_here re [] \<noteq> None)"
| "match_string re (c # t) = (match_here re (c # t) \<noteq> None \<or> match_string re t)"

subsection \<open>What a pattern matches\<close>

text \<open>A text is matched by its pieces, one per item.\<close>

definition fits :: "item \<Rightarrow> str \<Rightarrow> bool" where
  "fits i w \<longleftrightarrow>
     (\<forall>r \<in> set w. chars i r) \<and> lo i \<le> length w \<and> (case hi i of None \<Rightarrow> True | Some n \<Rightarrow> length w \<le> n)"

definition captures :: "regex \<Rightarrow> str list \<Rightarrow> str list" where
  "captures re ws = map snd (filter (\<lambda>(i, w). captured i) (zip re ws))"

lemma captures_simps [simp]:
  "captures [] ws = []"
  "captures (i # re) (w # ws) = (if captured i then [w] else []) @ captures re ws"
  by (simp_all add: captures_def)

lemma first_some_None: "first_some f xs = None \<longleftrightarrow> (\<forall>x \<in> set xs. f x = None)"
  by (induction xs) (auto split: option.split)

lemma first_some_Some: "first_some f xs = Some y \<Longrightarrow> \<exists>x \<in> set xs. f x = Some y"
  by (induction xs) (auto split: option.splits)

lemma run_len_fits:
  "n \<le> run_len p h s \<Longrightarrow> l \<le> n \<Longrightarrow> fits (Item p l h cap) (take n s)"
proof -
  assume n: "n \<le> run_len p h s" "l \<le> n"
  let ?s = "case h of None \<Rightarrow> s | Some k \<Rightarrow> take k s"
  have "take n s = take n (takeWhile p ?s)"
  proof -
    have "n \<le> length ?s" using n(1) length_takeWhile_le [of p ?s] by (simp add: run_len_def)
    then have "take n s = take n ?s" by (cases h) (simp_all add: min_def split: if_splits)
    also have "take n (takeWhile p ?s) = take n ?s"
      using n(1) by (metis run_len_def takeWhile_eq_take take_take min.absorb1)
    finally show ?thesis by simp
  qed
  moreover have "set (take n (takeWhile p ?s)) \<subseteq> Collect p"
    using set_take_subset [of n "takeWhile p ?s"] by (auto dest: set_takeWhileD)
  moreover have "length (take n (takeWhile p ?s)) = n" using n(1) by (simp add: run_len_def)
  moreover have "h = Some k \<Longrightarrow> n \<le> k" for k
    using n(1) length_takeWhile_le [of p "take k s"] by (simp add: run_len_def)
  ultimately show ?thesis using n(2) by (auto simp: fits_def split: option.split)
qed

lemma fits_run_len:
  assumes "fits (Item p l h cap) w"
  shows "l \<le> length w \<and> length w \<le> run_len p h (w @ s)"
proof -
  from assms have "length w \<le> length (takeWhile p (case h of None \<Rightarrow> w @ s | Some n \<Rightarrow> take n (w @ s)))"
    by (auto simp: fits_def takeWhile_append split: option.splits)
  with assms show ?thesis by (simp add: fits_def run_len_def)
qed

lemma match_here_sound:
  "match_here re s = Some (caps, rest) \<Longrightarrow>
     \<exists>ws. list_all2 fits re ws \<and> s = concat ws @ rest \<and> caps = captures re ws"
proof (induction re s arbitrary: caps rest rule: match_here.induct)
  case (2 p l h cap re s)
  from first_some_Some [OF 2(2)[simplified]] obtain n where n: "l \<le> n" "n \<le> run_len p h s"
    and m: "(case match_here re (drop n s) of None \<Rightarrow> None
            | Some (caps, rest) \<Rightarrow> Some (if cap then take n s # caps else caps, rest)) = Some (caps, rest)"
    by auto
  from m obtain caps1 where m1: "match_here re (drop n s) = Some (caps1, rest)"
    and c: "caps = (if cap then take n s # caps1 else caps1)"
    by (auto split: option.splits)
  from 2(1) [OF m1] obtain ws where
    "list_all2 fits re ws" "drop n s = concat ws @ rest" "caps1 = captures re ws" by blast
  with c run_len_fits [OF n(2,1)] show ?case
    by (intro exI [of _ "take n s # ws"]) (auto, metis append_take_drop_id)
qed simp

lemma match_here_complete:
  "list_all2 fits re ws \<Longrightarrow> match_here re (concat ws @ rest) \<noteq> None"
proof (induction re ws rule: list_all2_induct)
  case (Cons i re w ws)
  obtain p l h cap where i: "i = Item p l h cap" by (cases i)
  let ?s = "w @ concat ws @ rest"
  have n: "length w \<in> set (rev [l..<Suc (run_len p h ?s)])"
    using fits_run_len [of p l h cap w "concat ws @ rest"] Cons(1) i by auto
  obtain caps r where "match_here re (drop (length w) ?s) = Some (caps, r)" using Cons(3) by auto
  with n show ?case
    unfolding i by (auto simp: first_some_None simp del: upt_Suc intro!: bexI [of _ "length w"])
qed simp

subsection \<open>Where a match can lie\<close>

lemma match_here_shorter:
  assumes "match_here re s = Some (caps, rest)" "\<exists>i \<in> set re. 0 < lo i"
  shows "length rest < length s"
proof -
  from match_here_sound [OF assms(1)] obtain ws
    where ws: "list_all2 fits re ws" "s = concat ws @ rest" by blast
  from assms(2) obtain k where k: "k < length re" "0 < lo (re ! k)" by (auto simp: in_set_conv_nth)
  with ws(1) have "0 < length (ws ! k)" "k < length ws"
    by (auto simp: list_all2_conv_all_nth fits_def)
  then have "concat ws \<noteq> []" by (metis concat_eq_Nil_conv length_greater_0_conv nth_mem)
  with ws(2) show ?thesis by simp
qed

text \<open>
  Patterns that start with the literal \<open>c\<close> and have \<open>c\<close> nowhere else: a match that starts
  before an occurrence of \<open>c\<close> cannot reach over it, so the scan finds every match that starts
  at an occurrence.
\<close>

definition opened_by :: "rune \<Rightarrow> regex \<Rightarrow> bool" where
  "opened_by c re \<longleftrightarrow>
     (\<exists>i re1. re = i # re1 \<and> lo i = 1 \<and> hi i = Some 1 \<and> (\<forall>r. chars i r \<longleftrightarrow> r = c)
        \<and> (\<forall>j \<in> set re1. \<not> chars j c))"

lemma opened_by_pieces:
  assumes "opened_by c re" "list_all2 fits re ws"
  obtains v where "concat ws = c # v" "c \<notin> set v"
proof -
  from assms(1) obtain i re1 where re: "re = i # re1" "lo i = 1" "hi i = Some 1"
    "\<forall>r. chars i r \<longleftrightarrow> r = c" "\<forall>j \<in> set re1. \<not> chars j c" by (auto simp: opened_by_def)
  from assms(2) re(1) obtain w ws1 where ws: "ws = w # ws1" "fits i w" "list_all2 fits re1 ws1"
    by (auto simp: list_all2_Cons1)
  from ws(2) re have "w = [c]" by (cases w) (auto simp: fits_def)
  moreover have "c \<notin> set (concat ws1)"
    using ws(3) re(5) by (induction rule: list_all2_induct) (auto simp: fits_def)
  ultimately show thesis using that ws(1) by simp
qed

lemma match_here_opened:
  assumes "opened_by c re" "match_here re s = Some (caps, rest)"
  obtains v where "s = c # v @ rest" "c \<notin> set v"
  using match_here_sound [OF assms(2)] opened_by_pieces [OF assms(1)] by (metis append_Cons)

lemma opened_other:
  assumes "opened_by c re" "r \<noteq> c"
  shows "match_here re (r # t) = None" "match_here re [] = None"
  using assms match_here_opened [OF assms(1)] by (cases "match_here re (r # t)"; force)
    (use assms match_here_opened [OF assms(1)] in \<open>cases "match_here re []"; force\<close>)

lemma find_all_Nil [simp]: "find_all re [] = []"
  by (simp add: find_all.simps)

lemma find_all_match:
  assumes "opened_by c re" "match_here re s = Some (caps, rest)"
  shows "find_all re s = caps # find_all re rest"
proof -
  from match_here_opened [OF assms] obtain v where "s = c # v @ rest" by blast
  with assms(2) show ?thesis by (subst find_all.simps) simp
qed

lemma find_all_skip:
  assumes "match_here re (r # t) = None"
  shows "find_all re (r # t) = find_all re t"
  using assms by (simp add: find_all.simps [of re "r # t"])

lemma find_all_absent: "opened_by c re \<Longrightarrow> c \<notin> set s \<Longrightarrow> find_all re s = []"
  by (induction s) (auto simp: find_all_skip opened_other)

text \<open>The matches of a text are those found before an occurrence of \<open>c\<close>, then those from it on.\<close>

lemma find_all_at:
  assumes "opened_by c re"
  shows "\<exists>before. find_all re (pre @ c # t) = before @ find_all re (c # t)"
proof (induction pre rule: length_induct)
  case (1 pre)
  show ?case
  proof (cases pre)
    case (Cons r rs)
    show ?thesis
    proof (cases "match_here re (pre @ c # t)")
      case None
      with Cons 1 show ?thesis by (auto simp: find_all_skip)
    next
      case (Some m)
      then obtain caps rest where m: "match_here re (pre @ c # t) = Some (caps, rest)" by (cases m) auto
      from match_here_opened [OF assms m] obtain v where v: "pre @ c # t = c # v @ rest" "c \<notin> set v" .
      with Cons have rs: "rs @ c # t = v @ rest" by simp
      then obtain rs1 where "rest = rs1 @ c # t" "length rs1 \<le> length rs"
        using v(2) by (auto simp: append_eq_append_conv2 Cons_eq_append_conv)
      with 1 Cons have "\<exists>before. find_all re rest = before @ find_all re (c # t)" by auto
      with find_all_match [OF assms m] show ?thesis by (metis append_Cons)
    qed
  qed simp
qed


subsection \<open>The match itself\<close>

text \<open>
  When no piece can be longer, because it has its maximal length or the rune after it is not in the
  class, the greedy match takes exactly these pieces.
\<close>

fun blocked :: "regex \<Rightarrow> str list \<Rightarrow> str \<Rightarrow> bool" where
  "blocked (i # re) (w # ws) rest =
     ((hi i = Some (length w) \<or> concat ws @ rest = [] \<or> \<not> chars i (hd (concat ws @ rest)))
      \<and> blocked re ws rest)"
| "blocked re ws rest = True"

lemma run_len_blocked:
  assumes "fits (Item p l h cap) w"
    and "h = Some (length w) \<or> s = [] \<or> \<not> p (hd s)"
  shows "run_len p h (w @ s) = length w"
proof -
  have all: "\<forall>r \<in> set w. p r" using assms(1) by (simp add: fits_def)
  then have w: "takeWhile p w = w" by (simp add: takeWhile_eq_all_conv)
  show ?thesis
  proof (cases "h = Some (length w)")
    case True
    have "length (takeWhile p w) = length w" by (simp only: w)
    with True show ?thesis by (simp add: run_len_def)
  next
    case False
    with assms(2) have "s = [] \<or> \<not> p (hd s)" by simp
    then have "takeWhile p (take k s) = []" "takeWhile p s = []" for k
      by (cases s; cases k; simp)+
    with w all show ?thesis using assms(1)
      by (auto simp: run_len_def fits_def takeWhile_append split: option.split)
  qed
qed

lemma match_here_pieces:
  "list_all2 fits re ws \<Longrightarrow> blocked re ws rest \<Longrightarrow>
     match_here re (concat ws @ rest) = Some (captures re ws, rest)"
proof (induction re ws rule: list_all2_induct)
  case (Cons i re w ws)
  obtain p l h cap where i: "i = Item p l h cap" by (cases i)
  have len: "run_len p h (w @ concat ws @ rest) = length w"
    using Cons(1,4) i by (intro run_len_blocked [of p l h cap]) auto
  moreover have "l \<le> length w" using Cons(1) i by (simp add: fits_def)
  ultimately have "rev [l..<Suc (run_len p h (w @ concat ws @ rest))] = length w # rev [l..<length w]"
    by simp
  with Cons show ?case by (simp add: i del: upt_Suc)
qed simp

subsection \<open>Deleting the matches\<close>

lemma delete_all_Nil [simp]: "delete_all re [] = []"
  by (simp add: delete_all.simps)

lemma delete_all_match:
  assumes "opened_by c re" "match_here re s = Some (caps, rest)"
  shows "delete_all re s = delete_all re rest"
proof -
  from match_here_opened [OF assms] obtain v where "s = c # v @ rest" by blast
  with assms(2) show ?thesis by (subst delete_all.simps) simp
qed

lemma delete_all_other:
  assumes "opened_by c re" "r \<noteq> c"
  shows "delete_all re (r # t) = r # delete_all re t"
  using opened_other(1) [OF assms, of t] by (subst delete_all.simps) simp

lemma delete_all_absent: "opened_by c re \<Longrightarrow> c \<notin> set s \<Longrightarrow> delete_all re (s @ t) = s @ delete_all re t"
  by (induction s) (auto simp: delete_all_other)

end
