(* ===== verification/Parser.thy ===== *)
theory Parser
  imports Regex GoStrings Utf8 "HOL-Library.List_Lexorder"
begin

text \<open>
  \<open>state/parser.go\<close>: what the gateway reads out of the terminal text: the prompt, the status
  tags, the equipment and the location. Cyrillic literals are written as their code points, in the
  order of the source. A Go map of strings is a partial function, nil being the empty one; strings
  are sorted by code points, which is the byte order of their UTF-8 texts.

  \<open>normalizeEquipmentSlot\<close> ranges over a map, whose order the runtime chooses anew each time: the
  order is an argument, any list with the entries of \<open>equipmentAliases\<close>.
\<close>

definition rx_space :: "rune \<Rightarrow> bool" where
  "rx_space r \<longleftrightarrow> r \<in> {9, 10, 12, 13, 32}"

definition rx_char :: "rune \<Rightarrow> item" where
  "rx_char c = Item (\<lambda>r. r = c) 1 (Some 1) False"

definition ansiRegex :: regex where
  "ansiRegex =
     [rx_char 27, rx_char 91, Item (\<lambda>r. is_digit r \<or> r = 59) 0 None False,
      Item (\<lambda>r. 65 \<le> r \<and> r \<le> 90 \<or> 97 \<le> r \<and> r \<le> 122) 1 (Some 1) False]"

definition spaces :: "nat \<Rightarrow> item" where
  "spaces n = Item rx_space n None False"

definition number :: item where
  "number = Item is_digit 1 None True"

definition promptRegex :: regex where
  "promptRegex =
     [rx_char 40, spaces 0, number, spaces 0, rx_char 47, spaces 0, number,
      spaces 1, number, spaces 0, rx_char 47, spaces 0, number,
      spaces 1, number, spaces 0, rx_char 47, spaces 0, number,
      spaces 1, number, spaces 1, rx_char 124, spaces 0, rx_char 41]"

definition tagRegex :: regex where
  "tagRegex = [rx_char 40, Item (\<lambda>r. r \<noteq> 40 \<and> r \<noteq> 41) 1 (Some 64) True, rx_char 41]"

definition knownStatusTags :: "(str \<times> str) list" where
  "knownStatusTags =
    [([1073, 1077, 1083, 1072, 1103, 32, 1072, 1091, 1088, 1072],
      [1041, 1077, 1083, 1072, 1103, 32, 1040, 1091, 1088, 1072]),
     ([1089, 1077, 1088, 1072, 1103, 32, 1072, 1091, 1088, 1072],
      [1057, 1077, 1088, 1072, 1071, 32, 1040, 1091, 1088, 1072]),
     ([1082, 1088, 1072, 1089, 1085, 1072, 1103, 32, 1072, 1091, 1088, 1072],
      [1050, 1088, 1072, 1089, 1085, 1072, 1103, 32, 1040, 1091, 1088, 1072]),
     ([1074, 32, 1087, 1086, 1083, 1077, 1090, 1077],
      [1042, 32, 1087, 1086, 1083, 1077, 1090, 1077]),
     ([1087, 1083, 1072, 1074, 1072, 1077, 1090],
      [1055, 1083, 1072, 1074, 1072, 1077, 1090]),
     ([1089, 1074, 1077, 1090, 1080, 1090, 1089, 1103],
      [1057, 1074, 1077, 1090, 1080, 1090, 1089, 1103]),
     ([1074, 1086, 1083, 1096, 1077, 1073, 1085, 1086, 1077],
      [1042, 1086, 1083, 1096, 1077, 1073, 1085, 1086, 1077])]"

definition equipmentAliases :: "(str \<times> str list) list" where
  "equipmentAliases =
    [(lit ''head'', [lit ''head'', [1075, 1086, 1083, 1086, 1074, 1072],
      [1085, 1072, 32, 1075, 1086, 1083, 1086, 1074, 1077]]),
     (lit ''neck'', [lit ''neck'', [1096, 1077, 1103], [1085, 1072, 32, 1096, 1077, 1077]]),
     (lit ''body'', [lit ''body'', [1090, 1077, 1083, 1086], [1090, 1091, 1083, 1086, 1074, 1080, 1097, 1077],
      [1085, 1072, 32, 1090, 1077, 1083, 1077]]),
     (lit ''fingers'', [lit ''fingers'', lit ''finger'', [1087, 1072, 1083, 1077, 1094],
      [1087, 1072, 1083, 1100, 1094, 1099],
      [1085, 1072, 32, 1087, 1072, 1083, 1100, 1094, 1077]]),
     (lit ''arms'', [lit ''arms'', lit ''arm'', [1088, 1091, 1082, 1072], [1088, 1091, 1082, 1080],
      [1085, 1072, 32, 1088, 1091, 1082, 1072, 1093]]),
     (lit ''shoulders'', [lit ''shoulders'', [1087, 1083, 1077, 1095, 1086], [1087, 1083, 1077, 1095, 1080],
      [1085, 1072, 32, 1087, 1083, 1077, 1095, 1072, 1093]]),
     (lit ''legs'', [lit ''legs'', [1085, 1086, 1075, 1072], [1085, 1086, 1075, 1080],
      [1085, 1072, 32, 1085, 1086, 1075, 1072, 1093]]),
     (lit ''wrist'', [lit ''wrist'', [1079, 1072, 1087, 1103, 1089, 1090, 1100, 1077],
      [1079, 1072, 1087, 1103, 1089, 1090, 1100, 1103, 1093],
      [1085, 1072, 32, 1079, 1072, 1087, 1103, 1089, 1090, 1100, 1077]]),
     (lit ''shield'', [lit ''shield'', [1097, 1080, 1090], [1097, 1080, 1090, 1077]]),
     (lit ''wield'', [lit ''wield'', lit ''wielded'', [1086, 1088, 1091, 1078, 1080, 1077],
      [1074, 32, 1087, 1088, 1072, 1074, 1086, 1081, 32, 1088, 1091, 1082, 1077],
      [1074, 32, 1083, 1077, 1074, 1086, 1081, 32, 1088, 1091, 1082, 1077]]),
     (lit ''held'', [lit ''held'', [1076, 1077, 1088, 1078, 1080, 1090],
      [1074, 32, 1088, 1091, 1082, 1072, 1093]])]"

record prompt_tuple =
  HPCurrent :: int
  HPMax :: int
  MACurrent :: int
  MAMax :: int
  MVCurrent :: int
  MVMax :: int
  EXP :: int

type_synonym equipment = "str \<rightharpoonup> str"

record snapshot =
  sn_SessionID :: str
  sn_Location :: str
  sn_Prompt :: "prompt_tuple option"
  sn_StatusTags :: "str list"
  sn_Equipment :: equipment
  sn_UpdatedAt :: str

record delta =
  d_Location :: str
  d_Prompt :: "prompt_tuple option"
  d_StatusTags :: "str list"
  d_Equipment :: equipment

definition no_delta :: delta where
  "no_delta = \<lparr>d_Location = [], d_Prompt = None, d_StatusTags = [], d_Equipment = Map.empty\<rparr>"

definition Empty :: "delta \<Rightarrow> bool" where
  "Empty d \<longleftrightarrow> d_Location d = [] \<and> d_Prompt d = None \<and> length (d_StatusTags d) = 0
     \<and> d_Equipment d = Map.empty"

definition normalizeText :: "str \<Rightarrow> str" where
  "normalizeText s = replace_all [13, 10] [10] (delete_all ansiRegex s)"

subsection \<open>The prompt\<close>

fun all_some :: "'a option list \<Rightarrow> 'a list option" where
  "all_some [] = Some []"
| "all_some (None # xs) = None"
| "all_some (Some x # xs) = map_option (Cons x) (all_some xs)"

definition parsePrompt :: "str \<Rightarrow> prompt_tuple option" where
  "parsePrompt s =
     (let matches = find_all promptRegex s
      in if matches = [] then None
         else case all_some (map Atoi (last matches)) of
           Some [v0, v1, v2, v3, v4, v5, v6] \<Rightarrow>
             Some \<lparr>HPCurrent = v0, HPMax = v1, MACurrent = v2, MAMax = v3, MVCurrent = v4,
                   MVMax = v5, EXP = v6\<rparr>
         | _ \<Rightarrow> None)"

subsection \<open>Status tags\<close>

fun collect_tags :: "str list list \<Rightarrow> str list \<Rightarrow> str list" where
  "collect_tags [] tags = tags"
| "collect_tags (match # matches) tags =
     (case match of
        [] \<Rightarrow> collect_tags matches tags
      | m # _ \<Rightarrow>
          (case map_of knownStatusTags (to_lower (trim_space m)) of
             None \<Rightarrow> collect_tags matches tags
           | Some canonical \<Rightarrow>
               if canonical \<in> set tags then collect_tags matches tags
               else collect_tags matches (tags @ [canonical])))"

definition parseStatusTags :: "str \<Rightarrow> str list" where
  "parseStatusTags s =
     (let matches = find_all tagRegex s
      in if matches = [] then [] else sort (collect_tags matches []))"

subsection \<open>Equipment\<close>

definition parseEquipmentLine :: "str \<Rightarrow> (str \<times> str) option" where
  "parseEquipmentLine l =
     (let line = trim_space l in
      if line = [] \<or> has_prefix line [35] then None
      else
        let bracketed =
          (if has_prefix line [91] then
             (case index_of line [93] of
                Some idx \<Rightarrow>
                  if idx > 1 then Some (trim_space (drop 1 (take idx line)), trim_space (drop (Suc idx) line))
                  else None
              | None \<Rightarrow> None)
           else None)
        in case bracketed of
             Some r \<Rightarrow> Some r
           | None \<Rightarrow>
               (case split_n2 58 line of
                  [a, b] \<Rightarrow>
                    let label = trim_space a; item = trim_space b
                    in if label = [] \<or> item = [] then None else Some (label, item)
                | _ \<Rightarrow> None))"

type_synonym alias_order = "(str \<times> str list) list"

fun normalizeEquipmentSlot :: "alias_order \<Rightarrow> str \<Rightarrow> str" where
  "normalizeEquipmentSlot [] label = []"
| "normalizeEquipmentSlot ((slot, aliases) # order) label =
     (if \<exists>alias \<in> set aliases. contains (to_lower (trim_space label)) alias then slot
      else normalizeEquipmentSlot order label)"

definition no_item :: "str \<Rightarrow> bool" where
  "no_item item \<longleftrightarrow> item = [] \<or> equal_fold item (lit ''none'') \<or> equal_fold item (lit ''nothing'')
     \<or> contains (to_lower item) [1085, 1080, 1095, 1077, 1075, 1086]"

text \<open>The loop over the lines; each line has its own order of the map.\<close>

fun equip_lines :: "(nat \<Rightarrow> alias_order) \<Rightarrow> str list \<Rightarrow> equipment \<Rightarrow> equipment" where
  "equip_lines orders [] equipment = equipment"
| "equip_lines orders (line # lines) equipment =
     (let next = equip_lines (\<lambda>i. orders (Suc i)) lines in
      case parseEquipmentLine line of
        None \<Rightarrow> next equipment
      | Some (label, item) \<Rightarrow>
          let slot = normalizeEquipmentSlot (orders 0) label
          in if slot = [] then next equipment
             else if no_item item then next equipment
             else next (equipment(slot \<mapsto> item)))"

definition parseEquipment :: "(nat \<Rightarrow> alias_order) \<Rightarrow> str \<Rightarrow> equipment" where
  "parseEquipment orders s = equip_lines orders (split_on 10 s) Map.empty"

subsection \<open>Location\<close>

text \<open>\<open>len\<close> counts the bytes of a line.\<close>

definition isLikelyLocation :: "str \<Rightarrow> bool" where
  "isLikelyLocation line =
     (if utf8_len line < 3 \<or> utf8_len line > 120 then False
      else if has_suffix line [46] then False
      else
        let lower = to_lower line
        in if contains lower [1091, 1088, 1086, 1085] \<or> contains lower [1072, 1091, 1082, 1094, 1080, 1086, 1085] then False
           else \<not> (\<exists>r \<in> set line. r = 47 \<or> r = 124))"

fun location_of :: "str list \<Rightarrow> str" where
  "location_of [] = []"
| "location_of (l # lines) =
     (let line = trim_space l in
      if line = [] then location_of lines
      else if has_prefix line [35] then location_of lines
      else if match_string promptRegex line then location_of lines
      else if has_prefix line [40] \<and> contains line [41] then location_of lines
      else if contains line [58] then
        (if contains (to_lower line) [1074, 1099, 1093, 1086, 1076] \<or> contains (to_lower line) (lit ''exits'')
         then location_of lines else location_of lines)
      else if isLikelyLocation line then line
      else location_of lines)"

definition parseLocation :: "str \<Rightarrow> str" where
  "parseLocation s = location_of (split_on 10 s)"

subsection \<open>Parse\<close>

definition Parse :: "(nat \<Rightarrow> alias_order) \<Rightarrow> str \<Rightarrow> delta" where
  "Parse orders s =
     (let cleaned = normalizeText s
      in if trim_space cleaned = [] then no_delta
         else \<lparr>d_Location = parseLocation cleaned, d_Prompt = parsePrompt cleaned,
               d_StatusTags = parseStatusTags cleaned, d_Equipment = parseEquipment orders cleaned\<rparr>)"

end
