(* ===== verification/ParserSpec.thy ===== *)
theory ParserSpec
  imports Parser "HOL-Library.Multiset"
begin

text \<open>
  What the parser finds: the escape sequences it removes, the prompt, exactly which status tags, how
  far the slot of an item depends on the order of a map, and what every delta looks like.
\<close>

lemmas rx_defs = rx_space_def rx_char_def spaces_def number_def is_digit_def

lemma opened_prompt: "opened_by 40 promptRegex"
  by (auto simp: opened_by_def promptRegex_def rx_defs)

lemma opened_tag: "opened_by 40 tagRegex"
  by (auto simp: opened_by_def tagRegex_def rx_defs)

lemma opened_ansi: "opened_by 27 ansiRegex"
  by (auto simp: opened_by_def ansiRegex_def rx_defs)

subsection \<open>Escape sequences\<close>

datatype screen_item = Shown str | Escape str rune

fun screen_text :: "screen_item \<Rightarrow> str" where
  "screen_text (Shown s) = s"
| "screen_text (Escape params final) = [27, 91] @ params @ [final]"

fun shown :: "screen_item \<Rightarrow> str" where
  "shown (Shown s) = s"
| "shown (Escape params final) = []"

fun screen_ok :: "screen_item \<Rightarrow> bool" where
  "screen_ok (Shown s) = (27 \<notin> set s)"
| "screen_ok (Escape params final) =
     ((\<forall>r \<in> set params. is_digit r \<or> r = 59)
      \<and> (65 \<le> final \<and> final \<le> 90 \<or> 97 \<le> final \<and> final \<le> 122))"

lemma match_escape:
  assumes "screen_ok (Escape params final)"
  shows "match_here ansiRegex (screen_text (Escape params final) @ rest) = Some ([], rest)"
proof -
  let ?ws = "[[27], [91], params, [final]]"
  have "list_all2 fits ansiRegex ?ws" using assms by (simp add: ansiRegex_def fits_def rx_defs)
  moreover have "blocked ansiRegex ?ws rest"
    using assms by (auto simp: ansiRegex_def rx_defs)
  moreover have "captures ansiRegex ?ws = []" by (simp add: ansiRegex_def rx_char_def)
  ultimately show ?thesis using match_here_pieces [of ansiRegex ?ws rest] by simp
qed

lemma delete_screen:
  "\<forall>i \<in> set items. screen_ok i \<Longrightarrow>
     delete_all ansiRegex (concat (map screen_text items)) = concat (map shown items)"
proof (induction items)
  case (Cons i items)
  show ?case
  proof (cases i)
    case (Shown s)
    with Cons show ?thesis by (simp add: delete_all_absent [OF opened_ansi])
  next
    case (Escape params final)
    with Cons delete_all_match [OF opened_ansi match_escape [of params final]] show ?thesis by simp
  qed
qed simp

text \<open>
  Escape sequences are removed, and nothing else. For a text made of runs without the escape
  character and of sequences \<open>ESC [ parameters letter\<close>, in any order, the parser sees exactly the
  runs, with their line ends normalised.
\<close>

lemma escapes_removed:
  assumes "\<forall>i \<in> set items. screen_ok i"
  shows "normalizeText (concat (map screen_text items)) = replace_all [13, 10] [10] (concat (map shown items))"
  using assms by (simp add: normalizeText_def delete_screen)

subsection \<open>The prompt\<close>

text \<open>The pieces of a prompt: twelve runs of white space and seven numbers.\<close>

definition prompt_pieces :: "(nat \<Rightarrow> str) \<Rightarrow> (nat \<Rightarrow> str) \<Rightarrow> str list" where
  "prompt_pieces w d =
     [[40], w 0, d 0, w 1, [47], w 2, d 1, w 3, d 2, w 4, [47], w 5, d 3, w 6, d 4, w 7, [47], w 8,
      d 5, w 9, d 6, w 10, [124], w 11, [41]]"

definition white :: "str \<Rightarrow> bool" where
  "white s \<longleftrightarrow> (\<forall>r \<in> set s. rx_space r)"

definition decimal :: "str \<Rightarrow> bool" where
  "decimal s \<longleftrightarrow> s \<noteq> [] \<and> (\<forall>r \<in> set s. is_digit r)"

definition prompt_ok :: "(nat \<Rightarrow> str) \<Rightarrow> (nat \<Rightarrow> str) \<Rightarrow> bool" where
  "prompt_ok w d \<longleftrightarrow>
     (\<forall>i < 12. white (w i)) \<and> w 3 \<noteq> [] \<and> w 6 \<noteq> [] \<and> w 9 \<noteq> [] \<and> w 10 \<noteq> [] \<and> (\<forall>i < 7. decimal (d i))"

lemma fits_prompt:
  "white s \<Longrightarrow> n \<le> length s \<Longrightarrow> fits (spaces n) s"
  "decimal s \<Longrightarrow> fits number s"
  "fits (rx_char c) [c]"
  by (auto simp: fits_def spaces_def number_def rx_char_def white_def decimal_def Suc_le_eq)

lemma hd_white: "white w \<Longrightarrow> \<not> is_digit c \<Longrightarrow> \<not> is_digit (hd (w @ c # s))"
  by (cases w) (auto simp: white_def rx_space_def is_digit_def)

lemma hd_white_digit: "white w \<Longrightarrow> w \<noteq> [] \<Longrightarrow> \<not> is_digit (hd w)"
  by (cases w) (auto simp: white_def rx_space_def is_digit_def)

lemma hd_number: "decimal d \<Longrightarrow> \<not> rx_space (hd (d @ s))"
  by (cases d) (auto simp: decimal_def rx_space_def is_digit_def)

lemma match_prompt:
  assumes "prompt_ok w d"
  shows "match_here promptRegex (concat (prompt_pieces w d) @ rest)
       = Some ([d 0, d 1, d 2, d 3, d 4, d 5, d 6], rest)"
proof -
  have W: "\<And>i. i < 12 \<Longrightarrow> white (w i)" and N: "w 3 \<noteq> []" "w 6 \<noteq> []" "w 9 \<noteq> []" "w 10 \<noteq> []"
    and D: "\<And>i. i < 7 \<Longrightarrow> decimal (d i)"
    using assms by (auto simp: prompt_ok_def)
  have fit: "list_all2 fits promptRegex (prompt_pieces w d)"
    using W N D by (simp add: promptRegex_def prompt_pieces_def fits_prompt Suc_le_eq)
  have sp: "\<not> rx_space 47" "\<not> rx_space 124" "\<not> rx_space 41" "\<not> is_digit 47" by (simp_all add: rx_defs)
  have "blocked promptRegex (prompt_pieces w d) rest"
    using sp W N D
    by (simp add: promptRegex_def prompt_pieces_def rx_char_def spaces_def number_def
        hd_number hd_white hd_white_digit del: hd_append)
  moreover have "captures promptRegex (prompt_pieces w d) = [d 0, d 1, d 2, d 3, d 4, d 5, d 6]"
    by (simp add: promptRegex_def prompt_pieces_def rx_char_def spaces_def number_def)
  ultimately show ?thesis using match_here_pieces [OF fit] by simp
qed

lemma all_less_7: "(\<forall>i < 7. P (i :: nat)) \<longleftrightarrow> P 0 \<and> P 1 \<and> P 2 \<and> P 3 \<and> P 4 \<and> P 5 \<and> P 6"
proof -
  have "i < 7 \<longleftrightarrow> i = 0 \<or> i = 1 \<or> i = 2 \<or> i = 3 \<or> i = 4 \<or> i = 5 \<or> i = 6" for i :: nat by linarith
  then show ?thesis by auto
qed

text \<open>
  C17. The last prompt of a text is found. Whatever precedes it, parentheses and other prompts
  included, a prompt with any numbers and any white space where the pattern allows it is parsed when
  no opening parenthesis follows: to its seven numbers in order, or to no prompt at all when one of
  them does not fit the 64-bit \<open>int\<close>.
\<close>

theorem last_prompt_parsed:
  assumes "prompt_ok w d" and "40 \<notin> set post"
  shows "parsePrompt (pre @ concat (prompt_pieces w d) @ post) =
     (if \<forall>i < 7. digits_value (d i) < 2 ^ 63
      then Some \<lparr>HPCurrent = int (digits_value (d 0)), HPMax = int (digits_value (d 1)),
             MACurrent = int (digits_value (d 2)), MAMax = int (digits_value (d 3)),
             MVCurrent = int (digits_value (d 4)), MVMax = int (digits_value (d 5)),
             EXP = int (digits_value (d 6))\<rparr>
      else None)"
proof -
  let ?caps = "[d 0, d 1, d 2, d 3, d 4, d 5, d 6]"
  obtain v where v: "concat (prompt_pieces w d) = 40 # v" by (simp add: prompt_pieces_def)
  have "find_all promptRegex (concat (prompt_pieces w d) @ post) = [?caps]"
    using find_all_match [OF opened_prompt match_prompt [OF assms(1)]]
    by (simp add: find_all_absent [OF opened_prompt assms(2)])
  then obtain before where
    f: "find_all promptRegex (pre @ concat (prompt_pieces w d) @ post) = before @ [?caps]"
    using find_all_at [OF opened_prompt, of pre "v @ post"] v by auto
  have sg: "Atoi (d i) = (if digits_value (d i) < 2 ^ 63 then Some (int (digits_value (d i))) else None)"
    if "i < 7" for i
  proof -
    have "decimal (d i)" using assms(1) that by (simp add: prompt_ok_def)
    then show ?thesis
      by (cases "d i") (auto simp: Atoi_def signed_def decimal_def is_digit_def list_all_iff)
  qed
  show ?thesis
    unfolding all_less_7 by (simp add: parsePrompt_def f sg del: One_nat_def)
qed

theorem last_prompt_parsed_witness:
  "parsePrompt (lit ''(5) (120/150 88/90 60/77 4512 | ) ok'') =
     Some \<lparr>HPCurrent = 120, HPMax = 150, MACurrent = 88, MAMax = 90, MVCurrent = 60, MVMax = 77, EXP = 4512\<rparr>"
proof -
  let ?w = "\<lambda>i::nat. if i \<in> {3, 6, 9, 10, 11} then [32] else ([] :: str)"
  let ?d = "\<lambda>i::nat. [lit ''120'', lit ''150'', lit ''88'', lit ''90'', lit ''60'', lit ''77'', lit ''4512''] ! i"
  have ok: "prompt_ok ?w ?d"
    by (auto simp: prompt_ok_def white_def decimal_def rx_space_def is_digit_def less_Suc_eq numeral_eq_Suc)
  show ?thesis
    using last_prompt_parsed [OF ok, of "lit '' ok''" "lit ''(5) ''"]
    unfolding all_less_7 by (simp add: prompt_pieces_def digits_value_def)
qed


subsection \<open>Status tags\<close>

definition tag_text :: "str \<Rightarrow> bool" where
  "tag_text m \<longleftrightarrow> 40 \<notin> set m \<and> 41 \<notin> set m \<and> 1 \<le> length m \<and> length m \<le> 64"

lemma fits_char: "fits (rx_char c) w \<longleftrightarrow> w = [c]"
  by (cases w) (auto simp: fits_def rx_char_def)

lemma match_tag:
  assumes "tag_text m"
  shows "match_here tagRegex (40 # m @ 41 # rest) = Some ([m], rest)"
proof -
  let ?ws = "[[40], m, [41]]"
  have "list_all2 fits tagRegex ?ws" using assms
    by (auto simp: tagRegex_def rx_char_def fits_def tag_text_def)
  moreover have "blocked tagRegex ?ws rest" by (simp add: tagRegex_def rx_char_def)
  moreover have "captures tagRegex ?ws = [m]" by (simp add: tagRegex_def rx_char_def)
  ultimately show ?thesis using match_here_pieces [of tagRegex ?ws rest] by simp
qed

lemma match_tag_sound:
  assumes "match_here tagRegex s = Some (caps, rest)"
  shows "\<exists>m. caps = [m] \<and> tag_text m \<and> s = 40 # m @ 41 # rest"
proof -
  from match_here_sound [OF assms] obtain ws where ws: "list_all2 fits tagRegex ws"
    "s = concat ws @ rest" "caps = captures tagRegex ws" by blast
  then obtain a m b where "ws = [a, m, b]" "fits (rx_char 40) a" "fits (rx_char 41) b"
    "fits (Item (\<lambda>r. r \<noteq> 40 \<and> r \<noteq> 41) 1 (Some 64) True) m"
    by (auto simp: tagRegex_def list_all2_Cons1)
  moreover from this have "a = [40]" "b = [41]" by (simp_all add: fits_char)
  ultimately show ?thesis using ws by (auto simp: tagRegex_def rx_char_def fits_def tag_text_def)
qed

lemma find_tags_sound:
  "caps \<in> set (find_all tagRegex s) \<Longrightarrow> \<exists>m pre post. caps = [m] \<and> tag_text m \<and> s = pre @ 40 # m @ 41 # post"
proof (induction s rule: length_induct)
  case (1 s)
  have later: ?case if "s = u @ t" "u \<noteq> []" "caps \<in> set (find_all tagRegex t)" for u t
  proof -
    have "length t < length s" using that(1,2) by simp
    from 1(1) [rule_format, OF this that(3)] obtain m pre post
      where "caps = [m]" "tag_text m" "t = pre @ 40 # m @ 41 # post" by blast
    moreover from this have "s = (u @ pre) @ 40 # m @ 41 # post" by (simp add: that(1))
    ultimately show ?thesis by blast
  qed
  show ?case
  proof (cases "match_here tagRegex s")
    case None
    then show ?thesis using 1(2) later [of "[hd s]" "tl s"] by (cases s) (simp_all add: find_all_skip)
  next
    case (Some p)
    then obtain caps1 rest where m: "match_here tagRegex s = Some (caps1, rest)" by (cases p) auto
    from match_tag_sound [OF m] obtain u where u: "caps1 = [u]" "tag_text u" "s = 40 # u @ 41 # rest"
      by blast
    from 1(2) find_all_match [OF opened_tag m] consider "caps = [u]" | "caps \<in> set (find_all tagRegex rest)"
      using u(1) by auto
    then show ?thesis
      using u later [of "40 # u @ [41]" rest] by cases (auto intro: exI [of _ "[]"])
  qed
qed

lemma find_tags:
  "set (find_all tagRegex s) = {[m] |m. tag_text m \<and> (\<exists>pre post. s = pre @ 40 # m @ 41 # post)}"
proof (intro set_eqI iffI)
  fix caps
  assume "caps \<in> {[m] |m. tag_text m \<and> (\<exists>pre post. s = pre @ 40 # m @ 41 # post)}"
  then obtain m pre post where m: "caps = [m]" "tag_text m" "s = pre @ 40 # m @ 41 # post" by blast
  obtain before where "find_all tagRegex s = before @ find_all tagRegex (40 # m @ 41 # post)"
    using find_all_at [OF opened_tag] m(3) by blast
  with m(1) find_all_match [OF opened_tag match_tag [OF m(2)]] show "caps \<in> set (find_all tagRegex s)"
    by simp
qed (use find_tags_sound in blast)

lemma collect_tags_set:
  "set (collect_tags matches tags) = set tags \<union>
     {t. \<exists>m ms. m # ms \<in> set matches \<and> map_of knownStatusTags (to_lower (trim_space m)) = Some t}"
  "distinct tags \<Longrightarrow> distinct (collect_tags matches tags)"
  by (induction matches tags rule: collect_tags.induct) (auto split: list.splits option.splits if_splits)

text \<open>
  C18. Exactly the known tags that stand in parentheses. A canonical tag is reported precisely when
  somewhere in the text a pair of parentheses encloses, without further parentheses, one to 64 runes
  that are a known tag up to case and surrounding white space. The list is strictly ascending: sorted
  and without repetitions.
\<close>

theorem tags_exact:
  "set (parseStatusTags s) =
     {t. \<exists>pre m post. s = pre @ [40] @ m @ [41] @ post \<and> tag_text m
           \<and> map_of knownStatusTags (to_lower (trim_space m)) = Some t}
   \<and> sorted_wrt (<) (parseStatusTags s)"
proof -
  have tags: "parseStatusTags s = sort (collect_tags (find_all tagRegex s) [])"
    by (simp add: parseStatusTags_def Let_def)
  have "distinct (collect_tags (find_all tagRegex s) [])" by (simp add: collect_tags_set(2))
  then have "sorted_wrt (<) (parseStatusTags s)" by (simp add: tags strict_sorted_iff)
  moreover have "set (parseStatusTags s) =
      {t. \<exists>m ms. m # ms \<in> set (find_all tagRegex s) \<and> map_of knownStatusTags (to_lower (trim_space m)) = Some t}"
    by (simp add: tags collect_tags_set(1))
  ultimately show ?thesis by (simp add: find_tags) blast
qed

subsection \<open>Equipment slots\<close>

definition slot_matches :: "str \<Rightarrow> str set" where
  "slot_matches label =
     set (map fst (filter (\<lambda>(slot, aliases). list_ex (contains (to_lower (trim_space label))) aliases)
       equipmentAliases))"

lemma slot_matches_iff:
  "slot \<in> slot_matches label \<longleftrightarrow>
     (\<exists>aliases. (slot, aliases) \<in> set equipmentAliases
        \<and> (\<exists>alias \<in> set aliases. contains (to_lower (trim_space label)) alias))"
  by (force simp: slot_matches_def list_ex_iff)

lemma slot_first:
  "normalizeEquipmentSlot order label = [] \<and>
     (\<forall>(slot, aliases) \<in> set order. slot \<noteq> [] \<longrightarrow>
        \<not> (\<exists>alias \<in> set aliases. contains (to_lower (trim_space label)) alias))
   \<or> (\<exists>aliases. (normalizeEquipmentSlot order label, aliases) \<in> set order
        \<and> (\<exists>alias \<in> set aliases. contains (to_lower (trim_space label)) alias))"
  by (induction order label rule: normalizeEquipmentSlot.induct) auto

lemma slots_named: "(slot, aliases) \<in> set equipmentAliases \<Longrightarrow> slot \<noteq> []"
  by (auto simp: equipmentAliases_def)

lemma slot_taken:
  assumes "mset order = mset equipmentAliases"
  shows "normalizeEquipmentSlot order label \<in> (if slot_matches label = {} then {[]} else slot_matches label)"
proof -
  have same: "set order = set equipmentAliases" using assms by (rule mset_eq_setD)
  have "normalizeEquipmentSlot order label = [] \<and> slot_matches label = {}
      \<or> normalizeEquipmentSlot order label \<in> slot_matches label"
    using slot_first [of order label] slots_named unfolding same slot_matches_iff set_eq_iff by blast
  then show ?thesis by auto
qed

lemma slot_reached:
  assumes "slot \<in> slot_matches label"
  shows "\<exists>order. mset order = mset equipmentAliases \<and> normalizeEquipmentSlot order label = slot"
proof -
  obtain aliases where a: "(slot, aliases) \<in> set equipmentAliases"
    "\<exists>alias \<in> set aliases. contains (to_lower (trim_space label)) alias"
    using assms by (auto simp: slot_matches_iff)
  then show ?thesis
    by (intro exI [of _ "(slot, aliases) # remove1 (slot, aliases) equipmentAliases"]) simp
qed

text \<open>
  C39. What the order of the map decides. Over all orders in which the runtime can walk
  \<open>equipmentAliases\<close>, the slots \<open>normalizeEquipmentSlot\<close> can return for a label are exactly those
  with an alias in the label (no slot when there is none). So the slot is a function of the label
  when one slot at most matches, and depends on chance otherwise, as for the label that is the alias
  of \<open>held\<close>: it contains an alias of \<open>arms\<close> too.
\<close>

theorem slot_choice:
  "{normalizeEquipmentSlot order label |order. mset order = mset equipmentAliases}
     = (if slot_matches label = {} then {[]} else slot_matches label)
   \<and> slot_matches [1074, 32, 1088, 1091, 1082, 1072, 1093] = {lit ''arms'', lit ''held''}"
proof -
  have "{normalizeEquipmentSlot order label |order. mset order = mset equipmentAliases}
      = (if slot_matches label = {} then {[]} else slot_matches label)"
  proof (cases "slot_matches label = {}")
    case True
    with slot_taken [of _ label] show ?thesis by (auto intro!: exI [of _ equipmentAliases])
  next
    case False
    with slot_taken [of _ label]
    have "normalizeEquipmentSlot order label \<in> slot_matches label" if "mset order = mset equipmentAliases" for order
      using that by simp
    with False show ?thesis by auto (metis slot_reached)
  qed
  moreover have "slot_matches [1074, 32, 1088, 1091, 1082, 1072, 1093] = {lit ''arms'', lit ''held''}"
    by code_simp
  ultimately show ?thesis by (rule conjI)
qed

end
