(* ===== verification/Json.thy ===== *)
theory Json
  imports Prelude GoStrings
begin

text \<open>
  What the program uses of \<open>encoding/json\<close>: values, the compact text \<open>json.Marshal\<close> prints, and
  the reader. The reader works as the package's scanner does, a machine over tokens with a stack of
  open arrays and objects, so it needs no bound on the nesting. The main fact is the round trip:
  what is printed is read back.
\<close>

datatype json =
    JNull
  | JBool bool
  | JNum str
  | JStr str
  | JArr "json list"
  | JObj "(str \<times> json) list"

subsection \<open>Printing\<close>

definition hex_digit :: "int \<Rightarrow> rune" where
  "hex_digit n = (if n < 10 then 48 + n else 87 + n)"

definition u_escape :: "int \<Rightarrow> str" where
  "u_escape r =
     [92, 117, hex_digit (r div 4096), hex_digit (r div 256 mod 16), hex_digit (r div 16 mod 16),
      hex_digit (r mod 16)]"

text \<open>
  The escapes of \<open>json.Marshal\<close> (Go 1.22), the HTML characters included; a rune that is no
  Unicode scalar value is printed as U+FFFD.
\<close>

definition scalar :: "rune \<Rightarrow> bool" where
  "scalar r \<longleftrightarrow> 0 \<le> r \<and> r \<le> 1114111 \<and> \<not> (55296 \<le> r \<and> r \<le> 57343)"

definition escape :: "rune \<Rightarrow> str" where
  "escape r =
     (if r = 34 then [92, 34]
      else if r = 92 then [92, 92]
      else if r = 8 then [92, 98]
      else if r = 12 then [92, 102]
      else if r = 10 then [92, 110]
      else if r = 13 then [92, 114]
      else if r = 9 then [92, 116]
      else if 0 \<le> r \<and> r < 32 \<or> r \<in> {60, 62, 38, 8232, 8233} then u_escape r
      else if scalar r then [r]
      else u_escape 65533)"

definition print_string :: "str \<Rightarrow> str" where
  "print_string s = [34] @ concat (map escape s) @ [34]"

fun sep_by :: "str list \<Rightarrow> str" where
  "sep_by [] = []"
| "sep_by [x] = x"
| "sep_by (x # xs) = x @ [44] @ sep_by xs"

fun print_json :: "json \<Rightarrow> str" where
  "print_json JNull = lit ''null''"
| "print_json (JBool b) = (if b then lit ''true'' else lit ''false'')"
| "print_json (JNum s) = s"
| "print_json (JStr s) = print_string s"
| "print_json (JArr vs) = [91] @ sep_by (map print_json vs) @ [93]"
| "print_json (JObj ms) =
     [123] @ sep_by (map (\<lambda>(k, v). print_string k @ [58] @ print_json v) ms) @ [125]"

subsection \<open>Tokens\<close>

datatype token = TLBrace | TRBrace | TLBracket | TRBracket | TComma | TColon | TNull | TBool bool
  | TNum str | TStr str

definition hex_value :: "rune \<Rightarrow> int option" where
  "hex_value c =
     (if 48 \<le> c \<and> c \<le> 57 then Some (c - 48)
      else if 97 \<le> c \<and> c \<le> 102 then Some (c - 87)
      else if 65 \<le> c \<and> c \<le> 70 then Some (c - 55)
      else None)"

fun hex4 :: "str \<Rightarrow> (int \<times> str) option" where
  "hex4 (a # b # c # d # s) =
     (case (hex_value a, hex_value b, hex_value c, hex_value d) of
        (Some w, Some x, Some y, Some z) \<Rightarrow> Some (w * 4096 + x * 256 + y * 16 + z, s)
      | _ \<Rightarrow> None)"
| "hex4 _ = None"

lemma hex4_length [simp]: "hex4 s = Some (r, t) \<Longrightarrow> length t < length s"
  by (cases s rule: hex4.cases) (auto split: option.splits)

text \<open>
  After \<open>\\u\<close>: a surrogate pair is one rune, a surrogate alone is U+FFFD.
\<close>

definition read_u :: "str \<Rightarrow> (rune \<times> str) option" where
  "read_u s =
     (case hex4 s of
        None \<Rightarrow> None
      | Some (r, t) \<Rightarrow>
          if 55296 \<le> r \<and> r \<le> 57343 then
            (case t of
               a # b # t1 \<Rightarrow>
                 if a = 92 \<and> b = 117 \<and> r \<le> 56319 then
                   (case hex4 t1 of
                      Some (r2, t2) \<Rightarrow>
                        if 56320 \<le> r2 \<and> r2 \<le> 57343
                        then Some (65536 + (r - 55296) * 1024 + (r2 - 56320), t2)
                        else Some (65533, t)
                    | None \<Rightarrow> Some (65533, t))
                 else Some (65533, t)
             | _ \<Rightarrow> Some (65533, t))
          else Some (r, t))"

lemma read_u_length: "read_u s = Some (r, t) \<Longrightarrow> length t < length s"
  unfolding read_u_def
  by (auto split: option.splits prod.splits if_splits list.splits dest!: hex4_length)

definition read_escape :: "str \<Rightarrow> (rune \<times> str) option" where
  "read_escape s =
     (case s of
        [] \<Rightarrow> None
      | e # t \<Rightarrow>
          if e \<in> {34, 92, 47} then Some (e, t)
          else if e = 98 then Some (8, t)
          else if e = 102 then Some (12, t)
          else if e = 110 then Some (10, t)
          else if e = 114 then Some (13, t)
          else if e = 116 then Some (9, t)
          else if e = 117 then read_u t
          else None)"

lemma read_escape_length: "read_escape s = Some (r, t) \<Longrightarrow> length t < length s"
  unfolding read_escape_def
  by (auto split: list.splits if_splits dest!: read_u_length)

function read_string :: "str \<Rightarrow> (str \<times> str) option" where
  "read_string s =
     (case s of
        [] \<Rightarrow> None
      | c # t \<Rightarrow>
          if c = 34 then Some ([], t)
          else if c = 92 then
            (case read_escape t of
               None \<Rightarrow> None
             | Some (r, u) \<Rightarrow> map_option (\<lambda>(w, rest). (r # w, rest)) (read_string u))
          else if c < 32 then None
          else map_option (\<lambda>(w, rest). (c # w, rest)) (read_string t))"
  by pat_completeness auto
termination
  by (relation "measure length") (auto dest: read_escape_length [OF sym] read_escape_length)

declare read_string.simps [simp del]

lemma read_string_Nil [simp]: "read_string [] = None"
  by (simp add: read_string.simps)

lemma read_string_Cons:
  "read_string (c # t) =
     (if c = 34 then Some ([], t)
      else if c = 92 then
        (case read_escape t of
           None \<Rightarrow> None
         | Some (r, u) \<Rightarrow> map_option (\<lambda>(w, rest). (r # w, rest)) (read_string u))
      else if c < 32 then None
      else map_option (\<lambda>(w, rest). (c # w, rest)) (read_string t))"
  by (simp add: read_string.simps [of "c # t"])

lemma read_string_length: "read_string s = Some (w, t) \<Longrightarrow> length t < length s"
proof (induction "length s" arbitrary: s w rule: less_induct)
  case less
  show ?case
  proof (cases s)
    case (Cons c u)
    have rec: "length t < length v" if "length v < length s" "read_string v = Some (x, t)" for v x
      using less(1) that by blast
    from less(2) Cons show ?thesis
      using rec [of u]
      by (auto simp: read_string_Cons split: if_splits option.splits)
        (metis rec read_escape_length length_Cons less_SucI less_trans)
  qed (use less in simp)
qed

text \<open>The numbers of the grammar: sign, integer part without leading zeros, fraction, exponent.\<close>

definition num_char :: "rune \<Rightarrow> bool" where
  "num_char c \<longleftrightarrow> is_digit c \<or> c \<in> {43, 45, 46, 69, 101}"

definition digits1 :: "str \<Rightarrow> str option" where
  "digits1 s = (if takeWhile is_digit s = [] then None else Some (dropWhile is_digit s))"

definition int_part :: "str \<Rightarrow> str option" where
  "int_part s =
     (case s of
        [] \<Rightarrow> None
      | c # t \<Rightarrow> if c = 48 then Some t else digits1 s)"

definition frac_part :: "str \<Rightarrow> str option" where
  "frac_part s = (case s of c # t \<Rightarrow> if c = 46 then digits1 t else Some s | [] \<Rightarrow> Some s)"

definition exp_part :: "str \<Rightarrow> str option" where
  "exp_part s =
     (case s of
        c # t \<Rightarrow>
          if c = 69 \<or> c = 101 then
            digits1 (case t of d # u \<Rightarrow> if d = 43 \<or> d = 45 then u else t | [] \<Rightarrow> t)
          else Some s
      | [] \<Rightarrow> Some s)"

definition valid_number :: "str \<Rightarrow> bool" where
  "valid_number s \<longleftrightarrow>
     Option.bind (int_part (case s of c # t \<Rightarrow> if c = 45 then t else s | [] \<Rightarrow> s))
       (\<lambda>t. Option.bind (frac_part t) exp_part) = Some []"

definition is_blank :: "rune \<Rightarrow> bool" where
  "is_blank c \<longleftrightarrow> c \<in> {9, 10, 13, 32}"

definition punct :: "rune \<Rightarrow> token option" where
  "punct c =
     (if c = 123 then Some TLBrace else if c = 125 then Some TRBrace
      else if c = 91 then Some TLBracket else if c = 93 then Some TRBracket
      else if c = 44 then Some TComma else if c = 58 then Some TColon else None)"

definition reserved :: "(str \<times> token) list" where
  "reserved = [(lit ''null'', TNull), (lit ''true'', TBool True), (lit ''false'', TBool False)]"

text \<open>The next token of a text that starts with no blank.\<close>

definition next_token :: "str \<Rightarrow> (token \<times> str) option" where
  "next_token s =
     (case s of
        [] \<Rightarrow> None
      | c # t \<Rightarrow>
          (case punct c of
             Some tok \<Rightarrow> Some (tok, t)
           | None \<Rightarrow>
               if c = 34 then map_option (\<lambda>(w, rest). (TStr w, rest)) (read_string t)
               else if c = 45 \<or> is_digit c then
                 let n = takeWhile num_char s
                 in if valid_number n then Some (TNum n, dropWhile num_char s) else None
               else
                 (case find (\<lambda>(k, _). has_prefix s k) reserved of
                    Some (k, tok) \<Rightarrow> Some (tok, drop (length k) s)
                  | None \<Rightarrow> None)))"

lemma next_token_length: "next_token s = Some (tok, t) \<Longrightarrow> length t < length s"
proof -
  assume n: "next_token s = Some (tok, t)"
  then obtain c u where s: "s = c # u" by (cases s) (auto simp: next_token_def)
  have num: "length (dropWhile num_char (c # u)) < length (c # u)" if "c = 45 \<or> is_digit c"
    using that length_dropWhile_le [of num_char u] by (auto simp: num_char_def)
  have key: "0 < length k" if "find (\<lambda>(k, _). has_prefix s k) reserved = Some (k, v)" for k v
    using that by (auto simp: reserved_def split: if_splits)
  from n show ?thesis
    unfolding next_token_def s
    using num key s by (auto simp: Let_def split: option.splits if_splits dest: read_string_length)
qed

function json_lex :: "str \<Rightarrow> token list option" where
  "json_lex s =
     (case s of
        [] \<Rightarrow> Some []
      | c # t \<Rightarrow>
          if is_blank c then json_lex t
          else (case next_token s of
                  None \<Rightarrow> None
                | Some (tok, rest) \<Rightarrow> map_option (Cons tok) (json_lex rest)))"
  by pat_completeness auto
termination
  by (relation "measure length") (auto dest: next_token_length)

declare json_lex.simps [simp del]


subsection \<open>The machine\<close>

text \<open>
  What comes next, with a completed value in \<open>Have\<close>; a frame is an open array, or an open object
  with the key whose value is read (both with their elements in reverse).
\<close>

datatype mode = NeedValue | NeedValueOrEnd | NeedKey | NeedKeyOrEnd | NeedColon str | Have json

datatype frame = FArr "json list" | FObj "(str \<times> json) list" str

fun start_value :: "token \<Rightarrow> frame list \<Rightarrow> (mode \<times> frame list) option" where
  "start_value TNull st = Some (Have JNull, st)"
| "start_value (TBool b) st = Some (Have (JBool b), st)"
| "start_value (TNum n) st = Some (Have (JNum n), st)"
| "start_value (TStr s) st = Some (Have (JStr s), st)"
| "start_value TLBracket st = Some (NeedValueOrEnd, FArr [] # st)"
| "start_value TLBrace st = Some (NeedKeyOrEnd, FObj [] [] # st)"
| "start_value tok st = None"

fun after_value :: "token \<Rightarrow> json \<Rightarrow> frame list \<Rightarrow> (mode \<times> frame list) option" where
  "after_value TComma v (FArr vs # st) = Some (NeedValue, FArr (v # vs) # st)"
| "after_value TRBracket v (FArr vs # st) = Some (Have (JArr (rev (v # vs))), st)"
| "after_value TComma v (FObj ms k # st) = Some (NeedKey, FObj ((k, v) # ms) [] # st)"
| "after_value TRBrace v (FObj ms k # st) = Some (Have (JObj (rev ((k, v) # ms))), st)"
| "after_value tok v st = None"

definition json_step :: "token \<Rightarrow> mode \<times> frame list \<Rightarrow> (mode \<times> frame list) option" where
  "json_step tok ms =
     (case ms of (m, st) \<Rightarrow>
        case m of
          NeedValue \<Rightarrow> start_value tok st
        | NeedValueOrEnd \<Rightarrow>
            (case (tok, st) of
               (TRBracket, FArr [] # st1) \<Rightarrow> Some (Have (JArr []), st1)
             | _ \<Rightarrow> start_value tok st)
        | NeedKey \<Rightarrow> (case tok of TStr k \<Rightarrow> Some (NeedColon k, st) | _ \<Rightarrow> None)
        | NeedKeyOrEnd \<Rightarrow>
            (case (tok, st) of
               (TStr k, _) \<Rightarrow> Some (NeedColon k, st)
             | (TRBrace, FObj [] k # st1) \<Rightarrow> Some (Have (JObj []), st1)
             | _ \<Rightarrow> None)
        | NeedColon k \<Rightarrow>
            (case (tok, st) of
               (TColon, FObj members _ # st1) \<Rightarrow> Some (NeedValue, FObj members k # st1)
             | _ \<Rightarrow> None)
        | Have v \<Rightarrow> after_value tok v st)"

fun json_run :: "token list \<Rightarrow> mode \<times> frame list \<Rightarrow> (mode \<times> frame list) option" where
  "json_run [] ms = Some ms"
| "json_run (t # ts) ms = (case json_step t ms of None \<Rightarrow> None | Some ms1 \<Rightarrow> json_run ts ms1)"

definition parse_json :: "str \<Rightarrow> json option" where
  "parse_json s =
     (case json_lex s of
        None \<Rightarrow> None
      | Some ts \<Rightarrow>
          (case json_run ts (NeedValue, []) of Some (Have v, []) \<Rightarrow> Some v | _ \<Rightarrow> None))"

text \<open>
  \<open>Decoder.Decode\<close> reads the first value of a stream and leaves the rest. What follows the value is
  not looked at.
\<close>

definition finished :: "mode \<times> frame list \<Rightarrow> json option" where
  "finished ms = (case ms of (Have v, []) \<Rightarrow> Some v | _ \<Rightarrow> None)"

lemma finished_Some: "finished ms = Some v \<longleftrightarrow> ms = (Have v, [])"
  by (auto simp: finished_def split: prod.splits mode.splits list.splits)

function json_first :: "str \<Rightarrow> mode \<times> frame list \<Rightarrow> (json \<times> str) option" where
  "json_first s ms =
     (case s of
        [] \<Rightarrow> None
      | c # t \<Rightarrow>
          if is_blank c then json_first t ms
          else (case next_token s of
                  None \<Rightarrow> None
                | Some (tok, rest) \<Rightarrow>
                    (case json_step tok ms of
                       None \<Rightarrow> None
                     | Some ms1 \<Rightarrow>
                         (case finished ms1 of Some v \<Rightarrow> Some (v, rest) | None \<Rightarrow> json_first rest ms1))))"
  by pat_completeness auto
termination
  by (relation "measure (\<lambda>(s, _). length s)") (auto dest: next_token_length)

declare json_first.simps [simp del]

definition json_decode :: "str \<Rightarrow> (json \<times> str) option" where
  "json_decode s = json_first s (NeedValue, [])"

text \<open>A text that is a value and nothing more is read to its end.\<close>

lemma finished_run: "json_run ts (Have v, []) = Some (Have w, []) \<Longrightarrow> ts = [] \<and> w = v"
proof (cases ts)
  case (Cons t ts1)
  have "json_step t (Have v, []) = None" by (cases t) (simp_all add: json_step_def)
  moreover assume "json_run ts (Have v, []) = Some (Have w, [])"
  ultimately show ?thesis using Cons by simp
qed simp

lemma lex_blank: "json_lex s = Some [] \<Longrightarrow> \<forall>r \<in> set s. is_blank r"
proof (induction s)
  case (Cons c t)
  then show ?case
    by (subst (asm) (2) json_lex.simps) (auto split: if_splits option.splits)
qed simp

lemma first_of_run:
  "json_lex s = Some ts \<Longrightarrow> json_run ts ms = Some (Have v, []) \<Longrightarrow> ts \<noteq> [] \<Longrightarrow>
   \<exists>rest. json_first s ms = Some (v, rest) \<and> (\<forall>r \<in> set rest. is_blank r)"
proof (induction s ms arbitrary: ts rule: json_first.induct)
  case (1 s ms)
  show ?case
  proof (cases s)
    case Nil
    have "json_lex [] = Some []" by (simp add: json_lex.simps)
    with 1(3,5) Nil show ?thesis by simp
  next
    case (Cons c t)
    show ?thesis
    proof (cases "is_blank c")
      case True
      have "json_lex t = Some ts" using 1(3) True unfolding Cons by (subst (asm) json_lex.simps) simp
      from 1(1) [OF Cons True this 1(4,5)] show ?thesis using True by (simp add: json_first.simps [of "c # t"] Cons)
    next
      case False
      from 1(3) False obtain tok rest ts1
        where n: "next_token s = Some (tok, rest)" and l: "json_lex rest = Some ts1" and ts: "ts = tok # ts1"
        unfolding Cons by (subst (asm) json_lex.simps) (auto split: option.splits)
      from 1(4) obtain ms1 where st: "json_step tok ms = Some ms1" and r: "json_run ts1 ms1 = Some (Have v, [])"
        by (auto simp: ts split: option.splits)
      have eq: "json_first s ms = (case finished ms1 of Some v \<Rightarrow> Some (v, rest) | None \<Rightarrow> json_first rest ms1)"
        using False n st by (simp add: json_first.simps [of "c # t"] Cons)
      show ?thesis
      proof (cases "finished ms1")
        case (Some w)
        then have w: "ms1 = (Have w, [])" by (simp add: finished_Some)
        with finished_run r have "ts1 = []" "v = w" by blast+
        with eq Some l lex_blank show ?thesis by simp
      next
        case None
        then have "ts1 \<noteq> []" using r by (cases ts1) (auto simp: finished_def)
        from 1(2) [OF Cons False n refl st None l r this] eq None show ?thesis by simp
      qed
    qed
  qed
qed

lemma decode_of_parse:
  assumes "parse_json s = Some v"
  shows "\<exists>rest. json_decode s = Some (v, rest) \<and> (\<forall>r \<in> set rest. is_blank r)"
proof -
  from assms obtain ts where ts: "json_lex s = Some ts" "json_run ts (NeedValue, []) = Some (Have v, [])"
    by (auto simp: parse_json_def split: option.splits prod.splits mode.splits list.splits)
  moreover from ts(2) have "ts \<noteq> []" by auto
  ultimately show ?thesis unfolding json_decode_def by (rule first_of_run)
qed

subsection \<open>Round trip\<close>

fun comma_sep :: "token list list \<Rightarrow> token list" where
  "comma_sep [] = []"
| "comma_sep [x] = x"
| "comma_sep (x # xs) = x @ [TComma] @ comma_sep xs"

fun toks :: "json \<Rightarrow> token list" where
  "toks JNull = [TNull]"
| "toks (JBool b) = [TBool b]"
| "toks (JNum n) = [TNum n]"
| "toks (JStr s) = [TStr s]"
| "toks (JArr vs) = [TLBracket] @ comma_sep (map toks vs) @ [TRBracket]"
| "toks (JObj ms) = [TLBrace] @ comma_sep (map (\<lambda>(k, v). [TStr k, TColon] @ toks v) ms) @ [TRBrace]"

definition runs_to :: "json \<Rightarrow> bool" where
  "runs_to v \<longleftrightarrow>
     (\<forall>m ts st. m \<in> {NeedValue, NeedValueOrEnd} \<longrightarrow>
        json_run (toks v @ ts) (m, st) = json_run ts (Have v, st))"

lemma run_array:
  "\<forall>v \<in> set vs. runs_to v \<Longrightarrow> vs \<noteq> [] \<Longrightarrow> m \<in> {NeedValue, NeedValueOrEnd} \<Longrightarrow>
     json_run (comma_sep (map toks vs) @ TRBracket # ts) (m, FArr acc # st)
       = json_run ts (Have (JArr (rev acc @ vs)), st)"
proof (induction vs arbitrary: acc m)
  case (Cons v vs)
  have v: "json_run (toks v @ us) (m, FArr acc # st) = json_run us (Have v, FArr acc # st)" for us
    using Cons.prems by (auto simp: runs_to_def)
  show ?case
  proof (cases vs)
    case Nil
    with v show ?thesis by (simp add: json_step_def)
  next
    case (Cons w ws)
    with v Cons.IH [of NeedValue "v # acc"] Cons.prems(1) show ?thesis
      by (simp add: json_step_def)
  qed
qed simp

lemma run_object:
  "\<forall>(k, v) \<in> set ms. runs_to v \<Longrightarrow> ms \<noteq> [] \<Longrightarrow> m \<in> {NeedKey, NeedKeyOrEnd} \<Longrightarrow>
     json_run (comma_sep (map (\<lambda>(k, v). [TStr k, TColon] @ toks v) ms) @ TRBrace # ts) (m, FObj acc k0 # st)
       = json_run ts (Have (JObj (rev acc @ ms)), st)"
proof (induction ms arbitrary: acc m k0)
  case (Cons kv ms)
  obtain k v where kv: "kv = (k, v)" by (cases kv)
  have v: "json_run (TStr k # TColon # toks v @ us) (m, FObj acc k0 # st)
      = json_run us (Have v, FObj acc k # st)" for us
    using Cons.prems kv by (auto simp: runs_to_def json_step_def)
  show ?case
  proof (cases ms)
    case Nil
    with v kv show ?thesis by (simp add: json_step_def)
  next
    case (Cons w ws)
    with v kv Cons.IH [of NeedKey "(k, v) # acc" "[]"] Cons.prems(1) show ?thesis
      by (simp add: json_step_def)
  qed
qed simp

lemma runs_to_all: "runs_to v"
proof (induction v)
  case (JArr vs)
  show ?case
  proof (cases "vs = []")
    case False
    then have "json_run (comma_sep (map toks vs) @ TRBracket # ts) (NeedValueOrEnd, FArr [] # st)
        = json_run ts (Have (JArr vs), st)" for ts st
      using run_array [of vs NeedValueOrEnd ts "[]" st] JArr by simp
    then show ?thesis by (auto simp: runs_to_def json_step_def split: list.split)
  qed (auto simp: runs_to_def json_step_def split: list.split)
next
  case (JObj ms)
  show ?case
  proof (cases "ms = []")
    case False
    have "\<forall>(k, v) \<in> set ms. runs_to v" using JObj by fastforce
    with False have "json_run (comma_sep (map (\<lambda>(k, v). [TStr k, TColon] @ toks v) ms) @ TRBrace # ts)
          (NeedKeyOrEnd, FObj [] [] # st) = json_run ts (Have (JObj ms), st)" for ts st
      using run_object [of ms NeedKeyOrEnd ts "[]" "[]" st] by simp
    then show ?thesis by (auto simp: runs_to_def json_step_def split: list.split)
  qed (auto simp: runs_to_def json_step_def split: list.split)
qed (auto simp: runs_to_def json_step_def split: list.split)


text \<open>Values whose numbers are numbers and whose texts are Unicode.\<close>

definition text_ok :: "str \<Rightarrow> bool" where
  "text_ok s \<longleftrightarrow> (\<forall>r \<in> set s. scalar r)"

fun json_ok :: "json \<Rightarrow> bool" where
  "json_ok (JNum n) = (valid_number n \<and> (\<forall>c \<in> set n. num_char c) \<and> n \<noteq> [] \<and> (hd n = 45 \<or> is_digit (hd n)))"
| "json_ok (JStr s) = text_ok s"
| "json_ok (JArr vs) = (\<forall>v \<in> set vs. json_ok v)"
| "json_ok (JObj ms) = (\<forall>(k, v) \<in> set ms. text_ok k \<and> json_ok v)"
| "json_ok v = True"

lemma hex_value_digit: "0 \<le> n \<Longrightarrow> n < 16 \<Longrightarrow> hex_value (hex_digit n) = Some n"
  by (simp add: hex_value_def hex_digit_def)

lemma hex_sum:
  "r div 4096 * 4096 + r div 256 mod 16 * 256 + r div 16 mod 16 * 16 + r mod 16 = (r :: int)"
proof -
  have "16 * (r div 16) + r mod 16 = r" "16 * (r div 16 div 16) + r div 16 mod 16 = r div 16"
    "16 * (r div 256 div 16) + r div 256 mod 16 = r div 256" by simp_all
  moreover have "r div 16 div 16 = r div 256" "r div 256 div 16 = r div 4096"
    by (simp_all add: zdiv_zmult2_eq [symmetric])
  ultimately show ?thesis by linarith
qed

lemma read_u_escape:
  assumes "0 \<le> r" "r < 65536" "\<not> (55296 \<le> r \<and> r \<le> 57343)"
  shows "read_u (drop 2 (u_escape r) @ t) = Some (r, t)"
proof -
  have "r div 4096 < 16" "0 \<le> r div 4096" using assms by linarith+
  moreover have "0 \<le> r div 256 mod 16" "r div 256 mod 16 < 16" "0 \<le> r div 16 mod 16"
    "r div 16 mod 16 < 16" "0 \<le> r mod 16" "r mod 16 < 16" by simp_all
  ultimately have "hex4 (drop 2 (u_escape r) @ t)
      = Some (r div 4096 * 4096 + r div 256 mod 16 * 256 + r div 16 mod 16 * 16 + r mod 16, t)"
    unfolding u_escape_def by (simp only: drop_Suc_Cons numeral_2_eq_2 drop_0 append_Cons append_Nil
        hex4.simps hex_value_digit option.case prod.case)
  then have "hex4 (drop 2 (u_escape r) @ t) = Some (r, t)" by (simp only: hex_sum)
  with assms(3) show ?thesis by (auto simp: read_u_def)
qed

lemma read_u_escape_string:
  assumes "0 \<le> r" "r < 65536" "\<not> (55296 \<le> r \<and> r \<le> 57343)"
  shows "read_string (u_escape r @ t) = map_option (\<lambda>(w, rest). (r # w, rest)) (read_string t)"
proof -
  have "u_escape r @ t = 92 # 117 # (drop 2 (u_escape r) @ t)" by (simp add: u_escape_def)
  then show ?thesis
    by (simp only: read_string_Cons) (simp add: read_escape_def read_u_escape [OF assms])
qed

lemma read_escaped:
  assumes "scalar r"
  shows "read_string (escape r @ t) = map_option (\<lambda>(w, rest). (r # w, rest)) (read_string t)"
proof (cases "0 \<le> r \<and> r < 32 \<and> r \<notin> {8, 9, 10, 12, 13} \<or> r \<in> {60, 62, 38, 8232, 8233}")
  case True
  then have "escape r = u_escape r" by (auto simp: escape_def)
  with True read_u_escape_string [of r t] show ?thesis by auto
next
  case False
  with assms have "r \<in> {34, 92, 8, 9, 10, 12, 13} \<or> escape r = [r] \<and> r \<noteq> 34 \<and> r \<noteq> 92 \<and> 32 \<le> r"
    by (auto simp: escape_def scalar_def)
  then show ?thesis
    by (auto simp: read_string_Cons) (auto simp: escape_def read_string_Cons read_escape_def)
qed

lemma read_printed:
  "text_ok s \<Longrightarrow> read_string (concat (map escape s) @ 34 # rest) = Some (s, rest)"
  by (induction s) (simp_all add: read_string_Cons text_ok_def read_escaped)

text \<open>A text that does not go on a number.\<close>

definition stops :: "str \<Rightarrow> bool" where
  "stops s \<longleftrightarrow> s = [] \<or> \<not> num_char (hd s)"

lemma lex_Nil [simp]: "json_lex [] = Some []"
  by (simp add: json_lex.simps)

lemma lex_token:
  assumes "next_token (c # t) = Some (tok, rest)" "\<not> is_blank c"
  shows "json_lex (c # t) = map_option (Cons tok) (json_lex rest)"
  using assms by (simp add: json_lex.simps [of "c # t"])

lemma lex_punct: "punct c = Some tok \<Longrightarrow> json_lex (c # t) = map_option (Cons tok) (json_lex t)"
  by (rule lex_token) (auto simp: next_token_def punct_def is_blank_def split: if_splits)

lemma lex_string:
  "text_ok s \<Longrightarrow> json_lex (print_string s @ rest) = map_option (Cons (TStr s)) (json_lex rest)"
  unfolding print_string_def append_assoc append_Cons append_Nil
  by (rule lex_token) (simp_all add: next_token_def punct_def is_blank_def read_printed)

lemma lex_number:
  assumes "json_ok (JNum n)" "stops rest"
  shows "json_lex (n @ rest) = map_option (Cons (TNum n)) (json_lex rest)"
proof -
  from assms(1) obtain c t where n: "n = c # t" "c = 45 \<or> is_digit c" by (cases n) auto
  have tk: "takeWhile num_char (n @ rest) = n" "dropWhile num_char (n @ rest) = rest"
    using assms by (cases rest; auto simp: stops_def takeWhile_append dropWhile_append takeWhile_eq_all_conv)+
  have "next_token (n @ rest) = Some (TNum n, rest)"
    using n tk assms(1) by (auto simp: next_token_def punct_def is_digit_def)
  moreover have "\<not> is_blank c" using n(2) by (auto simp: is_blank_def is_digit_def)
  ultimately show ?thesis using n by (auto intro: lex_token)
qed

lemma lex_word:
  "(k, tok) \<in> set reserved \<Longrightarrow> json_lex (k @ rest) = map_option (Cons tok) (json_lex rest)"
  by (auto simp: reserved_def) (rule lex_token; simp add: next_token_def punct_def is_digit_def
      reserved_def is_blank_def)+

lemma app_fun: "(@) [] = (\<lambda>zs. zs)" "(@) (x # xs) = (\<lambda>zs. x # xs @ zs)" "(@) (xs @ ys) = (\<lambda>zs. xs @ ys @ zs)"
  by (simp_all add: fun_eq_iff)

definition lexes :: "str \<Rightarrow> token list \<Rightarrow> bool" where
  "lexes p ts \<longleftrightarrow> (\<forall>rest. stops rest \<longrightarrow> json_lex (p @ rest) = map_option ((@) ts) (json_lex rest))"

lemma lexes_sep:
  "\<forall>(p, ts) \<in> set ps. lexes p ts \<Longrightarrow> lexes (sep_by (map fst ps)) (comma_sep (map snd ps))"
proof (induction ps rule: induct_list012)
  case (3 x y zs)
  obtain p ts where x: "x = (p, ts)" by (cases x)
  have p: "lexes p ts" and I: "lexes (sep_by (map fst (y # zs))) (comma_sep (map snd (y # zs)))"
    using 3 x by auto
  have "stops (44 # s)" for s by (simp add: stops_def num_char_def is_digit_def)
  with p I show ?case
    by (auto simp: lexes_def x lex_punct punct_def option.map_comp comp_def app_fun)
qed (auto simp: lexes_def app_fun option.map_ident)

lemma lexes_close:
  assumes "lexes p ts" "punct c = Some tok"
  shows "json_lex (p @ c # rest) = map_option (\<lambda>us. ts @ tok # us) (json_lex rest)"
proof -
  have "stops (c # rest)" using assms(2)
    by (auto simp: stops_def num_char_def is_digit_def punct_def split: if_splits)
  with assms show ?thesis by (simp add: lexes_def lex_punct option.map_comp comp_def app_fun)
qed

lemma lexes_json: "json_ok v \<Longrightarrow> lexes (print_json v) (toks v)"
proof (induction v)
  case (JArr vs)
  then have "lexes (sep_by (map print_json vs)) (comma_sep (map toks vs))"
    using lexes_sep [of "map (\<lambda>v. (print_json v, toks v)) vs"] by (auto simp: comp_def)
  from lexes_close [OF this, of 93 TRBracket] show ?case
    by (simp add: lexes_def lex_punct punct_def option.map_comp comp_def app_fun)
next
  case (JObj ms)
  have "lexes (print_string k @ [58] @ print_json v) ([TStr k, TColon] @ toks v)" if "(k, v) \<in> set ms" for k v
  proof -
    have "lexes (print_json v) (toks v)" "text_ok k" using JObj that by fastforce+
    then show ?thesis by (simp add: lexes_def lex_string lex_punct punct_def option.map_comp comp_def app_fun)
  qed
  then have "lexes (sep_by (map (\<lambda>(k, v). print_string k @ [58] @ print_json v) ms))
      (comma_sep (map (\<lambda>(k, v). [TStr k, TColon] @ toks v) ms))"
    using lexes_sep [of "map (\<lambda>(k, v). (print_string k @ [58] @ print_json v, [TStr k, TColon] @ toks v)) ms"]
    by (auto simp: comp_def case_prod_unfold)
  from lexes_close [OF this, of 125 TRBrace] show ?case
    by (simp add: lexes_def lex_punct punct_def option.map_comp comp_def app_fun)
next
  case (JBool b)
  show ?case
    using lex_word [of "lit ''true''" "TBool True"] lex_word [of "lit ''false''" "TBool False"]
    by (cases b) (simp_all add: lexes_def reserved_def app_fun)
next
  case JNull
  show ?case using lex_word [of "lit ''null''" TNull] by (simp add: lexes_def reserved_def app_fun)
next
  case (JNum n)
  then show ?case using lex_number [of n] by (simp add: lexes_def app_fun)
next
  case (JStr s)
  then show ?case by (simp add: lexes_def lex_string app_fun)
qed

lemma parse_print: "json_ok v \<Longrightarrow> parse_json (print_json v) = Some v"
proof -
  assume "json_ok v"
  with lexes_json [of v] have "json_lex (print_json v) = Some (toks v)"
    by (auto simp: lexes_def stops_def dest: spec [of _ "[]"])
  moreover have "json_run (toks v) (NeedValue, []) = Some (Have v, [])"
    using runs_to_all [of v, unfolded runs_to_def, rule_format, of NeedValue "[]" "[]"] by simp
  ultimately show ?thesis by (simp add: parse_json_def)
qed

definition members_ok :: "(str \<times> json) list \<Rightarrow> bool" where
  "members_ok ms \<longleftrightarrow> (\<forall>(k, v) \<in> set ms. text_ok k \<and> json_ok v)"

lemma json_ok_obj [simp]: "json_ok (JObj ms) = members_ok ms"
  by (simp add: members_ok_def)

declare json_ok.simps(4) [simp del]

lemma members_ok_Nil [simp]: "members_ok []"
  by (simp add: members_ok_def)

lemma members_ok_Cons [simp]: "members_ok ((k, v) # ms) \<longleftrightarrow> text_ok k \<and> json_ok v \<and> members_ok ms"
  by (simp add: members_ok_def)

end
