(* ===== verification/Store.thy ===== *)
theory Store
  imports Parser Json Clock
begin

text \<open>
  \<open>state/store.go\<close> and \<open>state/service.go\<close>: the last known state of the character, in SQLite
  tables or, when SQLite is unavailable, in memory.

  The tables are modelled by what the SQL statements of the source do to them: a partial function per
  table from its primary key, \<open>INSERT ... ON CONFLICT DO UPDATE\<close> being the update at the key. The
  database is outside: whether a statement fails, and with which message, is an input
  (\<open>db_answers\<close>), as are the order in which the runtime walks a map and the clock. A failed
  statement changes nothing, and a transaction that is not committed has no effect. A call is one step
  here. For the memory store its lock makes it one; the SQLite store has none, and its \<open>UpsertDelta\<close>
  reads, merges and writes in several statements, so these definitions speak of calls that do not
  overlap: the texts of one upstream reader, which are ingested one after another.
\<close>

record snap_row =
  r_location :: str
  r_hp_current :: "int option"
  r_hp_max :: "int option"
  r_ma_current :: "int option"
  r_ma_max :: "int option"
  r_mv_current :: "int option"
  r_mv_max :: "int option"
  r_exp :: "int option"
  r_status_tags_json :: str
  r_updated_at :: str

record tables =
  t_snapshot :: "str \<rightharpoonup> snap_row"
  t_equipment :: "str \<times> str \<rightharpoonup> str \<times> str"

definition init_tables :: tables where
  "init_tables = \<lparr>t_snapshot = Map.empty, t_equipment = Map.empty\<rparr>"

datatype store_err =
    QueryLatestErr str
  | QuerySnapshotErr str
  | UnmarshalTagsErr
  | QueryEquipmentErr str
  | UpsertSnapshotErr str
  | BeginEquipmentErr str
  | UpsertEquipmentErr str
  | CommitEquipmentErr str

record db_answers =
  a_select_snapshot :: "str option"
  a_select_equipment :: "str option"
  a_exec_snapshot :: "str option"
  a_begin :: "str option"
  a_exec_slot :: "str \<Rightarrow> str option"
  a_commit :: "str option"
  a_slots :: "equipment \<Rightarrow> str list"

subsection \<open>Merging\<close>

definition mergeSnapshot :: "snapshot \<Rightarrow> delta \<Rightarrow> snapshot" where
  "mergeSnapshot s d =
     (let s1 = (if d_Location d \<noteq> [] then s\<lparr>sn_Location := d_Location d\<rparr> else s);
          s2 = (if d_Prompt d \<noteq> None then s1\<lparr>sn_Prompt := d_Prompt d\<rparr> else s1);
          s3 = (if length (d_StatusTags d) > 0 then s2\<lparr>sn_StatusTags := d_StatusTags d\<rparr> else s2)
      in if d_Equipment d \<noteq> Map.empty then s3\<lparr>sn_Equipment := sn_Equipment s3 ++ d_Equipment d\<rparr> else s3)"

definition new_snapshot :: "str \<Rightarrow> snapshot" where
  "new_snapshot sessionID =
     \<lparr>sn_SessionID = sessionID, sn_Location = [], sn_Prompt = None, sn_StatusTags = [],
      sn_Equipment = Map.empty, sn_UpdatedAt = []\<rparr>"

subsection \<open>Status tags as JSON\<close>

text \<open>\<open>json.Marshal\<close> of a slice prints a nil slice as null; the tags of a snapshot are never an
  empty slice that is not nil.\<close>

definition tags_json :: "str list \<Rightarrow> str" where
  "tags_json tags = print_json (if tags = [] then JNull else JArr (map JStr tags))"

fun json_tag :: "json \<Rightarrow> str option" where
  "json_tag (JStr s) = Some s"
| "json_tag JNull = Some []"
| "json_tag v = None"

definition read_tags :: "str \<Rightarrow> str list option" where
  "read_tags s =
     (case parse_json s of
        Some JNull \<Rightarrow> Some []
      | Some (JArr vs) \<Rightarrow> all_some (map json_tag vs)
      | _ \<Rightarrow> None)"

subsection \<open>Reading the tables\<close>

definition loadEquipment :: "db_answers \<Rightarrow> str \<Rightarrow> tables \<Rightarrow> store_err + equipment" where
  "loadEquipment a sessionID t =
     (case a_select_equipment a of
        Some msg \<Rightarrow> Inl (QueryEquipmentErr msg)
      | None \<Rightarrow> Inr (\<lambda>slot. map_option fst (t_equipment t (sessionID, slot))))"

definition row_prompt :: "snap_row \<Rightarrow> prompt_tuple option" where
  "row_prompt r =
     (case (r_hp_current r, r_hp_max r, r_ma_current r, r_ma_max r, r_mv_current r, r_mv_max r, r_exp r) of
        (Some a, Some b, Some c, Some d, Some e, Some f, Some g) \<Rightarrow>
          Some \<lparr>HPCurrent = a, HPMax = b, MACurrent = c, MAMax = d, MVCurrent = e, MVMax = f, EXP = g\<rparr>
      | _ \<Rightarrow> None)"

definition GetBySession :: "db_answers \<Rightarrow> str \<Rightarrow> tables \<Rightarrow> store_err + snapshot option" where
  "GetBySession a sessionID t =
     (case a_select_snapshot a of
        Some msg \<Rightarrow> Inl (QuerySnapshotErr msg)
      | None \<Rightarrow>
          (case t_snapshot t sessionID of
             None \<Rightarrow> Inr None
           | Some r \<Rightarrow>
               (case (if r_status_tags_json r \<noteq> [] then read_tags (r_status_tags_json r) else Some []) of
                  None \<Rightarrow> Inl UnmarshalTagsErr
                | Some tags \<Rightarrow>
                    (case loadEquipment a sessionID t of
                       Inl e \<Rightarrow> Inl e
                     | Inr equipment \<Rightarrow>
                         Inr (Some \<lparr>sn_SessionID = sessionID, sn_Location = r_location r,
                                    sn_Prompt = row_prompt r, sn_StatusTags = tags,
                                    sn_Equipment = equipment, sn_UpdatedAt = r_updated_at r\<rparr>)))))"

text \<open>
  \<open>GetLatest\<close>: the answer to the first query is an input, its error or the session it names; it is
  one of the sessions whose \<open>updated_at\<close> is the greatest text, none for an empty table.
\<close>

definition latest_answer :: "tables \<Rightarrow> str option \<Rightarrow> bool" where
  "latest_answer t answer \<longleftrightarrow>
     (case answer of
        None \<Rightarrow> t_snapshot t = Map.empty
      | Some sid \<Rightarrow>
          (\<exists>r. t_snapshot t sid = Some r \<and>
             (\<forall>sid1 r1. t_snapshot t sid1 = Some r1 \<longrightarrow> r_updated_at r1 \<le> r_updated_at r)))"

definition GetLatest ::
    "db_answers \<Rightarrow> str + str option \<Rightarrow> tables \<Rightarrow> store_err + snapshot option" where
  "GetLatest a answer t =
     (case answer of
        Inl msg \<Rightarrow> Inl (QueryLatestErr msg)
      | Inr None \<Rightarrow> Inr None
      | Inr (Some sessionID) \<Rightarrow> GetBySession a sessionID t)"

subsection \<open>Writing the tables\<close>

definition snapshot_row :: "snapshot \<Rightarrow> snap_row" where
  "snapshot_row s =
     \<lparr>r_location = sn_Location s, r_hp_current = map_option HPCurrent (sn_Prompt s),
      r_hp_max = map_option HPMax (sn_Prompt s), r_ma_current = map_option MACurrent (sn_Prompt s),
      r_ma_max = map_option MAMax (sn_Prompt s), r_mv_current = map_option MVCurrent (sn_Prompt s),
      r_mv_max = map_option MVMax (sn_Prompt s), r_exp = map_option EXP (sn_Prompt s),
      r_status_tags_json = tags_json (sn_StatusTags s), r_updated_at = sn_UpdatedAt s\<rparr>"

definition upsertSnapshot :: "db_answers \<Rightarrow> snapshot \<Rightarrow> tables \<Rightarrow> store_err option \<times> tables" where
  "upsertSnapshot a s t =
     (case a_exec_snapshot a of
        Some msg \<Rightarrow> (Some (UpsertSnapshotErr msg), t)
      | None \<Rightarrow> (None, t\<lparr>t_snapshot := (t_snapshot t)(sn_SessionID s \<mapsto> snapshot_row s)\<rparr>))"

text \<open>The statements of the transaction, slot by slot; the tables are the transaction's view.\<close>

fun equipment_tx ::
    "db_answers \<Rightarrow> str \<Rightarrow> equipment \<Rightarrow> str \<Rightarrow> str list \<Rightarrow> tables \<Rightarrow> store_err + tables" where
  "equipment_tx a sessionID equipment updatedAt [] t = Inr t"
| "equipment_tx a sessionID equipment updatedAt (slot # slots) t =
     (case a_exec_slot a slot of
        Some msg \<Rightarrow> Inl (UpsertEquipmentErr msg)
      | None \<Rightarrow>
          (case equipment slot of
             None \<Rightarrow> equipment_tx a sessionID equipment updatedAt slots t
           | Some item \<Rightarrow>
               equipment_tx a sessionID equipment updatedAt slots
                 (t\<lparr>t_equipment := (t_equipment t)((sessionID, slot) \<mapsto> (item, updatedAt))\<rparr>)))"

definition upsertEquipment ::
    "db_answers \<Rightarrow> str \<Rightarrow> equipment \<Rightarrow> str \<Rightarrow> tables \<Rightarrow> store_err option \<times> tables" where
  "upsertEquipment a sessionID equipment updatedAt t =
     (if equipment = Map.empty then (None, t)
      else case a_begin a of
        Some msg \<Rightarrow> (Some (BeginEquipmentErr msg), t)
      | None \<Rightarrow>
          (case equipment_tx a sessionID equipment updatedAt (a_slots a equipment) t of
             Inl e \<Rightarrow> (Some e, t)
           | Inr t1 \<Rightarrow>
               (case a_commit a of
                  Some msg \<Rightarrow> (Some (CommitEquipmentErr msg), t)
                | None \<Rightarrow> (None, t1))))"

definition UpsertDelta ::
    "db_answers \<Rightarrow> utc \<Rightarrow> str \<Rightarrow> delta \<Rightarrow> tables \<Rightarrow> store_err option \<times> tables" where
  "UpsertDelta a now sessionID d t =
     (if sessionID = [] \<or> Empty d then (None, t)
      else case GetBySession a sessionID t of
        Inl e \<Rightarrow> (Some e, t)
      | Inr found \<Rightarrow>
          let current = (case found of None \<Rightarrow> new_snapshot sessionID | Some s \<Rightarrow> s);
              current1 = (mergeSnapshot current d)\<lparr>sn_SessionID := sessionID, sn_UpdatedAt := rfc3339nano now\<rparr>
          in case upsertSnapshot a current1 t of
               (Some e, t1) \<Rightarrow> (Some e, t1)
             | (None, t1) \<Rightarrow>
                 upsertEquipment a (sn_SessionID current1) (sn_Equipment current1) (sn_UpdatedAt current1) t1)"

subsection \<open>In memory\<close>

type_synonym memory_store = "snapshot option"

definition memory_UpsertDelta :: "str \<Rightarrow> delta \<Rightarrow> memory_store \<Rightarrow> store_err option \<times> memory_store" where
  "memory_UpsertDelta sessionID d m =
     (let s = (case m of None \<Rightarrow> new_snapshot sessionID | Some s \<Rightarrow> s);
          s1 = mergeSnapshot s d
      in (None, Some (if sessionID \<noteq> [] then s1\<lparr>sn_SessionID := sessionID\<rparr> else s1)))"

definition memory_GetLatest :: "memory_store \<Rightarrow> store_err + snapshot option" where
  "memory_GetLatest m = Inr m"

subsection \<open>The service\<close>

text \<open>
  Opening the database. The file at the path holds a table or not; \<open>CREATE TABLE IF NOT EXISTS\<close> makes
  the missing ones. The path \<open>:memory:\<close>, which the empty path stands for, is an empty database. What
  can fail is an input: the directory, the opening, each statement.
\<close>

record database =
  db_snapshot :: "(str \<rightharpoonup> snap_row) option"
  db_equipment :: "(str \<times> str \<rightharpoonup> str \<times> str) option"

record open_answers =
  oa_mkdir :: "str option"
  oa_open :: "str option"
  oa_exec :: "nat \<Rightarrow> str option"

definition empty_database :: database where
  "empty_database = \<lparr>db_snapshot = None, db_equipment = None\<rparr>"

definition if_missing :: "('a \<rightharpoonup> 'b) option \<Rightarrow> 'a \<rightharpoonup> 'b" where
  "if_missing m = (case m of None \<Rightarrow> Map.empty | Some m1 \<Rightarrow> m1)"

definition init_schema :: "(nat \<Rightarrow> str option) \<Rightarrow> database \<Rightarrow> str + tables" where
  "init_schema exec_err db =
     (case exec_err 0 of
        Some msg \<Rightarrow> Inl (lit ''init schema: '' @ msg)
      | None \<Rightarrow>
          (case exec_err 1 of
             Some msg \<Rightarrow> Inl (lit ''init schema: '' @ msg)
           | None \<Rightarrow> Inr \<lparr>t_snapshot = if_missing (db_snapshot db), t_equipment = if_missing (db_equipment db)\<rparr>))"

definition NewSQLiteStore :: "open_answers \<Rightarrow> str \<Rightarrow> database \<Rightarrow> str + tables" where
  "NewSQLiteStore a path file =
     (let path1 = (if path = [] then lit '':memory:'' else path);
          mem = (path1 = lit '':memory:'')
      in case (if mem then None else oa_mkdir a) of
           Some msg \<Rightarrow> Inl (lit ''create sqlite dir: '' @ msg)
         | None \<Rightarrow>
             (case oa_open a of
                Some msg \<Rightarrow> Inl (lit ''open sqlite: '' @ msg)
              | None \<Rightarrow> init_schema (oa_exec a) (if mem then empty_database else file)))"

text \<open>\<open>NewService\<close>: the SQLite store, or the memory store when it cannot be opened.\<close>

definition NewService :: "open_answers \<Rightarrow> str \<Rightarrow> database \<Rightarrow> tables + memory_store" where
  "NewService a sqlitePath file =
     (case NewSQLiteStore a sqlitePath file of Inl _ \<Rightarrow> Inr None | Inr t \<Rightarrow> Inl t)"

text \<open>\<open>Ingest\<close>, over the \<open>UpsertDelta\<close> of the store behind the interface.\<close>

definition Ingest ::
    "(str \<Rightarrow> delta \<Rightarrow> 's \<Rightarrow> store_err option \<times> 's) \<Rightarrow> (nat \<Rightarrow> alias_order) \<Rightarrow> str \<Rightarrow> str \<Rightarrow> 's
     \<Rightarrow> store_err option \<times> 's" where
  "Ingest upsert orders sessionID txt s =
     (let d = Parse orders txt in if Empty d then (None, s) else upsert sessionID d s)"

text \<open>\<open>Service.Snapshot\<close> passes the answer of the store on, wrapping an error.\<close>

definition Service_Snapshot :: "('s \<Rightarrow> store_err + snapshot option) \<Rightarrow> 's \<Rightarrow> store_err + snapshot option" where
  "Service_Snapshot latest s = latest s"

end
