(* ===== verification/MemoryStore.thy ===== *)
theory MemoryStore
  imports Store
begin

text \<open>
  The memory store of \<open>state/service.go\<close> with its maps as the objects they are. A Go map is a
  reference: \<open>mergeSnapshot\<close> writes into the map of the store, and \<open>GetLatest\<close> hands out copies. Here
  maps live in a heap and a snapshot holds the address of its equipment (none for a nil map); tags and
  prompts are only ever replaced, never written in place, and stay values. \<open>Store\<close> has the same
  operations on values; the first lemmas show that they agree, the property says how far a snapshot
  handed out is safe from later writes.
\<close>

subsection \<open>The store on a heap\<close>

record ref_snapshot =
  rf_SessionID :: str
  rf_Location :: str
  rf_Prompt :: "prompt_tuple option"
  rf_StatusTags :: "str list"
  rf_Equipment :: "nat option"
  rf_UpdatedAt :: str

record memory =
  me_snapshot :: ref_snapshot
  me_found :: bool
  me_maps :: "nat \<Rightarrow> equipment"
  me_next :: nat

definition new_map :: "equipment \<Rightarrow> memory \<Rightarrow> nat \<times> memory" where
  "new_map m st = (me_next st, st\<lparr>me_maps := (me_maps st)(me_next st := m), me_next := Suc (me_next st)\<rparr>)"

definition newMemoryStore :: memory where
  "newMemoryStore =
     \<lparr>me_snapshot = \<lparr>rf_SessionID = [], rf_Location = [], rf_Prompt = None, rf_StatusTags = [],
                      rf_Equipment = None, rf_UpdatedAt = []\<rparr>,
      me_found = False, me_maps = (\<lambda>_. Map.empty), me_next = 0\<rparr>"

text \<open>\<open>mergeSnapshot\<close>, on the snapshot of the store.\<close>

definition ref_merge :: "delta \<Rightarrow> memory \<Rightarrow> memory" where
  "ref_merge d st =
     (let s = me_snapshot st;
          s1 = s\<lparr>rf_Location := (if d_Location d \<noteq> [] then d_Location d else rf_Location s),
                 rf_Prompt := (if d_Prompt d \<noteq> None then d_Prompt d else rf_Prompt s),
                 rf_StatusTags := (if length (d_StatusTags d) > 0 then d_StatusTags d else rf_StatusTags s)\<rparr>;
          st1 = st\<lparr>me_snapshot := s1\<rparr>
      in if d_Equipment d = Map.empty then st1
         else
           let (a, st2) = (case rf_Equipment s1 of Some a \<Rightarrow> (a, st1) | None \<Rightarrow> new_map Map.empty st1)
           in st2\<lparr>me_snapshot := s1\<lparr>rf_Equipment := Some a\<rparr>,
                  me_maps := (me_maps st2)(a := me_maps st2 a ++ d_Equipment d)\<rparr>)"

definition ref_UpsertDelta :: "str \<Rightarrow> delta \<Rightarrow> memory \<Rightarrow> memory" where
  "ref_UpsertDelta sessionID d st =
     (let st1 = (if me_found st then st
                 else let (a, st0) = new_map Map.empty st
                      in st0\<lparr>me_snapshot := \<lparr>rf_SessionID = sessionID, rf_Location = [], rf_Prompt = None,
                                rf_StatusTags = [], rf_Equipment = Some a, rf_UpdatedAt = []\<rparr>,
                             me_found := True\<rparr>);
          st2 = ref_merge d st1
      in if sessionID \<noteq> [] then st2\<lparr>me_snapshot := (me_snapshot st2)\<lparr>rf_SessionID := sessionID\<rparr>\<rparr> else st2)"

text \<open>The copy: a new map, but only when there is something in the old one.\<close>

definition ref_GetLatest :: "memory \<Rightarrow> ref_snapshot option \<times> memory" where
  "ref_GetLatest st =
     (if \<not> me_found st then (None, st)
      else
        let s = me_snapshot st
        in case rf_Equipment s of
             None \<Rightarrow> (Some s, st)
           | Some a \<Rightarrow>
               if me_maps st a = Map.empty then (Some s, st)
               else let (b, st1) = new_map (me_maps st a) st in (Some (s\<lparr>rf_Equipment := Some b\<rparr>), st1))"

subsection \<open>Reading a snapshot\<close>

text \<open>What the holder of a snapshot sees: its fields, and its map as it is then.\<close>

definition read_snapshot :: "memory \<Rightarrow> ref_snapshot \<Rightarrow> snapshot" where
  "read_snapshot st s =
     \<lparr>sn_SessionID = rf_SessionID s, sn_Location = rf_Location s, sn_Prompt = rf_Prompt s,
      sn_StatusTags = rf_StatusTags s,
      sn_Equipment = (case rf_Equipment s of None \<Rightarrow> Map.empty | Some a \<Rightarrow> me_maps st a),
      sn_UpdatedAt = rf_UpdatedAt s\<rparr>"

definition stored_value :: "memory \<Rightarrow> memory_store" where
  "stored_value st = (if me_found st then Some (read_snapshot st (me_snapshot st)) else None)"

definition memory_ok :: "memory \<Rightarrow> bool" where
  "memory_ok st \<longleftrightarrow> (me_found st \<longrightarrow> (\<exists>a < me_next st. rf_Equipment (me_snapshot st) = Some a))"

text \<open>The calls of the store, each a critical section of its lock.\<close>

datatype memory_call = PutDelta str delta | GetSnapshot

fun memory_exec :: "memory_call \<Rightarrow> memory \<Rightarrow> memory" where
  "memory_exec (PutDelta sessionID d) st = ref_UpsertDelta sessionID d st"
| "memory_exec GetSnapshot st = snd (ref_GetLatest st)"

fun value_exec :: "memory_call \<Rightarrow> memory_store \<Rightarrow> memory_store" where
  "value_exec (PutDelta sessionID d) m = snd (memory_UpsertDelta sessionID d m)"
| "value_exec GetSnapshot m = m"

lemma memory_ok_new: "memory_ok newMemoryStore" "stored_value newMemoryStore = None"
  by (simp_all add: memory_ok_def newMemoryStore_def stored_value_def)

text \<open>An update, on a store that has a map.\<close>

lemma ref_merge_ok:
  assumes "rf_Equipment (me_snapshot st) = Some a" "a < me_next st" "me_found st"
  shows "\<exists>s1. ref_merge d st = st\<lparr>me_snapshot := s1, me_maps := (me_maps st)(a := me_maps st a ++ d_Equipment d)\<rparr>
    \<and> rf_Equipment s1 = Some a \<and> rf_SessionID s1 = rf_SessionID (me_snapshot st)
    \<and> read_snapshot (ref_merge d st) s1 = mergeSnapshot (read_snapshot st (me_snapshot st)) d"
  using assms
  by (auto simp: ref_merge_def read_snapshot_def mergeSnapshot_def Let_def intro!: snapshot.equality exI)

text \<open>
  What a call may change: the store keeps its map, and of the maps that exist only that one is written.
\<close>

definition own :: "memory \<Rightarrow> nat \<Rightarrow> bool" where
  "own st b \<longleftrightarrow> me_found st \<and> rf_Equipment (me_snapshot st) = Some b"

definition only_own :: "memory \<Rightarrow> memory \<Rightarrow> bool" where
  "only_own st st1 \<longleftrightarrow>
     me_next st \<le> me_next st1
   \<and> (\<forall>b < me_next st. \<not> own st b \<longrightarrow> me_maps st1 b = me_maps st b \<and> \<not> own st1 b)
   \<and> (\<forall>b. own st b \<longrightarrow> own st1 b)"

lemma only_own_refl [simp]: "only_own st st"
  by (simp add: only_own_def)

lemma only_own_trans: "only_own st st1 \<Longrightarrow> only_own st1 st2 \<Longrightarrow> only_own st st2"
  by (simp add: only_own_def)

lemma ok_map: "memory_ok st \<Longrightarrow> me_found st \<Longrightarrow> \<exists>a < me_next st. rf_Equipment (me_snapshot st) = Some a"
  by (simp add: memory_ok_def)

lemma read_snapshot_frame [simp]:
  "read_snapshot st (s\<lparr>rf_SessionID := sid\<rparr>) = (read_snapshot st s)\<lparr>sn_SessionID := sid\<rparr>"
  "read_snapshot (st\<lparr>me_snapshot := s1\<rparr>) s = read_snapshot st s"
  by (simp_all add: read_snapshot_def split: option.split)

lemma upsert_found:
  assumes "memory_ok st" "me_found st" "st1 = ref_UpsertDelta sid d st"
  shows "memory_ok st1 \<and> only_own st st1 \<and> stored_value st1 = snd (memory_UpsertDelta sid d (stored_value st))"
proof -
  obtain a where a: "rf_Equipment (me_snapshot st) = Some a" "a < me_next st" using ok_map assms(1,2) by blast
  obtain s1 where m: "ref_merge d st = st\<lparr>me_snapshot := s1, me_maps := (me_maps st)(a := me_maps st a ++ d_Equipment d)\<rparr>"
    and s1: "rf_Equipment s1 = Some a"
    and r: "read_snapshot (ref_merge d st) s1 = mergeSnapshot (read_snapshot st (me_snapshot st)) d"
    using ref_merge_ok [OF a assms(2), of d] by blast
  define st2 where "st2 = ref_merge d st"
  have st1: "st1 = (if sid \<noteq> [] then st2\<lparr>me_snapshot := s1\<lparr>rf_SessionID := sid\<rparr>\<rparr> else st2)"
    and s2: "me_snapshot st2 = s1" "me_found st2"
    using assms(2) m by (simp_all add: assms(3) ref_UpsertDelta_def st2_def Let_def)
  have "stored_value st1 = snd (memory_UpsertDelta sid d (stored_value st))"
    using assms(2) r by (simp add: st1 s2 stored_value_def memory_UpsertDelta_def Let_def flip: st2_def)
  moreover have "memory_ok st1 \<and> only_own st st1"
    using assms(2) a s1 m by (auto simp: st1 st2_def memory_ok_def only_own_def own_def)
  ultimately show ?thesis by simp
qed

text \<open>The first update makes the store and its map.\<close>

definition first_state :: "str \<Rightarrow> memory \<Rightarrow> memory" where
  "first_state sid st = st\<lparr>me_maps := (me_maps st)(me_next st := Map.empty), me_next := Suc (me_next st),
     me_snapshot := \<lparr>rf_SessionID = sid, rf_Location = [], rf_Prompt = None, rf_StatusTags = [],
                      rf_Equipment = Some (me_next st), rf_UpdatedAt = []\<rparr>, me_found := True\<rparr>"

lemma first_state_facts:
  assumes "\<not> me_found st"
  shows "memory_ok (first_state sid st)" "me_found (first_state sid st)" "only_own st (first_state sid st)"
    "stored_value (first_state sid st) = Some (new_snapshot sid)"
    "ref_UpsertDelta sid d st = ref_UpsertDelta sid d (first_state sid st)"
  using assms
  by (auto simp: first_state_def memory_ok_def only_own_def own_def stored_value_def read_snapshot_def
      new_snapshot_def ref_UpsertDelta_def new_map_def)

lemma upsert_exact:
  assumes "memory_ok st" "st1 = ref_UpsertDelta sid d st"
  shows "memory_ok st1 \<and> only_own st st1 \<and> stored_value st1 = snd (memory_UpsertDelta sid d (stored_value st))"
proof (cases "me_found st")
  case True
  with upsert_found assms show ?thesis by blast
next
  case False
  note F = first_state_facts [OF False, of sid]
  have "stored_value st = None" using False by (simp add: stored_value_def)
  then have "memory_UpsertDelta sid d (stored_value st) = memory_UpsertDelta sid d (stored_value (first_state sid st))"
    by (simp add: F memory_UpsertDelta_def)
  with upsert_found [OF F(1,2)] F(3,5) only_own_trans assms(2) show ?thesis by metis
qed

text \<open>A snapshot that is handed out is the value of the store; its map is the store's own when it is empty.\<close>

lemma get_exact:
  assumes "memory_ok st" "ref_GetLatest st = (r, st1)"
  shows "memory_ok st1 \<and> only_own st st1 \<and> stored_value st1 = stored_value st"
    and "map_option (read_snapshot st1) r = stored_value st"
    and "r = Some s \<Longrightarrow> \<exists>b < me_next st1. rf_Equipment s = Some b
        \<and> (own st1 b \<longleftrightarrow> sn_Equipment (read_snapshot st1 s) = Map.empty)"
proof -
  have "(memory_ok st1 \<and> only_own st st1 \<and> stored_value st1 = stored_value st)
    \<and> map_option (read_snapshot st1) r = stored_value st
    \<and> (\<forall>s. r = Some s \<longrightarrow> (\<exists>b < me_next st1. rf_Equipment s = Some b
        \<and> (own st1 b \<longleftrightarrow> sn_Equipment (read_snapshot st1 s) = Map.empty)))"
  proof (cases "me_found st")
    case False
    with assms show ?thesis by (simp add: ref_GetLatest_def stored_value_def)
  next
    case True
    with ok_map assms(1) obtain a where "rf_Equipment (me_snapshot st) = Some a" "a < me_next st" by blast
    with True assms show ?thesis
      by (auto simp: ref_GetLatest_def new_map_def stored_value_def read_snapshot_def memory_ok_def only_own_def
          own_def Let_def split: if_splits)
  qed
  then show "memory_ok st1 \<and> only_own st st1 \<and> stored_value st1 = stored_value st"
    "map_option (read_snapshot st1) r = stored_value st"
    "r = Some s \<Longrightarrow> \<exists>b < me_next st1. rf_Equipment s = Some b
        \<and> (own st1 b \<longleftrightarrow> sn_Equipment (read_snapshot st1 s) = Map.empty)" by blast+
qed

lemma exec_exact:
  assumes "memory_ok st"
  shows "memory_ok (memory_exec c st) \<and> only_own st (memory_exec c st)
    \<and> stored_value (memory_exec c st) = value_exec c (stored_value st)"
proof (cases c)
  case (PutDelta sid d)
  with upsert_exact [OF assms refl] show ?thesis by simp
next
  case GetSnapshot
  obtain r st1 where "ref_GetLatest st = (r, st1)" by (rule prod.exhaust)
  with get_exact(1) [OF assms] GetSnapshot show ?thesis by simp
qed

lemma runs_exact:
  "memory_ok st \<Longrightarrow> memory_ok (fold memory_exec calls st) \<and> only_own st (fold memory_exec calls st)
    \<and> stored_value (fold memory_exec calls st) = fold value_exec calls (stored_value st)"
proof (induction calls arbitrary: st)
  case (Cons c calls)
  note E = exec_exact [OF Cons.prems, of c]
  with Cons.IH [of "memory_exec c st"] only_own_trans show ?case by auto
qed simp

text \<open>
  C16. A snapshot of the memory store is a copy, with one exception. After any calls of the store, what
  \<open>GetLatest\<close> returns shows its holder the merge of the deltas so far, as the store on values does. However
  many updates and reads follow, the holder goes on seeing exactly that, if the snapshot had equipment;
  if it had none, it shares the map of the store, and later shows whatever equipment the store has by
  then (nothing else of it changes).
\<close>

theorem snapshot_isolation:
  assumes "ref_GetLatest (fold memory_exec calls newMemoryStore) = (Some s, st1)"
    and "st2 = fold memory_exec later st1"
  shows "\<exists>v. fold value_exec calls None = Some v \<and> read_snapshot st1 s = v
    \<and> (\<exists>w. fold value_exec later (Some v) = Some w
        \<and> read_snapshot st2 s = (if sn_Equipment v = Map.empty then v\<lparr>sn_Equipment := sn_Equipment w\<rparr> else v))"
proof -
  let ?st = "fold memory_exec calls newMemoryStore"
  have R: "memory_ok ?st" "stored_value ?st = fold value_exec calls None"
    using runs_exact [OF memory_ok_new(1)] by (simp_all add: memory_ok_new)
  note G = get_exact [OF R(1) assms(1)]
  define v where "v = read_snapshot st1 s"
  have v: "stored_value st1 = Some v" "fold value_exec calls None = Some v" using G(1,2) R(2) by (simp_all add: v_def)
  obtain b where b: "b < me_next st1" "rf_Equipment s = Some b" "own st1 b \<longleftrightarrow> sn_Equipment v = Map.empty"
    using G(3) v_def by blast
  have L: "only_own st1 st2" "stored_value st2 = fold value_exec later (Some v)"
    using runs_exact [of st1 later] G(1) by (simp_all add: assms(2) v)
  have e: "read_snapshot st2 s = v\<lparr>sn_Equipment := me_maps st2 b\<rparr>" and e1: "me_maps st1 b = sn_Equipment v"
    using b(2) by (simp_all add: v_def read_snapshot_def)
  have f: "me_found st2 \<and> memory_ok st2" using runs_exact [of st1 later] G(1) v(1)
    by (auto simp: assms(2) only_own_def own_def stored_value_def memory_ok_def split: if_splits)
  then obtain w where w: "stored_value st2 = Some w" "w = read_snapshot st2 (me_snapshot st2)"
    by (simp add: stored_value_def)
  have "read_snapshot st2 s = (if sn_Equipment v = Map.empty then v\<lparr>sn_Equipment := sn_Equipment w\<rparr> else v)"
  proof (cases "sn_Equipment v = Map.empty")
    case True
    with b L(1) have "rf_Equipment (me_snapshot st2) = Some b" by (auto simp: only_own_def own_def)
    then have "sn_Equipment w = me_maps st2 b" by (simp add: w(2) read_snapshot_def)
    with True show ?thesis by (simp add: e)
  next
    case False
    with b L(1) have "me_maps st2 b = sn_Equipment v" by (auto simp: only_own_def e1)
    with False show ?thesis by (simp add: e)
  qed
  with v w L show ?thesis by (simp add: v_def)
qed

text \<open>A snapshot without equipment, and what it shows after the player puts on a hat.\<close>

definition seen_room :: delta where
  "seen_room = \<lparr>d_Location = lit ''Tavern'', d_Prompt = None, d_StatusTags = [], d_Equipment = Map.empty\<rparr>"

definition seen_hat :: delta where
  "seen_hat = \<lparr>d_Location = [], d_Prompt = None, d_StatusTags = [], d_Equipment = [lit ''head'' \<mapsto> lit ''hat'']\<rparr>"

theorem snapshot_isolation_witness:
  "\<exists>s st1. ref_GetLatest (fold memory_exec [PutDelta [1] seen_room] newMemoryStore) = (Some s, st1)
    \<and> sn_Equipment (read_snapshot st1 s) = Map.empty
    \<and> sn_Equipment (read_snapshot (memory_exec (PutDelta [1] seen_hat) st1) s) = [lit ''head'' \<mapsto> lit ''hat'']"
proof -
  obtain r st1 where g: "ref_GetLatest (fold memory_exec [PutDelta [1] seen_room] newMemoryStore) = (r, st1)"
    by (rule prod.exhaust)
  have v: "fold value_exec [PutDelta [1] seen_room] None = Some ((new_snapshot [1])\<lparr>sn_Location := lit ''Tavern''\<rparr>)"
    by (simp add: memory_UpsertDelta_def mergeSnapshot_def seen_room_def new_snapshot_def Let_def)
  have ok: "memory_ok (fold memory_exec [PutDelta [1] seen_room] newMemoryStore)"
    "stored_value (fold memory_exec [PutDelta [1] seen_room] newMemoryStore) \<noteq> None"
    using runs_exact [OF memory_ok_new(1), of "[PutDelta [1] seen_room]"] v by (simp_all add: memory_ok_new)
  with get_exact(2) [OF ok(1) g] obtain s where s: "r = Some s" by (cases r) auto
  from snapshot_isolation [OF g [unfolded s] refl, of "[PutDelta [1] seen_hat]"] v g s show ?thesis
    by (auto simp: memory_UpsertDelta_def mergeSnapshot_def seen_hat_def new_snapshot_def Let_def)
qed

end
