(* ===== verification/StoreSpec.thy ===== *)
theory StoreSpec
  imports Store ParserSpec
begin

text \<open>
  The contract of the interface \<open>store\<close> of \<open>state/service.go\<close>, what follows from it for the
  service, and both implementations. The view of a store is the snapshot it holds for the one session,
  its time aside.
\<close>

subsection \<open>Merging deltas\<close>

definition merged :: "str \<Rightarrow> delta \<Rightarrow> snapshot option \<Rightarrow> snapshot" where
  "merged sid d v = mergeSnapshot (case v of None \<Rightarrow> new_snapshot sid | Some s \<Rightarrow> s) d"

text \<open>The last element with a property, and a default.\<close>

definition latest :: "('a \<Rightarrow> bool) \<Rightarrow> 'a \<Rightarrow> 'a list \<Rightarrow> 'a" where
  "latest P z xs = last (z # filter P xs)"

lemma latest_snoc [simp]: "latest P z (xs @ [x]) = (if P x then x else latest P z xs)"
  by (simp add: latest_def)

lemma latest_Nil [simp]: "latest P z [] = z"
  by (simp add: latest_def)

definition summary :: "snapshot \<Rightarrow> delta list \<Rightarrow> snapshot" where
  "summary s ds = s\<lparr>sn_Location := latest (\<lambda>l. l \<noteq> []) (sn_Location s) (map d_Location ds),
     sn_Prompt := latest (\<lambda>p. p \<noteq> None) (sn_Prompt s) (map d_Prompt ds),
     sn_StatusTags := latest (\<lambda>t. t \<noteq> []) (sn_StatusTags s) (map d_StatusTags ds),
     sn_Equipment := foldl (++) (sn_Equipment s) (map d_Equipment ds)\<rparr>"

lemma merge_frame [simp]:
  "sn_SessionID (mergeSnapshot s d) = sn_SessionID s" "sn_UpdatedAt (mergeSnapshot s d) = sn_UpdatedAt s"
  by (simp_all add: mergeSnapshot_def Let_def)

lemma merge_fields [simp]:
  "sn_Location (mergeSnapshot s d) = (if d_Location d \<noteq> [] then d_Location d else sn_Location s)"
  "sn_Prompt (mergeSnapshot s d) = (if d_Prompt d \<noteq> None then d_Prompt d else sn_Prompt s)"
  "sn_StatusTags (mergeSnapshot s d) = (if d_StatusTags d \<noteq> [] then d_StatusTags d else sn_StatusTags s)"
  "sn_Equipment (mergeSnapshot s d) = sn_Equipment s ++ d_Equipment d"
  by (auto simp: mergeSnapshot_def Let_def)

lemma merge_summary: "foldl mergeSnapshot s ds = summary s ds"
proof (induction ds rule: rev_induct)
  case Nil
  show ?case by (simp add: summary_def)
next
  case (snoc d ds)
  then show ?case by (simp add: summary_def snapshot.equality)
qed

text \<open>Merging the same delta twice is merging it once.\<close>

lemma map_add_twice: "m ++ d ++ d = m ++ d"
  by (rule ext) (simp add: map_add_def split: option.split)

lemma merge_twice: "mergeSnapshot (mergeSnapshot s d) d = mergeSnapshot s d"
  by (rule snapshot.equality) (simp_all add: map_add_twice)

subsection \<open>The interface\<close>

text \<open>
  A provider promises for its session: an \<open>UpsertDelta\<close> in a good environment succeeds and the view
  is then the old one merged with the delta.
\<close>

locale snapshot_store =
  fixes upsert :: "'i \<Rightarrow> delta \<Rightarrow> 's \<Rightarrow> store_err option \<times> 's"
    and view :: "'s \<Rightarrow> snapshot option"
    and good :: "'i \<Rightarrow> bool"
    and inv :: "'s \<Rightarrow> bool"
    and fits_store :: "delta \<Rightarrow> bool"
    and sid :: str
  assumes upsert_merges: "good i \<Longrightarrow> inv s \<Longrightarrow> \<not> Empty d \<Longrightarrow> fits_store d \<Longrightarrow>
      \<exists>s1. upsert i d s = (None, s1) \<and> inv s1 \<and> view s1 = Some (merged sid d (view s))"
begin

definition ingest_one :: "'i \<times> delta \<Rightarrow> 's \<Rightarrow> 's" where
  "ingest_one x s = (if Empty (snd x) then s else snd (upsert (fst x) (snd x) s))"

lemma ingest_many:
  assumes "\<forall>x \<in> set xs. good (fst x) \<and> fits_store (snd x)" and "inv s"
  shows "inv (fold ingest_one xs s)
    \<and> view (fold ingest_one xs s) =
        (let ds = filter (\<lambda>d. \<not> Empty d) (map snd xs)
         in if ds = [] then view s
            else Some (foldl mergeSnapshot (case view s of None \<Rightarrow> new_snapshot sid | Some v \<Rightarrow> v) ds))"
  using assms
proof (induction xs arbitrary: s)
  case (Cons x xs)
  show ?case
  proof (cases "Empty (snd x)")
    case True
    with Cons show ?thesis by (simp add: ingest_one_def)
  next
    case False
    obtain s1 where s1: "upsert (fst x) (snd x) s = (None, s1)" "inv s1"
      "view s1 = Some (merged sid (snd x) (view s))"
      using upsert_merges [of "fst x" s "snd x"] Cons.prems False by auto
    have "ingest_one x s = s1" using False s1(1) by (simp add: ingest_one_def)
    with Cons.IH [OF _ s1(2)] Cons.prems(1) s1(3) False show ?thesis
      by (auto simp: Let_def merged_def)
  qed
qed simp

end

subsection \<open>The memory store\<close>

lemma same_session_id: "sn_SessionID s = sid \<Longrightarrow> s\<lparr>sn_SessionID := sid\<rparr> = s"
  by (cases s) simp

lemma merged_session:
  "(\<And>s. v = Some s \<Longrightarrow> sn_SessionID s = sid) \<Longrightarrow> sn_SessionID (merged sid d v) = sid"
  by (simp add: merged_def new_snapshot_def split: option.split)

interpretation memory: snapshot_store "\<lambda>_ :: unit. memory_UpsertDelta sid" "\<lambda>m. m" "\<lambda>_. True"
    "\<lambda>m. \<forall>s. m = Some s \<longrightarrow> sn_SessionID s = sid" "\<lambda>_. True" sid for sid
proof (unfold_locales, goal_cases)
  case (1 i m d)
  then have id: "sn_SessionID (merged sid d m) = sid" by (intro merged_session) simp
  then have "memory_UpsertDelta sid d m = (None, Some (merged sid d m))"
    by (simp add: memory_UpsertDelta_def merged_def [symmetric] Let_def same_session_id)
  with id show ?case by simp
qed

subsection \<open>The SQLite store\<close>

definition good_answers :: "db_answers \<Rightarrow> bool" where
  "good_answers a \<longleftrightarrow>
     a_select_snapshot a = None \<and> a_select_equipment a = None \<and> a_exec_snapshot a = None
   \<and> a_begin a = None \<and> (\<forall>slot. a_exec_slot a slot = None) \<and> a_commit a = None
   \<and> (\<forall>e. finite (dom e) \<longrightarrow> set (a_slots a e) = dom e)"

definition delta_ok :: "delta \<Rightarrow> bool" where
  "delta_ok d \<longleftrightarrow> (\<forall>t \<in> set (d_StatusTags d). text_ok t) \<and> finite (dom (d_Equipment d))"

definition tables_ok :: "str \<Rightarrow> tables \<Rightarrow> bool" where
  "tables_ok sid t \<longleftrightarrow>
     (\<forall>r. t_snapshot t sid = Some r \<longrightarrow>
        (\<exists>tags. r_status_tags_json r = tags_json tags \<and> (\<forall>x \<in> set tags. text_ok x)))
   \<and> finite {slot. t_equipment t (sid, slot) \<noteq> None}
   \<and> (t_snapshot t sid = None \<longrightarrow> (\<forall>slot. t_equipment t (sid, slot) = None))
   \<and> (\<forall>sid1. sid1 \<noteq> sid \<longrightarrow> t_snapshot t sid1 = None)"

definition sql_content :: "str \<Rightarrow> tables \<Rightarrow> snapshot option" where
  "sql_content sid t =
     map_option (\<lambda>r. \<lparr>sn_SessionID = sid, sn_Location = r_location r, sn_Prompt = row_prompt r,
         sn_StatusTags = the (read_tags (r_status_tags_json r)),
         sn_Equipment = (\<lambda>slot. map_option fst (t_equipment t (sid, slot))),
         sn_UpdatedAt = []\<rparr>) (t_snapshot t sid)"

lemma all_some_map: "(\<And>x. x \<in> set xs \<Longrightarrow> f x = Some (g x)) \<Longrightarrow> all_some (map f xs) = Some (map g xs)"
  by (induction xs) auto

lemma tags_round: "(\<forall>x \<in> set tags. text_ok x) \<Longrightarrow> read_tags (tags_json tags) = Some tags"
proof -
  assume ok: "\<forall>x \<in> set tags. text_ok x"
  have "all_some (map json_tag (map JStr tags)) = Some tags"
    using all_some_map [of tags "\<lambda>x. json_tag (JStr x)" "\<lambda>x. x"] by (simp add: comp_def)
  moreover have "json_ok (if tags = [] then JNull else JArr (map JStr tags))" using ok by simp
  ultimately show ?thesis
    by (simp add: read_tags_def tags_json_def parse_print [of "if tags = [] then JNull else JArr (map JStr tags)"])
qed

lemma tags_json_nonempty: "tags_json tags \<noteq> []"
  by (simp add: tags_json_def)

lemma row_prompt_snapshot [simp]: "row_prompt (snapshot_row s) = sn_Prompt s"
  by (cases "sn_Prompt s") (simp_all add: row_prompt_def snapshot_row_def)


lemma GetBySession_content:
  assumes "good_answers a" "tables_ok sid t"
  shows "\<exists>found. GetBySession a sid t = Inr found
    \<and> map_option (\<lambda>s. s\<lparr>sn_UpdatedAt := []\<rparr>) found = sql_content sid t
    \<and> (\<forall>s. found = Some s \<longrightarrow> sn_SessionID s = sid \<and> (\<forall>x \<in> set (sn_StatusTags s). text_ok x)
          \<and> sn_Equipment s = (\<lambda>slot. map_option fst (t_equipment t (sid, slot))))"
proof (cases "t_snapshot t sid")
  case None
  with assms(1) show ?thesis by (simp add: GetBySession_def good_answers_def sql_content_def)
next
  case (Some r)
  with assms(2) obtain tags where "r_status_tags_json r = tags_json tags" "\<forall>x \<in> set tags. text_ok x"
    by (auto simp: tables_ok_def)
  with Some assms(1) show ?thesis
    by (simp add: GetBySession_def good_answers_def sql_content_def loadEquipment_def tags_round
        tags_json_nonempty)
qed

text \<open>A transaction in which no statement fails writes the listed slots.\<close>

definition slots_written ::
    "str \<Rightarrow> equipment \<Rightarrow> str \<Rightarrow> str set \<Rightarrow> (str \<times> str \<rightharpoonup> str \<times> str) \<Rightarrow> (str \<times> str \<rightharpoonup> str \<times> str)" where
  "slots_written sid equipment now S m =
     (\<lambda>(s, slot). if s = sid \<and> slot \<in> S \<and> equipment slot \<noteq> None
        then map_option (\<lambda>item. (item, now)) (equipment slot) else m (s, slot))"

lemma slots_written_step:
  "equipment slot = None \<Longrightarrow> slots_written sid equipment now (insert slot S) m = slots_written sid equipment now S m"
  "equipment slot = Some item \<Longrightarrow> slots_written sid equipment now S (m((sid, slot) \<mapsto> (item, now)))
     = slots_written sid equipment now (insert slot S) m"
  by (auto simp: slots_written_def fun_eq_iff)

lemma equipment_tx_good:
  "\<forall>slot. a_exec_slot a slot = None \<Longrightarrow> equipment_tx a sid equipment now slots t =
     Inr (t\<lparr>t_equipment := slots_written sid equipment now (set slots) (t_equipment t)\<rparr>)"
proof (induction slots arbitrary: t)
  case Nil
  have "slots_written sid equipment now {} m = m" for m by (auto simp: slots_written_def)
  then show ?case by simp
next
  case (Cons slot slots)
  then show ?case by (auto simp: slots_written_step split: option.split)
qed

lemma equipment_tx_frame:
  "equipment_tx a sid equipment now slots t = Inr t1 \<Longrightarrow> t_snapshot t1 = t_snapshot t"
  by (induction a sid equipment now slots t rule: equipment_tx.induct) (auto split: option.splits)

lemma finite_dom_slots: "finite {slot. f slot \<noteq> None} \<Longrightarrow> finite (dom (\<lambda>slot. map_option fst (f slot)))"
  by (simp add: dom_def)

lemma upsertEquipment_good:
  assumes "good_answers a" "finite (dom equipment)"
  shows "upsertEquipment a sid equipment now t =
    (None, t\<lparr>t_equipment := slots_written sid equipment now (dom equipment) (t_equipment t)\<rparr>)"
proof (cases "equipment = Map.empty")
  case True
  have "slots_written sid Map.empty now {} m = m" for m by (auto simp: slots_written_def)
  with True show ?thesis by (simp add: upsertEquipment_def)
next
  case False
  have "set (a_slots a equipment) = dom equipment" using assms by (simp add: good_answers_def)
  with False assms(1) equipment_tx_good [of a] show ?thesis by (simp add: upsertEquipment_def good_answers_def)
qed

text \<open>What a written snapshot row says.\<close>

lemma stored_row:
  assumes "t_snapshot t1 = (t_snapshot t)(sid \<mapsto> snapshot_row s)" "\<forall>x \<in> set (sn_StatusTags s). text_ok x"
    "(\<lambda>slot. map_option fst (t_equipment t1 (sid, slot))) = e" "sn_SessionID s = sid"
  shows "sql_content sid t1 = Some (s\<lparr>sn_Equipment := e, sn_UpdatedAt := []\<rparr>)"
    and "tables_ok sid t \<Longrightarrow> finite (dom e) \<Longrightarrow> tables_ok sid t1"
proof -
  show "sql_content sid t1 = Some (s\<lparr>sn_Equipment := e, sn_UpdatedAt := []\<rparr>)"
    using assms(2-4) by (simp add: sql_content_def assms(1)) (simp add: snapshot_row_def tags_round)
  have "{slot. t_equipment t1 (sid, slot) \<noteq> None} = dom e" by (auto simp: assms(3) [symmetric] dom_def)
  then show "tables_ok sid t \<Longrightarrow> finite (dom e) \<Longrightarrow> tables_ok sid t1"
    using assms(2) unfolding tables_ok_def assms(1) by (auto simp: snapshot_row_def)
qed

text \<open>The snapshot an upsert writes.\<close>

definition written :: "utc \<Rightarrow> str \<Rightarrow> delta \<Rightarrow> snapshot option \<Rightarrow> snapshot" where
  "written now sid d found = (merged sid d found)\<lparr>sn_SessionID := sid, sn_UpdatedAt := rfc3339nano now\<rparr>"

lemma written_merged:
  assumes "\<And>s. found = Some s \<Longrightarrow> sn_SessionID s = sid" "map_option (\<lambda>s. s\<lparr>sn_UpdatedAt := []\<rparr>) found = v"
  shows "(written now sid d found)\<lparr>sn_Equipment := e, sn_UpdatedAt := []\<rparr> = (merged sid d v)\<lparr>sn_Equipment := e\<rparr>"
    and "sn_Equipment (written now sid d found) = sn_Equipment (merged sid d v)"
  using assms by (cases found; auto simp: written_def merged_def new_snapshot_def intro!: snapshot.equality)+

lemma written_tags:
  "delta_ok d \<Longrightarrow> (\<And>s. found = Some s \<Longrightarrow> \<forall>x \<in> set (sn_StatusTags s). text_ok x) \<Longrightarrow>
   \<forall>x \<in> set (sn_StatusTags (written now sid d found)). text_ok x"
  by (cases found) (auto simp: written_def merged_def new_snapshot_def delta_ok_def)

lemma sql_upsert:
  assumes a: "good_answers a" and t: "tables_ok sid t" and d: "\<not> Empty d" "delta_ok d" and sid: "sid \<noteq> []"
  shows "\<exists>t1. UpsertDelta a now sid d t = (None, t1) \<and> tables_ok sid t1
    \<and> sql_content sid t1 = Some (merged sid d (sql_content sid t))"
proof -
  obtain found where g: "GetBySession a sid t = Inr found"
    "map_option (\<lambda>s. s\<lparr>sn_UpdatedAt := []\<rparr>) found = sql_content sid t"
    and f: "\<And>s. found = Some s \<Longrightarrow> sn_SessionID s = sid \<and> (\<forall>x \<in> set (sn_StatusTags s). text_ok x)
          \<and> sn_Equipment s = (\<lambda>slot. map_option fst (t_equipment t (sid, slot)))"
    using GetBySession_content [OF a t] by blast
  let ?s = "written now sid d found"
  have "t_snapshot t sid = None" if "found = None"
    using arg_cong [OF g(2), of "\<lambda>x. x = None"] that by (simp add: sql_content_def)
  then have eq: "sn_Equipment ?s = (\<lambda>slot. map_option fst (t_equipment t (sid, slot))) ++ d_Equipment d"
    using f t by (cases found) (auto simp: written_def merged_def new_snapshot_def tables_ok_def)
  have fin: "finite (dom (sn_Equipment ?s))"
    using t d(2) finite_dom_slots [of "\<lambda>slot. t_equipment t (sid, slot)"] by (simp add: eq tables_ok_def delta_ok_def)
  have tags: "\<forall>x \<in> set (sn_StatusTags ?s). text_ok x" using written_tags [OF d(2)] f by blast
  let ?t1 = "t\<lparr>t_snapshot := (t_snapshot t)(sid \<mapsto> snapshot_row ?s),
    t_equipment := slots_written sid (sn_Equipment ?s) (rfc3339nano now) (dom (sn_Equipment ?s)) (t_equipment t)\<rparr>"
  have "sn_SessionID ?s = sid" "sn_UpdatedAt ?s = rfc3339nano now" by (simp_all add: written_def)
  then have "UpsertDelta a now sid d t = (None, ?t1)"
    using g(1) a d(1) sid upsertEquipment_good [OF a fin]
    by (simp add: UpsertDelta_def upsertSnapshot_def good_answers_def Let_def written_def merged_def)
  moreover have "(\<lambda>slot. map_option fst (t_equipment ?t1 (sid, slot))) = sn_Equipment ?s"
    by (auto simp: fun_eq_iff slots_written_def eq map_add_def option.map_comp comp_def option.map_ident
        split: option.splits)
  note R = stored_row [OF _ tags this, where t = t]
  moreover have "tables_ok sid ?t1" by (rule R(2)) (use t fin in \<open>simp_all add: written_def\<close>)
  moreover have "sql_content sid ?t1 = Some (?s\<lparr>sn_Equipment := sn_Equipment ?s, sn_UpdatedAt := []\<rparr>)"
    by (rule R(1)) (simp_all add: written_def)
  ultimately show ?thesis using written_merged [OF _ g(2), where sid = sid and now = now and d = d] f by auto
qed

interpretation sqlite: snapshot_store "\<lambda>i. UpsertDelta (fst i) (snd i) sid" "sql_content sid"
    "\<lambda>i. good_answers (fst i) \<and> sid \<noteq> []" "tables_ok sid" delta_ok sid for sid
  by unfold_locales (use sql_upsert in blast)

lemma tables_ok_init: "tables_ok sid init_tables"
  by (simp add: tables_ok_def init_tables_def)

subsection \<open>What a parsed delta looks like\<close>

lemma tags_known: "t \<in> set (parseStatusTags s) \<Longrightarrow> \<exists>k. (k, t) \<in> set knownStatusTags"
  by (auto simp: parseStatusTags_def Let_def collect_tags_set(1) split: if_splits dest: map_of_SomeD)

lemma known_text: "(k, t) \<in> set knownStatusTags \<Longrightarrow> text_ok t"
  by (auto simp: knownStatusTags_def text_ok_def scalar_def)

lemma finite_equip_lines: "finite (dom m) \<Longrightarrow> finite (dom (equip_lines orders lines m))"
  by (induction orders lines m rule: equip_lines.induct) (auto simp: Let_def split: option.split)

lemma Parse_delta_ok: "delta_ok (Parse orders s)"
proof -
  let ?c = "normalizeText s"
  have "finite (dom (parseEquipment orders ?c))"
    unfolding parseEquipment_def by (rule finite_equip_lines) simp
  moreover have "\<forall>t \<in> set (parseStatusTags ?c). text_ok t"
    using tags_known known_text by blast
  ultimately show ?thesis by (simp add: delta_ok_def Parse_def no_delta_def Let_def)
qed

subsection \<open>Ingesting a stream of texts\<close>

text \<open>
  The state service over a store, one call of \<open>Ingest\<close> after the other; an environment for each
  call comes with the text.
\<close>

definition ingest_texts ::
    "('i \<Rightarrow> str \<Rightarrow> delta \<Rightarrow> 's \<Rightarrow> store_err option \<times> 's) \<Rightarrow> str \<Rightarrow> ('i \<times> (nat \<Rightarrow> alias_order) \<times> str) list
     \<Rightarrow> 's \<Rightarrow> 's" where
  "ingest_texts upsert sid calls s =
     fold (\<lambda>(i, orders, txt) s. snd (Ingest (upsert i) orders sid txt s)) calls s"

definition deltas_of :: "('i \<times> (nat \<Rightarrow> alias_order) \<times> str) list \<Rightarrow> delta list" where
  "deltas_of calls = filter (\<lambda>d. \<not> Empty d) (map (\<lambda>(i, orders, txt). Parse orders txt) calls)"

lemma ingest_memory_fold:
  "ingest_texts (\<lambda>_ :: unit. memory_UpsertDelta) sid calls s =
     fold (memory.ingest_one sid) (map (\<lambda>(i, orders, txt). (i, Parse orders txt)) calls) s"
  by (induction calls arbitrary: s)
    (auto simp: ingest_texts_def Ingest_def memory.ingest_one_def Let_def)

lemma ingest_sqlite_fold:
  "ingest_texts (\<lambda>i. UpsertDelta (fst i) (snd i)) sid calls s =
     fold (sqlite.ingest_one sid) (map (\<lambda>(i, orders, txt). (i, Parse orders txt)) calls) s"
  by (induction calls arbitrary: s)
    (auto simp: ingest_texts_def Ingest_def sqlite.ingest_one_def Let_def)

lemma deltas_pairs:
  "filter (\<lambda>d. \<not> Empty d) (map snd (map (\<lambda>(i, orders, txt). (i, Parse orders txt)) calls)) = deltas_of calls"
  by (simp add: deltas_of_def comp_def case_prod_unfold)

definition stored_after :: "str \<Rightarrow> delta list \<Rightarrow> snapshot option" where
  "stored_after sid ds = (if ds = [] then None else Some (summary (new_snapshot sid) ds))"

lemma memory_stores:
  "ingest_texts (\<lambda>_ :: unit. memory_UpsertDelta) sid calls None = stored_after sid (deltas_of calls)"
proof -
  let ?xs = "map (\<lambda>(i, orders, txt). (i, Parse orders txt)) calls"
  have "fold (memory.ingest_one sid) ?xs None =
      (let ds = deltas_of calls in if ds = [] then None else Some (foldl mergeSnapshot (new_snapshot sid) ds))"
    using memory.ingest_many [of ?xs None sid] unfolding deltas_pairs Let_def by simp
  then show ?thesis by (simp add: ingest_memory_fold stored_after_def merge_summary Let_def)
qed

lemma sqlite_stores:
  assumes "sid \<noteq> []" "\<forall>(i, orders, txt) \<in> set calls. good_answers (fst i)"
    and "t = ingest_texts (\<lambda>i. UpsertDelta (fst i) (snd i)) sid calls init_tables"
  shows "tables_ok sid t \<and> sql_content sid t = stored_after sid (deltas_of calls)"
proof -
  let ?xs = "map (\<lambda>(i, orders, txt). (i, Parse orders txt)) calls"
  have "\<forall>x \<in> set ?xs. (good_answers (fst (fst x)) \<and> sid \<noteq> []) \<and> delta_ok (snd x)"
    using assms(1,2) Parse_delta_ok by auto
  from sqlite.ingest_many [OF this tables_ok_init] show ?thesis
    unfolding deltas_pairs assms(3) ingest_sqlite_fold
    by (simp add: stored_after_def merge_summary Let_def sql_content_def init_tables_def)
qed

lemma latest_single:
  assumes "tables_ok sid t" "latest_answer t answer"
  shows "answer = (if sql_content sid t = None then None else Some sid)"
proof (cases answer)
  case None
  with assms(2) show ?thesis by (simp add: latest_answer_def sql_content_def)
next
  case (Some x)
  with assms show ?thesis by (auto simp: latest_answer_def sql_content_def tables_ok_def)
qed

text \<open>
  C15. The state the API shows is the sum of what the parser saw, whichever store is used. Let any
  texts of one session be ingested, no database statement failing. Then \<open>GetLatest\<close> finds nothing
  exactly when every delta was empty, and otherwise the snapshot of the session: the last location,
  the last prompt and the last non-empty list of tags ever parsed, and for each slot the item parsed
  last. The SQLite store and the memory store answer the same, the time of the update aside.
\<close>

theorem stores_agree:
  assumes "sid \<noteq> []" and "\<forall>(i, orders, txt) \<in> set calls. good_answers (fst i)"
    and "t = ingest_texts (\<lambda>i. UpsertDelta (fst i) (snd i)) sid calls init_tables"
    and "m = ingest_texts (\<lambda>_ :: unit. memory_UpsertDelta) sid (map (\<lambda>(i, orders, txt). ((), orders, txt)) calls) None"
    and "latest_answer t answer" and "good_answers a"
  shows "\<exists>found. GetLatest a (Inr answer) t = Inr found
    \<and> map_option (\<lambda>s. s\<lparr>sn_UpdatedAt := []\<rparr>) found = stored_after sid (deltas_of calls)
    \<and> memory_GetLatest m = Inr (stored_after sid (deltas_of calls))"
proof -
  note S = sqlite_stores [OF assms(1-3)]
  have "deltas_of (map (\<lambda>(i, orders, txt). ((), orders, txt)) calls) = deltas_of calls"
    by (simp add: deltas_of_def comp_def case_prod_unfold)
  then have "memory_GetLatest m = Inr (stored_after sid (deltas_of calls))"
    by (simp add: assms(4) memory_GetLatest_def memory_stores)
  moreover from S have t: "tables_ok sid t" by simp
  moreover have "\<exists>found. GetLatest a (Inr answer) t = Inr found
      \<and> map_option (\<lambda>s. s\<lparr>sn_UpdatedAt := []\<rparr>) found = sql_content sid t"
    using GetBySession_content [OF assms(6) t] latest_single [OF t assms(5)]
    by (auto simp: GetLatest_def)
  ultimately show ?thesis using S by auto
qed


lemma latest_exists:
  "tables_ok sid t \<Longrightarrow> latest_answer t (if sql_content sid t = None then None else Some sid)"
  by (auto simp: latest_answer_def sql_content_def tables_ok_def fun_eq_iff split: option.split)
    (metis option.distinct(1) option.inject order_refl)+

definition all_good :: db_answers where
  "all_good = \<lparr>a_select_snapshot = None, a_select_equipment = None, a_exec_snapshot = None, a_begin = None,
     a_exec_slot = (\<lambda>_. None), a_commit = None, a_slots = (\<lambda>e. sorted_list_of_set (dom e))\<rparr>"

lemma all_good: "good_answers all_good"
  by (simp add: good_answers_def all_good_def)

lemma parse_tavern:
  "Parse orders (lit ''Tavern'') = no_delta\<lparr>d_Location := lit ''Tavern''\<rparr>"
proof -
  have n: "normalizeText (lit ''Tavern'') = lit ''Tavern''"
    using delete_all_absent [OF opened_ansi, of "lit ''Tavern''" "[]"]
    by (simp add: normalizeText_def replace_all_absent)
  have p: "find_all promptRegex (lit ''Tavern'') = []" "find_all tagRegex (lit ''Tavern'') = []"
    by (rule find_all_absent [OF opened_prompt], simp, rule find_all_absent [OF opened_tag], simp)
  have m: "match_string promptRegex (lit ''Tavern'') = False"
    using opened_other(2) [OF opened_prompt, of 0] by (simp add: opened_other(1) [OF opened_prompt])
  have l: "split_on 10 (lit ''Tavern'') = [lit ''Tavern'']" by simp
  have t: "trim_space (lit ''Tavern'') = lit ''Tavern''" by (rule trim_space_id) (simp add: trimmed_def is_space_def)
  have "parseLocation (lit ''Tavern'') = lit ''Tavern''"
    unfolding parseLocation_def l
    using m by (simp only: location_of.simps t Let_def)
      (simp add: isLikelyLocation_def utf8_len_def encode_utf8_def rune_bytes_def has_suffix_def to_lower_def lower_rune_def)
  moreover have "parseEquipment orders (lit ''Tavern'') = Map.empty"
    unfolding parseEquipment_def l
    by (simp only: equip_lines.simps parseEquipmentLine_def t Let_def) (simp add: split_n2_def)
  ultimately show ?thesis
    by (simp only: Parse_def n t Let_def parsePrompt_def parseStatusTags_def p) (simp add: no_delta_def)
qed

theorem stores_agree_witness:
  "memory_GetLatest (ingest_texts (\<lambda>_ :: unit. memory_UpsertDelta) (lit ''s-1'')
      [((), (\<lambda>_. equipmentAliases), lit ''Tavern'')] None)
   = Inr (Some ((new_snapshot (lit ''s-1''))\<lparr>sn_Location := lit ''Tavern''\<rparr>))"
proof -
  let ?calls = "[((all_good, UTC 2026 3 5 12 0 0 0), (\<lambda>_ :: nat. equipmentAliases), lit ''Tavern'')]"
  let ?t = "ingest_texts (\<lambda>i. UpsertDelta (fst i) (snd i)) (lit ''s-1'') ?calls init_tables"
  have g: "\<forall>(i, orders, txt) \<in> set ?calls. good_answers (fst i)" by (simp add: all_good)
  have t: "tables_ok (lit ''s-1'') ?t" using sqlite_stores [OF _ g refl] by simp
  have d: "deltas_of ?calls = [no_delta\<lparr>d_Location := lit ''Tavern''\<rparr>]"
    by (simp only: deltas_of_def list.map prod.case parse_tavern) (simp add: Empty_def no_delta_def)
  have "stored_after (lit ''s-1'') (deltas_of ?calls)
      = Some ((new_snapshot (lit ''s-1''))\<lparr>sn_Location := lit ''Tavern''\<rparr>)"
    unfolding d by (simp add: stored_after_def summary_def new_snapshot_def no_delta_def latest_def)
  with stores_agree [OF _ g refl refl latest_exists [OF t] all_good] show ?thesis by auto
qed

subsection \<open>Failures\<close>

lemma GetBySession_result:
  assumes "tables_ok sid t" "GetBySession a sid t = Inr found"
  shows "map_option (\<lambda>s. s\<lparr>sn_UpdatedAt := []\<rparr>) found = sql_content sid t
    \<and> (\<forall>s. found = Some s \<longrightarrow> (\<forall>x \<in> set (sn_StatusTags s). text_ok x))"
proof (cases "t_snapshot t sid")
  case None
  with assms(2) show ?thesis by (auto simp: GetBySession_def sql_content_def split: option.splits)
next
  case (Some r)
  with assms(1) obtain tags where "r_status_tags_json r = tags_json tags" "\<forall>x \<in> set tags. text_ok x"
    by (auto simp: tables_ok_def)
  with Some assms(2) show ?thesis
    by (auto simp: GetBySession_def sql_content_def loadEquipment_def tags_round tags_json_nonempty
        split: option.splits)
qed

definition equipment_of :: "snapshot option \<Rightarrow> equipment" where
  "equipment_of v = (case v of None \<Rightarrow> Map.empty | Some s \<Rightarrow> sn_Equipment s)"

lemma sql_upsert_failed:
  assumes t: "tables_ok sid t" and f: "UpsertDelta a now sid d t = (Some e, t1)" and d: "delta_ok d"
  shows "tables_ok sid t1 \<and> (sql_content sid t1 = sql_content sid t
    \<or> sql_content sid t1 = Some ((merged sid d (sql_content sid t))\<lparr>sn_Equipment := equipment_of (sql_content sid t)\<rparr>))"
proof (cases "GetBySession a sid t")
  case (Inl e1)
  with f t show ?thesis by (auto simp: UpsertDelta_def split: if_splits)
next
  case (Inr found)
  note R = GetBySession_result [OF t Inr]
  have id: "sn_SessionID s = sid" if "found = Some s" for s
    using R that by (cases "t_snapshot t sid") (auto simp: sql_content_def dest: arg_cong [of _ _ sn_SessionID])
  let ?t2 = "t\<lparr>t_snapshot := (t_snapshot t)(sid \<mapsto> snapshot_row (written now sid d found))\<rparr>"
  have "t1 = t \<or> t1 = ?t2"
    using f Inr by (auto simp: UpsertDelta_def Let_def upsertSnapshot_def upsertEquipment_def written_def merged_def
        split: option.splits sum.splits if_splits)
  moreover have tags: "\<forall>x \<in> set (sn_StatusTags (written now sid d found)). text_ok x"
    using written_tags [OF d] R by blast
  have "(\<lambda>slot. map_option fst (t_equipment ?t2 (sid, slot))) = equipment_of (sql_content sid t)"
    using t by (cases "t_snapshot t sid") (auto simp: equipment_of_def sql_content_def tables_ok_def)
  note S = stored_row [OF _ tags this, where t = t]
  have "finite (dom (equipment_of (sql_content sid t)))"
    using t finite_dom_slots [of "\<lambda>slot. t_equipment t (sid, slot)"]
    by (cases "t_snapshot t sid") (auto simp: equipment_of_def sql_content_def tables_ok_def)
  then have "tables_ok sid ?t2" by (intro S(2)) (simp_all add: written_def t)
  moreover have "sql_content sid ?t2 = Some ((written now sid d found)\<lparr>sn_Equipment := equipment_of (sql_content sid t), sn_UpdatedAt := []\<rparr>)"
    by (rule S(1)) (simp_all add: written_def)
  moreover have "(written now sid d found)\<lparr>sn_Equipment := equipment_of (sql_content sid t), sn_UpdatedAt := []\<rparr>
      = (merged sid d (sql_content sid t))\<lparr>sn_Equipment := equipment_of (sql_content sid t)\<rparr>"
    by (rule written_merged(1)) (use id R in auto)
  ultimately show ?thesis using t by auto
qed

lemma merged_partial:
  "merged sid d (Some ((merged sid d v)\<lparr>sn_Equipment := equipment_of v\<rparr>)) = merged sid d v"
  by (cases v) (auto simp: merged_def equipment_of_def new_snapshot_def intro!: snapshot.equality)

text \<open>
  C37. A failed write is never more than partial, and a retry heals it. When \<open>UpsertDelta\<close> fails at
  any of its statements, the state of the session is the old one, or the old one with the delta's
  location, prompt and tags but with the old equipment (the snapshot row is written outside the
  equipment transaction). Whichever it is, the same delta upserted again without a failure leaves
  exactly the state one undisturbed upsert would have left.
\<close>

theorem failed_upsert_heals:
  assumes "tables_ok sid t" and "UpsertDelta a now sid d t = (Some e, t1)"
    and "delta_ok d" and "good_answers a2" and "UpsertDelta a2 now2 sid d t1 = (r, t2)"
  shows "(sql_content sid t1 = sql_content sid t
       \<or> sql_content sid t1 = Some ((merged sid d (sql_content sid t))\<lparr>sn_Equipment := equipment_of (sql_content sid t)\<rparr>))
    \<and> r = None \<and> sql_content sid t2 = Some (merged sid d (sql_content sid t))"
proof -
  note F = sql_upsert_failed [OF assms(1-3)]
  from assms(2) have ne: "sid \<noteq> []" "\<not> Empty d" by (auto simp: UpsertDelta_def split: if_splits)
  from sql_upsert [OF assms(4) _ ne(2) assms(3) ne(1), of t1 now2] F assms(5)
  have "r = None" "sql_content sid t2 = Some (merged sid d (sql_content sid t1))" by auto
  moreover from F have "merged sid d (sql_content sid t1) = merged sid d (sql_content sid t)"
    by (auto simp: merged_partial)
  ultimately show ?thesis using F by simp
qed

text \<open>A delta with a location and an item, and a database that fails at the commit.\<close>

definition sample_delta :: delta where
  "sample_delta = no_delta\<lparr>d_Location := lit ''Inn'', d_Equipment := [lit ''head'' \<mapsto> lit ''helm'']\<rparr>"

theorem failed_upsert_heals_witness:
  "fst (UpsertDelta (all_good\<lparr>a_commit := Some (lit ''disk full'')\<rparr>) (UTC 2026 3 5 12 0 0 0) (lit ''s-1'')
      sample_delta init_tables) = Some (CommitEquipmentErr (lit ''disk full''))
   \<and> sql_content (lit ''s-1'') (snd (UpsertDelta all_good (UTC 2026 3 5 12 0 0 1) (lit ''s-1'') sample_delta
        (snd (UpsertDelta (all_good\<lparr>a_commit := Some (lit ''disk full'')\<rparr>) (UTC 2026 3 5 12 0 0 0)
          (lit ''s-1'') sample_delta init_tables))))
     = Some (merged (lit ''s-1'') sample_delta None)"
proof -
  let ?a = "all_good\<lparr>a_commit := Some (lit ''disk full'')\<rparr>"
  obtain e t1 where f: "UpsertDelta ?a (UTC 2026 3 5 12 0 0 0) (lit ''s-1'') sample_delta init_tables = (e, t1)"
    by (metis surj_pair)
  obtain r t2 where r: "UpsertDelta all_good (UTC 2026 3 5 12 0 0 1) (lit ''s-1'') sample_delta t1 = (r, t2)"
    by (metis surj_pair)
  have e: "e = Some (CommitEquipmentErr (lit ''disk full''))"
    using f by (simp add: UpsertDelta_def sample_delta_def Empty_def no_delta_def GetBySession_def all_good_def
        init_tables_def upsertSnapshot_def upsertEquipment_def equipment_tx_good mergeSnapshot_def
        new_snapshot_def Let_def split: if_splits)
  have c0: "sql_content sid init_tables = None" for sid by (simp add: sql_content_def init_tables_def)
  have "delta_ok sample_delta" by (simp add: delta_ok_def sample_delta_def no_delta_def)
  from failed_upsert_heals [OF tables_ok_init f [unfolded e] this all_good r] f e r show ?thesis
    by (simp add: c0)
qed

end
