(* ===== verification/Suggestions.thy ===== *)
theory Suggestions
  imports Store
begin

text \<open>
  \<open>suggestions/service.go\<close>: the debounced requests for a suggestion. Each method is a critical
  section of \<open>s.mu\<close> on the fields of \<open>Service\<close>; \<open>runJob\<close> is their composition, and
  SuggestionRace interleaves them. The timers are the environment's: an armed timer is an entry of
  \<open>su_timer\<close> with the job it will start. The snapshot, the answer of the model and the clock are
  inputs.
\<close>

record suggestion =
  sg_Commands :: "str list"
  sg_Reason :: str
  sg_ExpectedOutcome :: str
  sg_GeneratedAt :: str

definition no_suggestion :: suggestion where
  "no_suggestion = \<lparr>sg_Commands = [], sg_Reason = [], sg_ExpectedOutcome = [], sg_GeneratedAt = []\<rparr>"

record runtime_status =
  rt_InProgress :: bool
  rt_LastError :: str
  rt_LastErrorAt :: str

record service =
  su_recentLinesMax :: int
  su_recent :: "str \<Rightarrow> str list"
  su_timer :: "str \<Rightarrow> uint64 option"
  su_jobSeq :: "str \<Rightarrow> uint64"
  su_active :: "(str \<times> uint64) list"
  su_cancelled :: "(str \<times> uint64) list"
  su_inFlight :: int
  su_lastError :: str
  su_lastErrorAt :: utc
  su_latest :: suggestion
  su_latestFound :: bool

definition defaultRecentLines :: int where "defaultRecentLines = 80"

definition NewSuggestions :: "int \<Rightarrow> service" where
  "NewSuggestions recentLinesMax =
     \<lparr>su_recentLinesMax = (if recentLinesMax \<le> 0 then defaultRecentLines else recentLinesMax),
      su_recent = (\<lambda>_. []), su_timer = (\<lambda>_. None), su_jobSeq = (\<lambda>_. 0), su_active = [],
      su_cancelled = [], su_inFlight = 0, su_lastError = [], su_lastErrorAt = zero_time,
      su_latest = no_suggestion, su_latestFound = False\<rparr>"

subsection \<open>The log\<close>

definition log_lines :: "str \<Rightarrow> str list" where
  "log_lines s = split_on 10 (replace_all [13] [10] (replace_all [13, 10] [10] s))"

fun add_lines :: "str list \<Rightarrow> str list \<Rightarrow> str list" where
  "add_lines existing [] = existing"
| "add_lines existing (part # parts) =
     (let line = trim_space part
      in if line = [] then add_lines existing parts else add_lines (existing @ [line]) parts)"

definition appendLogLines :: "str list \<Rightarrow> str \<Rightarrow> str list" where
  "appendLogLines existing s = add_lines existing (log_lines s)"

definition trimRecent :: "str list \<Rightarrow> int \<Rightarrow> str list" where
  "trimRecent lines limit =
     (if limit \<le> 0 \<or> int (length lines) \<le> limit then lines else drop (length lines - nat limit) lines)"

subsection \<open>The critical sections\<close>

definition IngestTerminal :: "str \<Rightarrow> str \<Rightarrow> service \<Rightarrow> service" where
  "IngestTerminal sessionID txt s =
     (if trim_space txt = [] then s
      else
        let lines = appendLogLines (su_recent s sessionID) txt;
            seq = su_jobSeq s sessionID + 1
        in s\<lparr>su_recent := (su_recent s)(sessionID := trimRecent lines (su_recentLinesMax s)),
             su_jobSeq := (su_jobSeq s)(sessionID := seq),
             su_timer := (su_timer s)(sessionID := Some seq)\<rparr>)"

definition Latest :: "service \<Rightarrow> suggestion \<times> bool" where
  "Latest s = (if \<not> su_latestFound s then (no_suggestion, False) else (su_latest s, True))"

definition Suggestion_Status :: "service \<Rightarrow> runtime_status" where
  "Suggestion_Status s =
     (let status = \<lparr>rt_InProgress = (su_inFlight s > 0), rt_LastError = [], rt_LastErrorAt = []\<rparr>
      in if trim_space (su_lastError s) \<noteq> []
         then status\<lparr>rt_LastError := su_lastError s, rt_LastErrorAt := rfc3339nano (su_lastErrorAt s)\<rparr>
         else status)"

definition CancelInFlight :: "service \<Rightarrow> bool \<times> service" where
  "CancelInFlight s =
     (if su_active s = [] then (False, s)
      else (True, s\<lparr>su_cancelled := su_active s @ su_cancelled s\<rparr>))"

definition markInFlight :: "str \<Rightarrow> uint64 \<Rightarrow> service \<Rightarrow> service" where
  "markInFlight sessionID seq s =
     s\<lparr>su_active := (if (sessionID, seq) \<in> set (su_active s) then su_active s
                    else (sessionID, seq) # su_active s),
       su_inFlight := su_inFlight s + 1\<rparr>"

definition markCompleted :: "str \<Rightarrow> uint64 \<Rightarrow> service \<Rightarrow> service" where
  "markCompleted sessionID seq s =
     (if (sessionID, seq) \<notin> set (su_active s) then s
      else s\<lparr>su_active := filter (\<lambda>x. x \<noteq> (sessionID, seq)) (su_active s),
             su_inFlight := (if su_inFlight s > 0 then su_inFlight s - 1 else su_inFlight s)\<rparr>)"

definition setLastError :: "str \<Rightarrow> utc \<Rightarrow> service \<Rightarrow> service" where
  "setLastError message now s =
     (let trimmed = trim_space message
      in if trimmed = [] then s else s\<lparr>su_lastError := trimmed, su_lastErrorAt := now\<rparr>)"

definition publish :: "str \<Rightarrow> uint64 \<Rightarrow> suggestion \<Rightarrow> service \<Rightarrow> service" where
  "publish sessionID seq parsed s =
     (if su_jobSeq s sessionID \<noteq> seq then s
      else s\<lparr>su_latest := parsed, su_latestFound := True, su_lastError := [], su_lastErrorAt := zero_time\<rparr>)"

subsection \<open>The prompt\<close>

definition prompt_intro :: str where
  "prompt_intro =
     lit ''You are assisting a MUD player. Return strict JSON only with keys commands, reason, expected_outcome.'' @ [10] @
     lit ''commands must be an array of short executable in-game commands.'' @ [10] @
     lit ''Do not use markdown or extra keys.'' @ [10, 10]"

definition prompt_values :: "prompt_tuple \<Rightarrow> str" where
  "prompt_values p =
     lit ''- prompt: HP '' @ itoa (HPCurrent p) @ lit ''/'' @ itoa (HPMax p) @
     lit '', MA '' @ itoa (MACurrent p) @ lit ''/'' @ itoa (MAMax p) @
     lit '', MV '' @ itoa (MVCurrent p) @ lit ''/'' @ itoa (MVMax p) @
     lit '', EXP '' @ itoa (EXP p) @ [10]"

definition equipment_lines :: "equipment \<Rightarrow> str" where
  "equipment_lines e =
     concat (map (\<lambda>slot. lit ''  - '' @ slot @ lit '': '' @ (case e slot of None \<Rightarrow> [] | Some item \<Rightarrow> item) @ [10])
       (sorted_list_of_set (dom e)))"

definition prompt_state :: "snapshot \<Rightarrow> str" where
  "prompt_state s =
     lit ''Current parser state:'' @ [10] @
     (if sn_Location s \<noteq> [] then lit ''- location: '' @ sn_Location s @ [10] else []) @
     (case sn_Prompt s of None \<Rightarrow> [] | Some p \<Rightarrow> prompt_values p) @
     (if length (sn_StatusTags s) > 0
      then lit ''- status_tags: '' @ join (lit '', '') (sn_StatusTags s) @ [10] else []) @
     (if sn_Equipment s \<noteq> Map.empty
      then lit ''- equipment:'' @ [10] @ equipment_lines (sn_Equipment s) else []) @
     (if sn_UpdatedAt s \<noteq> [] then lit ''- snapshot_updated_at: '' @ sn_UpdatedAt s @ [10] else []) @ [10]"

definition buildPrompt :: "str list \<Rightarrow> str + snapshot option \<Rightarrow> str + str" where
  "buildPrompt recent snapshot =
     (case snapshot of
        Inl err \<Rightarrow> Inl err
      | Inr found \<Rightarrow>
          Inr (prompt_intro @ (case found of None \<Rightarrow> [] | Some s \<Rightarrow> prompt_state s) @
               lit ''Recent terminal log (newest at bottom):'' @ [10] @
               (if recent = [] then lit ''(no recent terminal lines)'' @ [10]
                else concat (map (\<lambda>line. line @ [10]) recent))))"

subsection \<open>Reading the answer\<close>

text \<open>The first fenced block of a text, or the text.\<close>

definition fence :: str where "fence = [96, 96, 96]"

definition normalizeSuggestionJSON :: "str \<Rightarrow> str" where
  "normalizeSuggestionJSON raw0 =
     (let raw = trim_space raw0 in
      case index_of raw fence of
        None \<Rightarrow> raw
      | Some start \<Rightarrow>
          (case index_of (drop (start + 3) raw) [10] of
             None \<Rightarrow> raw
           | Some newline \<Rightarrow>
               let body = drop (start + 3 + newline + 1) raw
               in case index_of body fence of
                    None \<Rightarrow> raw
                  | Some fin \<Rightarrow>
                      let block = trim_space (take fin body) in if block = [] then raw else block))"

text \<open>
  The strict decoding into the struct, with \<open>DisallowUnknownFields\<close> and the check that nothing
  follows. Keys match up to case as the package folds them; null leaves a text and empties a slice;
  a key given twice is decoded over the earlier value (where a null element keeps the element before).
  The texts of the decoder's own errors are the parameter \<open>decode_error\<close>.
\<close>

definition fold_key :: "str \<Rightarrow> str" where
  "fold_key k =
     map (\<lambda>r. if 65 \<le> r \<and> r \<le> 90 then r + 32 else if r = 383 then 115 else if r = 8490 then 107 else r) k"

definition over_text :: "str \<Rightarrow> json \<Rightarrow> str option" where
  "over_text old v = (case v of JStr s \<Rightarrow> Some s | JNull \<Rightarrow> Some old | _ \<Rightarrow> None)"

fun over_texts :: "str list \<Rightarrow> json list \<Rightarrow> str list option" where
  "over_texts old [] = Some []"
| "over_texts old (v # vs) =
     (case over_text (case old of [] \<Rightarrow> [] | x # _ \<Rightarrow> x) v of
        None \<Rightarrow> None
      | Some s \<Rightarrow> map_option (Cons s) (over_texts (tl old) vs))"

definition set_field :: "str \<Rightarrow> json \<Rightarrow> suggestion \<Rightarrow> suggestion option" where
  "set_field k v s =
     (if fold_key k = lit ''commands'' then
        (case v of
           JNull \<Rightarrow> Some (s\<lparr>sg_Commands := []\<rparr>)
         | JArr vs \<Rightarrow> map_option (\<lambda>cs. s\<lparr>sg_Commands := cs\<rparr>) (over_texts (sg_Commands s) vs)
         | _ \<Rightarrow> None)
      else if fold_key k = lit ''reason'' then
        map_option (\<lambda>x. s\<lparr>sg_Reason := x\<rparr>) (over_text (sg_Reason s) v)
      else if fold_key k = lit ''expected_outcome'' then
        map_option (\<lambda>x. s\<lparr>sg_ExpectedOutcome := x\<rparr>) (over_text (sg_ExpectedOutcome s) v)
      else if fold_key k = lit ''generated_at'' then
        map_option (\<lambda>x. s\<lparr>sg_GeneratedAt := x\<rparr>) (over_text (sg_GeneratedAt s) v)
      else None)"

fun set_fields :: "(str \<times> json) list \<Rightarrow> suggestion \<Rightarrow> suggestion option" where
  "set_fields [] s = Some s"
| "set_fields ((k, v) # ms) s = (case set_field k v s of None \<Rightarrow> None | Some s1 \<Rightarrow> set_fields ms s1)"

definition decode_strict :: "(str \<Rightarrow> str) \<Rightarrow> str \<Rightarrow> str + suggestion" where
  "decode_strict decode_error raw =
     (let failed = Inl (lit ''decode strict suggestion json: '' @ decode_error raw) in
      case json_decode raw of
        None \<Rightarrow> failed
      | Some (v, rest) \<Rightarrow>
          (case (case v of JNull \<Rightarrow> Some no_suggestion | JObj ms \<Rightarrow> set_fields ms no_suggestion | _ \<Rightarrow> None) of
             None \<Rightarrow> failed
           | Some parsed \<Rightarrow>
               if \<forall>r \<in> set rest. is_blank r then Inr parsed
               else Inl (lit ''suggestion json must contain a single object'')))"

text \<open>The first empty command, after trimming.\<close>

fun empty_at :: "nat \<Rightarrow> str list \<Rightarrow> nat option" where
  "empty_at i [] = None"
| "empty_at i (c # cs) = (if trim_space c = [] then Some i else empty_at (Suc i) cs)"

definition parseSuggestionJSON :: "(str \<Rightarrow> str) \<Rightarrow> str \<Rightarrow> str + suggestion" where
  "parseSuggestionJSON decode_error raw0 =
     (let raw = normalizeSuggestionJSON raw0 in
      case decode_strict decode_error raw of
        Inl e \<Rightarrow> Inl e
      | Inr parsed \<Rightarrow>
          if length (sg_Commands parsed) = 0 then Inl (lit ''commands must contain at least one command'')
          else if trim_space (sg_Reason parsed) = [] then Inl (lit ''reason is required'')
          else if trim_space (sg_ExpectedOutcome parsed) = [] then Inl (lit ''expected_outcome is required'')
          else (case empty_at 0 (sg_Commands parsed) of
                  Some i \<Rightarrow> Inl (lit ''commands['' @ itoa (int i) @ lit ''] is empty'')
                | None \<Rightarrow> Inr (parsed\<lparr>sg_Commands := map trim_space (sg_Commands parsed)\<rparr>)))"

subsection \<open>A job\<close>

text \<open>What the job does with the answer of the client, the request being in flight.\<close>

definition finish_request ::
    "(str \<Rightarrow> str) \<Rightarrow> str \<Rightarrow> uint64 \<Rightarrow> str + str \<Rightarrow> utc \<Rightarrow> service \<Rightarrow> service" where
  "finish_request decode_error sessionID seq answer now s =
     (case answer of
        Inl err \<Rightarrow> setLastError err now s
      | Inr response \<Rightarrow>
          (case parseSuggestionJSON decode_error response of
             Inl err \<Rightarrow> setLastError (lit ''invalid suggestion json: '' @ err) now s
           | Inr parsed \<Rightarrow> publish sessionID seq (parsed\<lparr>sg_GeneratedAt := rfc3339nano now\<rparr>) s))"

definition runJob ::
    "(str \<Rightarrow> str) \<Rightarrow> str + snapshot option \<Rightarrow> (str \<Rightarrow> str + str) \<Rightarrow> utc \<Rightarrow> str \<Rightarrow> uint64 \<Rightarrow> service \<Rightarrow> service" where
  "runJob decode_error snapshot client now sessionID seq s =
     (case buildPrompt (su_recent s sessionID) snapshot of
        Inl err \<Rightarrow> setLastError (lit ''build suggestion prompt failed: '' @ err) now s
      | Inr prompt \<Rightarrow>
          markCompleted sessionID seq
            (finish_request decode_error sessionID seq (client prompt) now (markInFlight sessionID seq s)))"

end
