(* ===== verification/SuggestionSpec.thy ===== *)
theory SuggestionSpec
  imports Suggestions "HOL-Library.Sublist"
begin

text \<open>
  The sequential facts of the suggestion service: what the log holds, and which answers of the model
  are accepted.
\<close>

subsection \<open>The log\<close>

definition lines_of :: "str \<Rightarrow> str list" where
  "lines_of s = filter (\<lambda>l. l \<noteq> []) (map trim_space (log_lines s))"

lemma add_lines_eq: "add_lines existing parts = existing @ filter (\<lambda>l. l \<noteq> []) (map trim_space parts)"
  by (induction existing parts rule: add_lines.induct) (auto simp: Let_def)

lemma appendLogLines_eq: "appendLogLines existing s = existing @ lines_of s"
  by (simp add: appendLogLines_def lines_of_def add_lines_eq)

lemma trimRecent_last: "0 < limit \<Longrightarrow> trimRecent lines limit = last_n (nat limit) lines"
  by (auto simp: trimRecent_def last_n_def)

text \<open>A blank text has no lines.\<close>

lemma replace_all_set: "r \<in> set (replace_all old new s) \<Longrightarrow> r \<in> set s \<union> set new"
proof (induction old new s rule: replace_all.induct)
  case (1 old new s)
  show ?case
  proof (cases s)
    case (Cons c t)
    have d: "set (drop (length old) (c # t)) \<subseteq> set s"
      unfolding Cons by (rule set_drop_subset)
    show ?thesis
    proof (cases "old \<noteq> [] \<and> has_prefix s old")
      case True
      then show ?thesis using 1(1) 1(3) Cons d by (auto simp: replace_all_Cons)
    next
      case False
      then show ?thesis using 1(2) 1(3) Cons by (auto simp: replace_all_Cons)
    qed
  qed (use 1 in simp)
qed

lemma split_on_set: "p \<in> set (split_on c s) \<Longrightarrow> set p \<subseteq> set s"
proof (induction s arbitrary: p)
  case (Cons a s)
  show ?case
  proof (cases "split_on c s")
    case (Cons q qs)
    then have "set q \<subseteq> set s" "\<forall>p \<in> set qs. set p \<subseteq> set s" using Cons.IH by auto
    with Cons Cons.prems show ?thesis by (auto split: if_splits)
  qed (use Cons.prems in \<open>auto split: if_splits\<close>)
qed simp

lemma lines_of_blank: "trim_space s = [] \<Longrightarrow> lines_of s = []"
proof -
  assume b: "trim_space s = []"
  have "is_space r" if "l \<in> set (log_lines s)" "r \<in> set l" for l r
  proof -
    from that have "r \<in> set (replace_all [13] [10] (replace_all [13, 10] [10] s))"
      using split_on_set by (fastforce simp: log_lines_def)
    then have "r \<in> set s \<or> r = 10" by (auto dest!: replace_all_set)
    with b show ?thesis by (auto simp: trim_space_eq_Nil is_space_def)
  qed
  then show ?thesis by (auto simp: lines_of_def filter_empty_conv trim_space_eq_Nil)
qed

lemma recent_after:
  assumes "0 < su_recentLinesMax s" "length (su_recent s sid) \<le> nat (su_recentLinesMax s)"
  shows "su_recent (fold (\<lambda>(sid, txt). IngestTerminal sid txt) calls s) sid =
      last_n (nat (su_recentLinesMax s))
        (su_recent s sid @ concat (map (\<lambda>(i, txt). if i = sid then lines_of txt else []) calls))
    \<and> su_recentLinesMax (fold (\<lambda>(sid, txt). IngestTerminal sid txt) calls s) = su_recentLinesMax s"
  using assms
proof (induction calls arbitrary: s)
  case (Cons call calls)
  obtain i u where call: "call = (i, u)" by (cases call)
  let ?s1 = "IngestTerminal i u s"
  have m: "su_recentLinesMax ?s1 = su_recentLinesMax s" by (simp add: IngestTerminal_def Let_def)
  have r: "su_recent ?s1 sid = last_n (nat (su_recentLinesMax s))
      (su_recent s sid @ (if i = sid then lines_of u else []))"
    using Cons.prems lines_of_blank [of u]
    by (auto simp: IngestTerminal_def Let_def appendLogLines_eq trimRecent_last)
  have "length (su_recent ?s1 sid) \<le> nat (su_recentLinesMax ?s1)" by (simp add: r m)
  from Cons.IH [OF _ this] Cons.prems(1) show ?case
    by (simp add: call m r last_n_append)
qed simp

text \<open>
  The log of a session is the tail of its terminal. After any texts, of any sessions and in any
  chunks, the recent lines of a session are the last ones, as many as the limit allows, of all its
  non-blank lines, each without surrounding white space; a limit that is not positive counts as 80.
\<close>

lemma log_is_tail:
  "su_recent (fold (\<lambda>(sid, txt). IngestTerminal sid txt) calls (NewSuggestions limit)) sid =
     last_n (nat (if limit \<le> 0 then 80 else limit))
       (concat (map (\<lambda>(i, txt). if i = sid then lines_of txt else []) calls))"
  using recent_after [of "NewSuggestions limit" sid calls]
  by (simp add: NewSuggestions_def defaultRecentLines_def)

subsection \<open>The answers accepted\<close>

text \<open>
  The answer in the form the prompt asks for, and how a model may wrap it: in white space, or in a
  fenced block with any text around.
\<close>

definition answer_json :: "str list \<Rightarrow> str \<Rightarrow> str \<Rightarrow> str" where
  "answer_json cs reason outcome =
     print_json (JObj [(lit ''commands'', JArr (map JStr cs)), (lit ''reason'', JStr reason),
                       (lit ''expected_outcome'', JStr outcome)])"

definition blank :: "str \<Rightarrow> bool" where
  "blank s \<longleftrightarrow> (\<forall>r \<in> set s. is_space r)"

definition presents :: "str \<Rightarrow> str \<Rightarrow> bool" where
  "presents body raw \<longleftrightarrow>
     96 \<notin> set body
   \<and> ((\<exists>pre post. blank pre \<and> blank post \<and> raw = pre @ body @ post)
      \<or> (\<exists>pre info b1 b2 post. 96 \<notin> set pre \<and> 10 \<notin> set info \<and> blank b1 \<and> blank b2 \<and>
            raw = pre @ fence @ info @ [10] @ b1 @ body @ b2 @ fence @ post))"

lemma last_rev_Cons: "rev xs = x # ys \<Longrightarrow> last xs = x"
  by (metis hd_rev list.sel(1))

lemma trim_blanks:
  assumes "blank pre" "blank post" "body \<noteq> []" "\<not> is_space (hd body)" "\<not> is_space (last body)"
  shows "trim_space (pre @ body @ post) = body"
proof -
  have gen: "(\<forall>r \<in> set ws. is_space r) \<Longrightarrow> \<not> is_space a \<Longrightarrow> dropWhile is_space (ws @ a # t) = a # t"
    for ws t and a
    by (simp add: dropWhile_append2)
  have "trim_left (pre @ body @ post) = body @ post"
    using assms by (cases body) (simp_all add: trim_left_def blank_def dropWhile_append2)
  moreover have "dropWhile is_space (rev post @ rev body) = rev body"
    using assms by (cases "rev body") (simp_all add: blank_def gen last_rev_Cons)
  ultimately show ?thesis by (simp add: trim_space_def trim_right_def)
qed

lemma index_of_fence:
  "96 \<notin> set pre \<Longrightarrow> index_of (pre @ fence @ s) fence = Some (length pre)"
  by (induction pre) (auto simp: fence_def)

lemma index_of_newline: "10 \<notin> set info \<Longrightarrow> index_of (info @ 10 # s) [10] = Some (length info)"
  by (induction info) auto

lemma no_fence: "96 \<notin> set s \<Longrightarrow> index_of s fence = None"
  by (induction s) (auto simp: fence_def)

lemma trim_fenced:
  "\<exists>pre1 post1. trim_space (pre @ fence @ mid @ fence @ post) = pre1 @ fence @ mid @ fence @ post1 \<and> set pre1 \<subseteq> set pre"
proof -
  have l: "trim_left (pre @ fence @ s) = trim_left pre @ fence @ s" for s
    by (simp add: trim_left_def dropWhile_append fence_def is_space_def)
  have r: "trim_right (s @ fence @ post) = s @ fence @ trim_right post" for s
    by (simp add: trim_right_def dropWhile_append fence_def is_space_def)
  have "trim_space (pre @ fence @ mid @ fence @ post) = trim_left pre @ fence @ mid @ fence @ trim_right post"
    using l [of "mid @ fence @ post"] r [of "trim_left pre @ fence @ mid"] by (simp add: trim_space_def)
  moreover have "set (trim_left pre) \<subseteq> set pre" by (auto simp: trim_left_def dest: set_dropWhileD)
  ultimately show ?thesis by blast
qed

lemma normalize_presents:
  assumes "presents body raw" "body \<noteq> []" "\<not> is_space (hd body)" "\<not> is_space (last body)"
  shows "normalizeSuggestionJSON raw = body"
proof -
  from assms(1) consider (plain) pre post where "blank pre" "blank post" "raw = pre @ body @ post"
    | (fenced) pre info b1 b2 post where "96 \<notin> set pre" "10 \<notin> set info" "blank b1" "blank b2"
        "raw = pre @ fence @ info @ [10] @ b1 @ body @ b2 @ fence @ post"
    by (auto simp: presents_def)
  then show ?thesis
  proof cases
    case plain
    have "96 \<notin> set body" using assms(1) by (simp add: presents_def)
    with plain trim_blanks [OF plain(1,2) assms(2-4)] show ?thesis
      by (simp add: normalizeSuggestionJSON_def no_fence)
  next
    case fenced
    let ?mid = "info @ [10] @ b1 @ body @ b2"
    obtain pre1 post1 where t: "trim_space raw = pre1 @ fence @ ?mid @ fence @ post1" "set pre1 \<subseteq> set pre"
      using trim_fenced [of pre ?mid post] fenced(5) by auto
    have pre1: "96 \<notin> set pre1" using t(2) fenced(1) by auto
    have "96 \<notin> set (b1 @ body @ b2)"
      using fenced(3,4) assms(1) by (auto simp: blank_def presents_def is_space_def)
    then have b: "index_of ((b1 @ body @ b2) @ fence @ post1) fence = Some (length (b1 @ body @ b2))"
      by (rule index_of_fence)
    have f3: "length fence = 3" by (simp add: fence_def)
    have d1: "drop (length pre1 + 3) (trim_space raw) = info @ 10 # b1 @ body @ b2 @ fence @ post1"
      unfolding t(1) by (simp add: f3)
    have d2: "drop (length pre1 + 3 + length info + 1) (trim_space raw) = (b1 @ body @ b2) @ fence @ post1"
      unfolding t(1) by (simp add: f3)
    have s1: "index_of (trim_space raw) fence = Some (length pre1)"
      using index_of_fence [OF pre1, of "?mid @ fence @ post1"] t(1) by simp
    have s2: "index_of (drop (length pre1 + 3) (trim_space raw)) [10] = Some (length info)"
      unfolding d1 by (rule index_of_newline [OF fenced(2)])
    have s3: "index_of (drop (length pre1 + 3 + length info + 1) (trim_space raw)) fence = Some (length (b1 @ body @ b2))"
      unfolding d2 by (rule b)
    have s4: "trim_space (take (length (b1 @ body @ b2)) (drop (length pre1 + 3 + length info + 1) (trim_space raw))) = body"
      unfolding d2 using trim_blanks [OF fenced(3,4) assms(2-4)] by simp
    show ?thesis
      unfolding normalizeSuggestionJSON_def Let_def s1 s2 s3 s4 option.case using assms(2) by simp
  qed
qed

lemma over_texts_fresh: "over_texts [] (map JStr cs) = Some cs"
  by (induction cs) (simp_all add: over_text_def)

lemma empty_at_None: "empty_at i cs = None \<longleftrightarrow> (\<forall>c \<in> set cs. trim_space c \<noteq> [])"
  by (induction cs arbitrary: i) auto

lemma decode_answer:
  assumes "\<forall>c \<in> set cs. text_ok c" "text_ok reason" "text_ok outcome"
  shows "decode_strict err (answer_json cs reason outcome) =
    Inr \<lparr>sg_Commands = cs, sg_Reason = reason, sg_ExpectedOutcome = outcome, sg_GeneratedAt = []\<rparr>"
proof -
  let ?ms = "[(lit ''commands'', JArr (map JStr cs)), (lit ''reason'', JStr reason),
              (lit ''expected_outcome'', JStr outcome)]"
  have keys: "text_ok (lit ''commands'')" "text_ok (lit ''reason'')" "text_ok (lit ''expected_outcome'')"
    by code_simp+
  have "json_ok (JObj ?ms)" using assms keys by simp
  then have "parse_json (answer_json cs reason outcome) = Some (JObj ?ms)"
    unfolding answer_json_def by (rule parse_print)
  from decode_of_parse [OF this] obtain rest
    where d: "json_decode (answer_json cs reason outcome) = Some (JObj ?ms, rest)" "\<forall>r \<in> set rest. is_blank r"
    by blast
  have f1: "set_field (lit ''commands'') (JArr (map JStr cs)) s = Some (s\<lparr>sg_Commands := cs\<rparr>)"
    if "sg_Commands s = []" for s
  proof -
    have "fold_key (lit ''commands'') = lit ''commands''" by code_simp
    then show ?thesis using that by (simp add: set_field_def over_texts_fresh)
  qed
  have f2: "set_field (lit ''reason'') (JStr reason) s = Some (s\<lparr>sg_Reason := reason\<rparr>)" for s
  proof -
    have "fold_key (lit ''reason'') = lit ''reason''" "lit ''reason'' \<noteq> lit ''commands''" by code_simp+
    then show ?thesis by (simp add: set_field_def over_text_def)
  qed
  have f3: "set_field (lit ''expected_outcome'') (JStr outcome) s = Some (s\<lparr>sg_ExpectedOutcome := outcome\<rparr>)" for s
  proof -
    have "fold_key (lit ''expected_outcome'') = lit ''expected_outcome''"
      "lit ''expected_outcome'' \<noteq> lit ''commands''" "lit ''expected_outcome'' \<noteq> lit ''reason''" by code_simp+
    then show ?thesis by (simp add: set_field_def over_text_def)
  qed
  have "sg_Commands no_suggestion = []" by (simp add: no_suggestion_def)
  then have "set_fields ?ms no_suggestion =
      Some (no_suggestion\<lparr>sg_Commands := cs, sg_Reason := reason, sg_ExpectedOutcome := outcome\<rparr>)"
    by (simp only: set_fields.simps f1 f2 f3 option.case)
  then show ?thesis using d by (simp add: decode_strict_def no_suggestion_def)
qed

lemma answer_ends:
  "answer_json cs reason outcome \<noteq> []" "\<not> is_space (hd (answer_json cs reason outcome))"
  "\<not> is_space (last (answer_json cs reason outcome))"
  by (simp_all add: answer_json_def is_space_def)

text \<open>
  C19. An answer of the form the prompt asks for is read as it was meant, however it is wrapped. If it
  has a command and no command, reason or outcome is blank, the result is the suggestion with its
  commands trimmed; otherwise it is rejected with an error.
\<close>

theorem answer_read:
  assumes "presents (answer_json cs reason outcome) raw"
      and "\<forall>c \<in> set cs. text_ok c" "text_ok reason" "text_ok outcome"
  shows "(\<forall>s. parseSuggestionJSON err raw = Inr s \<longleftrightarrow>
            cs \<noteq> [] \<and> \<not> blank reason \<and> \<not> blank outcome \<and> (\<forall>c \<in> set cs. \<not> blank c) \<and>
            s = \<lparr>sg_Commands = map trim_space cs, sg_Reason = reason, sg_ExpectedOutcome = outcome,
                 sg_GeneratedAt = []\<rparr>)"
proof -
  have n: "normalizeSuggestionJSON raw = answer_json cs reason outcome"
    using assms(1) answer_ends by (rule normalize_presents)
  have b: "blank x \<longleftrightarrow> trim_space x = []" for x by (simp add: blank_def trim_space_eq_Nil)
  show ?thesis
    using empty_at_None [of 0 cs]
    by (auto simp: parseSuggestionJSON_def n decode_answer [OF assms(2-4)] b split: option.splits sum.splits)
qed

theorem answer_read_witness:
  "\<exists>s. parseSuggestionJSON (\<lambda>_. []) (lit ''Sure: '' @ fence @ lit ''json'' @ [10] @
       answer_json [lit '' look ''] (lit ''curious'') (lit ''a view'') @ [10] @ fence) = Inr s
     \<and> sg_Commands s = [lit ''look'']"
proof -
  let ?j = "answer_json [lit '' look ''] (lit ''curious'') (lit ''a view'')"
  let ?raw = "lit ''Sure: '' @ fence @ lit ''json'' @ [10] @ [] @ ?j @ [10] @ fence @ []"
  have t: "96 \<notin> set ?j" by code_simp
  have u: "96 \<notin> set (lit ''Sure: '')" "10 \<notin> set (lit ''json'')" "blank []" "blank [10]" by code_simp+
  have "presents ?j ?raw" unfolding presents_def using t u by blast
  moreover have "\<forall>c \<in> set [lit '' look '']. text_ok c" "text_ok (lit ''curious'')" "text_ok (lit ''a view'')"
    by code_simp+
  moreover have "\<not> blank (lit ''curious'')" "\<not> blank (lit ''a view'')" "\<forall>c \<in> set [lit '' look '']. \<not> blank c"
    "trim_space (lit '' look '') = lit ''look''"
    by code_simp+
  ultimately show ?thesis
    using answer_read [of "[lit '' look '']" "lit ''curious''" "lit ''a view''" ?raw "\<lambda>_. []"] by simp
qed

text \<open>What is accepted, whatever the answer was, is usable.\<close>

definition usable :: "suggestion \<Rightarrow> bool" where
  "usable s \<longleftrightarrow> sg_Commands s \<noteq> [] \<and> (\<forall>c \<in> set (sg_Commands s). c \<noteq> [] \<and> trim_space c = c)
     \<and> \<not> blank (sg_Reason s) \<and> \<not> blank (sg_ExpectedOutcome s)"

lemma parse_usable: "parseSuggestionJSON err raw = Inr s \<Longrightarrow> usable s"
proof -
  assume p: "parseSuggestionJSON err raw = Inr s"
  then obtain q where q: "sg_Commands q \<noteq> []" "trim_space (sg_Reason q) \<noteq> []"
      "trim_space (sg_ExpectedOutcome q) \<noteq> []" "empty_at 0 (sg_Commands q) = None"
      "s = q\<lparr>sg_Commands := map trim_space (sg_Commands q)\<rparr>"
    by (auto simp: parseSuggestionJSON_def Let_def split: option.splits sum.splits if_splits)
  have "\<forall>c \<in> set (sg_Commands q). trim_space c \<noteq> []" using q(4) by (simp add: empty_at_None)
  then show "usable s"
    using q(1-3) by (simp add: usable_def q(5) blank_def trim_space_eq_Nil [symmetric])
qed

end
