(* ===== verification/SuggestionRace.thy ===== *)
theory SuggestionRace
  imports SuggestionSpec
begin

text \<open>
  The suggestion service with all its goroutines. A step is one critical section of \<open>s.mu\<close>, the
  firing of a timer, or the arrival of an answer; between the steps of one job anything may happen.
  A job carries its session, its number and how far \<open>runJob\<close> has come. The list \<open>sy_calls\<close> is a
  ghost: the texts given to \<open>IngestTerminal\<close> so far.
\<close>

subsection \<open>Jobs and steps\<close>

datatype phase =
    Fired
  | Copied "str list"
  | Asking str
  | Answered str "str + str"
  | Completing
  | Finished

type_synonym job = "str \<times> uint64 \<times> phase"

record suggestion_sys =
  sy_service :: service
  sy_jobs :: "job list"
  sy_calls :: "(str \<times> str) list"

definition sy_init :: "int \<Rightarrow> suggestion_sys" where
  "sy_init limit = \<lparr>sy_service = NewSuggestions limit, sy_jobs = [], sy_calls = []\<rparr>"

definition advance :: "nat \<Rightarrow> phase \<Rightarrow> suggestion_sys \<Rightarrow> suggestion_sys" where
  "advance i ph y =
     (case sy_jobs y ! i of (sid, seq, _) \<Rightarrow> y\<lparr>sy_jobs := (sy_jobs y)[i := (sid, seq, ph)]\<rparr>)"

definition at :: "nat \<Rightarrow> suggestion_sys \<Rightarrow> job \<Rightarrow> bool" where
  "at i y j \<longleftrightarrow> i < length (sy_jobs y) \<and> sy_jobs y ! i = j"

inductive job_step :: "(str \<Rightarrow> str) \<Rightarrow> suggestion_sys \<Rightarrow> suggestion_sys \<Rightarrow> bool"
  for err :: "str \<Rightarrow> str" where
  ingest: "job_step err y
      (y\<lparr>sy_service := IngestTerminal sid u (sy_service y), sy_calls := sy_calls y @ [(sid, u)]\<rparr>)"
| cancel: "job_step err y (y\<lparr>sy_service := snd (CancelInFlight (sy_service y))\<rparr>)"
| fire: "su_timer (sy_service y) sid = Some seq \<Longrightarrow>
    job_step err y
      (y\<lparr>sy_service := (sy_service y)\<lparr>su_timer := (su_timer (sy_service y))(sid := None)\<rparr>,
         sy_jobs := sy_jobs y @ [(sid, seq, Fired)]\<rparr>)"
| copy: "at i y (sid, seq, Fired) \<Longrightarrow>
    job_step err y (advance i (Copied (su_recent (sy_service y) sid)) y)"
| no_prompt: "at i y (sid, seq, Copied recent) \<Longrightarrow> buildPrompt recent snap = Inl e \<Longrightarrow>
    job_step err y
      ((advance i Finished y)
        \<lparr>sy_service := setLastError (lit ''build suggestion prompt failed: '' @ e) now (sy_service y)\<rparr>)"
| ask: "at i y (sid, seq, Copied recent) \<Longrightarrow> buildPrompt recent snap = Inr prompt \<Longrightarrow>
    job_step err y ((advance i (Asking prompt) y)\<lparr>sy_service := markInFlight sid seq (sy_service y)\<rparr>)"
| answer: "at i y (sid, seq, Asking prompt) \<Longrightarrow> job_step err y (advance i (Answered prompt a) y)"
| result: "at i y (sid, seq, Answered prompt a) \<Longrightarrow>
    job_step err y
      ((advance i Completing y)\<lparr>sy_service := finish_request err sid seq a now (sy_service y)\<rparr>)"
| complete: "at i y (sid, seq, Completing) \<Longrightarrow>
    job_step err y ((advance i Finished y)\<lparr>sy_service := markCompleted sid seq (sy_service y)\<rparr>)"

inductive job_reach :: "(str \<Rightarrow> str) \<Rightarrow> int \<Rightarrow> suggestion_sys \<Rightarrow> bool"
  for err :: "str \<Rightarrow> str" and limit :: int where
  start: "job_reach err limit (sy_init limit)"
| step: "job_reach err limit y \<Longrightarrow> job_step err y z \<Longrightarrow> job_reach err limit z"

text \<open>The steps of a job, one after the other, are \<open>runJob\<close>.\<close>

definition steps :: "(str \<Rightarrow> str) \<Rightarrow> suggestion_sys \<Rightarrow> suggestion_sys \<Rightarrow> bool" where
  "steps err = (job_step err)\<^sup>*\<^sup>*"

lemma at_advance [simp]:
  "at i y (sid, seq, ph0) \<Longrightarrow> at i (advance i ph y) (sid, seq, ph)"
  by (simp add: at_def advance_def)

lemma at_service [simp]: "at i (y\<lparr>sy_service := s\<rparr>) j = at i y j"
  by (simp add: at_def)

lemma advance_sel [simp]:
  "sy_service (advance i ph y) = sy_service y" "sy_calls (advance i ph y) = sy_calls y"
  by (simp_all add: advance_def split: prod.splits)

lemma runJob_steps:
  assumes "at i y (sid, seq, Fired)"
  shows "\<exists>z. steps err y z \<and> at i z (sid, seq, Finished)
           \<and> sy_service z = runJob err snap client now sid seq (sy_service y)"
proof -
  let ?s = "sy_service y"
  let ?y1 = "advance i (Copied (su_recent ?s sid)) y"
  have c: "job_step err y ?y1" using assms by (rule job_step.copy)
  have a1: "at i ?y1 (sid, seq, Copied (su_recent ?s sid))" using assms by simp
  show ?thesis
  proof (cases "buildPrompt (su_recent ?s sid) snap")
    case (Inl e)
    let ?z = "(advance i Finished ?y1)
        \<lparr>sy_service := setLastError (lit ''build suggestion prompt failed: '' @ e) now ?s\<rparr>"
    have "job_step err ?y1 ?z" using job_step.no_prompt [OF a1 Inl, of err now] by simp
    with c have "steps err y ?z" unfolding steps_def by (meson converse_rtranclp_into_rtranclp r_into_rtranclp)
    moreover have "at i ?z (sid, seq, Finished)" using a1 by simp
    moreover have "sy_service ?z = runJob err snap client now sid seq ?s" by (simp add: runJob_def Inl)
    ultimately show ?thesis by blast
  next
    case (Inr prompt)
    let ?y2 = "(advance i (Asking prompt) ?y1)\<lparr>sy_service := markInFlight sid seq ?s\<rparr>"
    let ?y3 = "advance i (Answered prompt (client prompt)) ?y2"
    let ?y4 = "(advance i Completing ?y3)
        \<lparr>sy_service := finish_request err sid seq (client prompt) now (markInFlight sid seq ?s)\<rparr>"
    let ?z = "(advance i Finished ?y4)\<lparr>sy_service := markCompleted sid seq (sy_service ?y4)\<rparr>"
    have s2: "job_step err ?y1 ?y2" using job_step.ask [OF a1 Inr, of err] by simp
    have a2: "at i ?y2 (sid, seq, Asking prompt)" using a1 by simp
    have s3: "job_step err ?y2 ?y3" using a2 by (rule job_step.answer)
    have a3: "at i ?y3 (sid, seq, Answered prompt (client prompt))" using a2 by (rule at_advance)
    have s4: "job_step err ?y3 ?y4" using job_step.result [OF a3, of err now] by simp
    have a4: "at i ?y4 (sid, seq, Completing)" using at_advance [OF a3, of Completing] by simp
    have s5: "job_step err ?y4 ?z" using a4 by (rule job_step.complete)
    from c s2 s3 s4 s5 have "steps err y ?z"
      unfolding steps_def by (meson converse_rtranclp_into_rtranclp r_into_rtranclp)
    moreover have "at i ?z (sid, seq, Finished)" using at_advance [OF a4, of Finished] by simp
    moreover have "sy_service ?z = runJob err snap client now sid seq ?s" by (simp add: runJob_def Inr)
    ultimately show ?thesis by blast
  qed
qed

subsection \<open>What each section leaves alone\<close>

definition log_part :: "service \<Rightarrow> (str \<Rightarrow> str list) \<times> (str \<Rightarrow> uint64 option) \<times> (str \<Rightarrow> uint64)" where
  "log_part s = (su_recent s, su_timer s, su_jobSeq s)"

definition flight_part :: "service \<Rightarrow> (str \<times> uint64) list \<times> int" where
  "flight_part s = (su_active s, su_inFlight s)"

lemma log_part_sections [simp]:
  "log_part (setLastError e now s) = log_part s" "log_part (publish sid seq p s) = log_part s"
  "log_part (markInFlight sid seq s) = log_part s" "log_part (markCompleted sid seq s) = log_part s"
  "log_part (snd (CancelInFlight s)) = log_part s"
  by (simp_all add: log_part_def setLastError_def publish_def markInFlight_def markCompleted_def
      CancelInFlight_def Let_def)

lemma flight_part_sections [simp]:
  "flight_part (setLastError e now s) = flight_part s" "flight_part (publish sid seq p s) = flight_part s"
  "flight_part (IngestTerminal sid u s) = flight_part s"
  "flight_part (snd (CancelInFlight s)) = flight_part s"
  "flight_part (s\<lparr>su_timer := t\<rparr>) = flight_part s"
  by (simp_all add: flight_part_def setLastError_def publish_def IngestTerminal_def CancelInFlight_def Let_def)

lemma finish_request_parts [simp]:
  "log_part (finish_request err sid seq a now s) = log_part s"
  "flight_part (finish_request err sid seq a now s) = flight_part s"
  by (simp_all add: finish_request_def split: sum.split)

subsection \<open>Numbers\<close>

fun jid :: "job \<Rightarrow> str \<times> uint64" where
  "jid (sid, seq, ph) = (sid, seq)"

definition ids :: "suggestion_sys \<Rightarrow> (str \<times> uint64) list" where
  "ids y = map jid (sy_jobs y)"

lemma ids_advance [simp]: "at i y (sid, seq, ph0) \<Longrightarrow> ids (advance i ph y) = ids y"
  by (auto simp: ids_def advance_def at_def map_update list_update_same_conv)

lemma ids_service [simp]: "ids (y\<lparr>sy_service := s\<rparr>) = ids y"
  by (simp add: ids_def)

definition ingests :: "str \<Rightarrow> (str \<times> str) list \<Rightarrow> nat" where
  "ingests sid calls = length (filter (\<lambda>(i, u). i = sid \<and> trim_space u \<noteq> []) calls)"

definition few :: "suggestion_sys \<Rightarrow> bool" where
  "few y \<longleftrightarrow> (\<forall>sid. ingests sid (sy_calls y) < 2 ^ 64)"

definition numbered :: "(str \<Rightarrow> str list) \<times> (str \<Rightarrow> uint64 option) \<times> (str \<Rightarrow> uint64) \<Rightarrow>
    (str \<times> uint64) list \<Rightarrow> (str \<times> str) list \<Rightarrow> bool" where
  "numbered lp xs calls \<longleftrightarrow>
     (case lp of (recent, timer, jobSeq) \<Rightarrow>
       (\<forall>sid. jobSeq sid = of_nat (ingests sid calls))
     \<and> (\<forall>sid q. timer sid = Some q \<longrightarrow> q = jobSeq sid \<and> (sid, q) \<notin> set xs)
     \<and> distinct xs
     \<and> (\<forall>sid q. (sid, q) \<in> set xs \<longrightarrow> unat q \<le> ingests sid calls))"

lemma ingests_snoc:
  "ingests sid (calls @ [(i, u)]) = ingests sid calls + (if i = sid \<and> trim_space u \<noteq> [] then 1 else 0)"
  by (simp add: ingests_def)

lemma few_back: "few z \<Longrightarrow> job_step err y z \<Longrightarrow> few y"
proof -
  assume f: "few z" and st: "job_step err y z"
  from st have "sy_calls z = sy_calls y \<or> (\<exists>c. sy_calls z = sy_calls y @ [c])"
    by cases auto
  then show "few y"
  proof (elim disjE)
    assume "\<exists>c. sy_calls z = sy_calls y @ [c]"
    then obtain i u where "sy_calls z = sy_calls y @ [(i, u)]" by (metis surj_pair)
    then have "ingests sid (sy_calls y) \<le> ingests sid (sy_calls z)" for sid by (simp add: ingests_snoc)
    with f show ?thesis unfolding few_def by (blast intro: le_less_trans)
  qed (use f in \<open>simp add: few_def\<close>)
qed

lemma numbered_ingest:
  assumes n: "numbered (log_part s) xs calls" and f: "ingests sid (calls @ [(sid, u)]) < 2 ^ 64"
  shows "numbered (log_part (IngestTerminal sid u s)) xs (calls @ [(sid, u)])"
proof (cases "trim_space u = []")
  case True
  then have "IngestTerminal sid u s = s" "\<And>i. ingests i (calls @ [(sid, u)]) = ingests i calls"
    by (simp_all add: IngestTerminal_def ingests_snoc)
  with n show ?thesis by (simp add: numbered_def)
next
  case False
  let ?k = "ingests sid calls"
  have k: "Suc ?k < 2 ^ 64" using f False by (simp add: ingests_snoc)
  have q: "su_jobSeq s sid = of_nat ?k" using n by (simp add: numbered_def log_part_def)
  have u: "unat (of_nat ?k + 1 :: uint64) = Suc ?k"
  proof -
    have "unat (of_nat (Suc ?k) :: uint64) = Suc ?k" using k by (simp add: unat_of_nat del: of_nat_Suc)
    then show ?thesis by (simp add: add.commute)
  qed
  have new: "(sid, of_nat ?k + 1) \<notin> set xs"
  proof
    assume "(sid, of_nat ?k + 1) \<in> set xs"
    then have "unat (of_nat ?k + 1 :: uint64) \<le> ?k" using n by (simp add: numbered_def log_part_def)
    with u show False by simp
  qed
  from n show ?thesis
    unfolding numbered_def log_part_def
    using False new q by (auto simp: IngestTerminal_def Let_def ingests_snoc le_SucI)
qed

lemma numbered_fire:
  assumes "numbered (log_part s) xs calls" and "su_timer s sid = Some q" "few y" "sy_calls y = calls"
  shows "numbered (log_part (s\<lparr>su_timer := (su_timer s)(sid := None)\<rparr>)) (xs @ [(sid, q)]) calls"
proof -
  have "ingests sid calls < 2 ^ 64" using assms(3,4) by (auto simp: few_def)
  then have "unat (of_nat (ingests sid calls) :: uint64) \<le> ingests sid calls"
    by (simp add: unat_of_nat)
  with assms(1,2) show ?thesis by (auto simp: numbered_def log_part_def)
qed

lemma numbered_step:
  assumes "job_step err y z" "few z" "numbered (log_part (sy_service y)) (ids y) (sy_calls y)"
  shows "numbered (log_part (sy_service z)) (ids z) (sy_calls z)"
  using assms(1)
proof cases
  case (ingest sid u)
  then have "ingests sid (sy_calls y @ [(sid, u)]) < 2 ^ 64" using assms(2) by (simp add: few_def)
  from numbered_ingest [OF assms(3) this] show ?thesis by (simp add: ingest ids_def)
next
  case (fire sid seq)
  from numbered_fire [OF assms(3) fire(2) assms(2)] show ?thesis by (simp add: fire ids_def)
qed (use assms(3) in \<open>simp_all\<close>)

lemma reach_numbered:
  "job_reach err limit y \<Longrightarrow> few y \<Longrightarrow> numbered (log_part (sy_service y)) (ids y) (sy_calls y)"
proof (induction rule: job_reach.induct)
  case start
  show ?case
    by (simp add: sy_init_def NewSuggestions_def numbered_def log_part_def ids_def ingests_def)
next
  case (step y z)
  then show ?case using numbered_step few_back by blast
qed

subsection \<open>The jobs in flight\<close>

fun busy :: "phase \<Rightarrow> bool" where
  "busy (Asking p) = True"
| "busy (Answered p a) = True"
| "busy Completing = True"
| "busy _ = False"

definition flying :: "suggestion_sys \<Rightarrow> (str \<times> uint64) set" where
  "flying y = {(sid, seq). \<exists>ph. (sid, seq, ph) \<in> set (sy_jobs y) \<and> busy ph}"

lemma flying_service [simp]: "flying (y\<lparr>sy_service := s\<rparr>) = flying y"
  by (simp add: flying_def)

lemma at_mem: "at i y j \<Longrightarrow> j \<in> set (sy_jobs y)"
  by (metis at_def nth_mem)

lemma same_job: "distinct (ids y) \<Longrightarrow> (sid, seq, ph) \<in> set (sy_jobs y) \<Longrightarrow> (sid, seq, ph1) \<in> set (sy_jobs y) \<Longrightarrow> ph = ph1"
  by (auto simp: ids_def distinct_map dest: inj_onD [of jid _ "(sid, seq, ph)" "(sid, seq, ph1)"])

lemma jobs_advance:
  assumes "distinct (ids y)" "at i y (sid, seq, ph0)"
  shows "set (sy_jobs (advance i ph y)) = insert (sid, seq, ph) (set (sy_jobs y) - {(sid, seq, ph0)})"
proof -
  have "distinct (sy_jobs y)" using assms(1) by (simp add: ids_def distinct_map)
  with assms(2) show ?thesis by (simp add: at_def advance_def set_update_distinct)
qed

lemma flying_advance:
  assumes "distinct (ids y)" "at i y (sid, seq, ph0)"
  shows "flying (advance i ph y) =
    (if busy ph then insert (sid, seq) (flying y) else flying y - {(sid, seq)})"
proof -
  have m: "(sid, seq, ph0) \<in> set (sy_jobs y)" using assms(2) by (rule at_mem)
  have "(sid, seq, ph1) \<in> set (sy_jobs y) \<Longrightarrow> ph1 = ph0" for ph1
    using same_job [OF assms(1) _ m] by blast
  then show ?thesis unfolding flying_def jobs_advance [OF assms] by auto
qed

lemma flying_at: "distinct (ids y) \<Longrightarrow> at i y (sid, seq, ph) \<Longrightarrow> (sid, seq) \<in> flying y \<longleftrightarrow> busy ph"
  unfolding flying_def by (auto dest: at_mem same_job)

definition counted :: "(str \<times> uint64) list \<times> int \<Rightarrow> (str \<times> uint64) set \<Rightarrow> bool" where
  "counted fp F \<longleftrightarrow> distinct (fst fp) \<and> set (fst fp) = F \<and> snd fp = int (length (fst fp))"

lemma counted_mark:
  "counted (flight_part s) F \<Longrightarrow> (sid, seq) \<notin> F \<Longrightarrow> counted (flight_part (markInFlight sid seq s)) (insert (sid, seq) F)"
  by (auto simp: counted_def flight_part_def markInFlight_def)

lemma counted_complete:
  assumes "counted (flight_part s) F" "(sid, seq) \<in> F"
  shows "counted (flight_part (markCompleted sid seq s)) (F - {(sid, seq)})"
proof -
  let ?a = "su_active s"
  have d: "distinct ?a" "set ?a = F" "su_inFlight s = int (length ?a)"
    using assms(1) by (simp_all add: counted_def flight_part_def)
  have "length (filter (\<lambda>x. x \<noteq> (sid, seq)) ?a) = length ?a - 1"
    using d(1,2) assms(2) distinct_remove1_removeAll [of ?a "(sid, seq)"] length_remove1 [of "(sid, seq)" ?a]
    by (simp add: removeAll_filter_not_eq eq_commute)
  moreover obtain n where "length ?a = Suc n" using d(2) assms(2) by (cases ?a) auto
  ultimately have "int (length (filter (\<lambda>x. x \<noteq> (sid, seq)) ?a)) = su_inFlight s - 1" "su_inFlight s > 0"
    using d(3) by simp_all
  then show ?thesis using d assms(2)
    by (auto simp: counted_def flight_part_def markCompleted_def)
qed

lemma counted_step:
  assumes "job_step err y z" and d: "distinct (ids y)" and c: "counted (flight_part (sy_service y)) (flying y)"
  shows "counted (flight_part (sy_service z)) (flying z)"
  using assms(1)
proof cases
  case (fire sid seq)
  then have "flying z = flying y" by (auto simp: flying_def)
  with c show ?thesis by (simp add: fire)
next
  case (ask i sid seq recent snap prompt)
  have "(sid, seq) \<notin> flying y" using flying_at [OF d ask(2)] by simp
  from counted_mark [OF c this] show ?thesis by (simp add: ask flying_advance [OF d ask(2)])
next
  case (complete i sid seq)
  have "(sid, seq) \<in> flying y" using flying_at [OF d complete(2)] by simp
  from counted_complete [OF c this] show ?thesis by (simp add: complete flying_advance [OF d complete(2)])
next
  case (copy i sid seq)
  then show ?thesis using c flying_at [OF d copy(2)] by (simp add: flying_advance [OF d copy(2)])
next
  case (no_prompt i sid seq recent snap e now)
  then show ?thesis using c flying_at [OF d no_prompt(2)] by (simp add: flying_advance [OF d no_prompt(2)])
next
  case (answer i sid seq prompt a)
  then show ?thesis using c flying_at [OF d answer(2)] by (simp add: flying_advance [OF d answer(2)] insert_absorb)
next
  case (result i sid seq prompt a now)
  then show ?thesis using c flying_at [OF d result(2)] by (simp add: flying_advance [OF d result(2)] insert_absorb)
qed (use c in \<open>simp_all add: flying_def\<close>)

lemma reach_counted:
  "job_reach err limit y \<Longrightarrow> few y \<Longrightarrow> counted (flight_part (sy_service y)) (flying y)"
proof (induction rule: job_reach.induct)
  case start
  show ?case
    by (simp add: sy_init_def NewSuggestions_def counted_def flight_part_def flying_def)
next
  case (step y z)
  have "few y" using step few_back by blast
  moreover from this have "distinct (ids y)"
    using reach_numbered [OF step(1)] by (simp add: numbered_def split: prod.splits)
  ultimately show ?case using counted_step step by blast
qed

lemma in_flight_facts:
  assumes "job_reach err limit y" and "few y"
  shows "su_inFlight (sy_service y) = int (card (flying y))
    \<and> (rt_InProgress (Suggestion_Status (sy_service y)) \<longleftrightarrow> flying y \<noteq> {})
    \<and> (fst (CancelInFlight (sy_service y)) \<longleftrightarrow> flying y \<noteq> {})"
proof -
  let ?a = "su_active (sy_service y)"
  have c: "distinct ?a" "flying y = set ?a" "su_inFlight (sy_service y) = int (length ?a)"
    using reach_counted [OF assms] by (auto simp: counted_def flight_part_def)
  have "rt_InProgress (Suggestion_Status (sy_service y)) \<longleftrightarrow> su_inFlight (sy_service y) > 0"
    by (simp add: Suggestion_Status_def Let_def)
  moreover have "fst (CancelInFlight (sy_service y)) \<longleftrightarrow> ?a \<noteq> []" by (simp add: CancelInFlight_def)
  ultimately show ?thesis using c by (simp add: distinct_card)
qed

text \<open>
  C14. \<open>inFlight\<close> is exact. However the jobs of all sessions interleave, with at most \<open>2 ^ 64 - 1\<close>
  texts per session, the counter equals the number of jobs between \<open>markInFlight\<close> and
  \<open>markCompleted\<close>; so the status says in progress, and a cancel finds something to cancel, precisely
  when there is such a job, and when all jobs have finished the counter is back at zero.
\<close>

theorem in_flight_exact:
  assumes "job_reach err limit y" and "few y"
  shows "su_inFlight (sy_service y) = int (card (flying y))
    \<and> (rt_InProgress (Suggestion_Status (sy_service y)) \<longleftrightarrow> flying y \<noteq> {})
    \<and> (fst (CancelInFlight (sy_service y)) \<longleftrightarrow> flying y \<noteq> {})"
  using assms by (rule in_flight_facts)

subsection \<open>Freshness\<close>

fun current :: "str list \<Rightarrow> phase \<Rightarrow> bool" where
  "current lines (Copied recent) \<longleftrightarrow> recent = lines"
| "current lines (Asking prompt) \<longleftrightarrow> (\<exists>snap. buildPrompt lines snap = Inr prompt)"
| "current lines (Answered prompt a) \<longleftrightarrow> (\<exists>snap. buildPrompt lines snap = Inr prompt)"
| "current lines _ \<longleftrightarrow> True"

definition fresh :: "(str \<Rightarrow> str list) \<times> (str \<Rightarrow> uint64 option) \<times> (str \<Rightarrow> uint64) \<Rightarrow> job set \<Rightarrow> bool" where
  "fresh lp J \<longleftrightarrow>
     (\<forall>sid seq ph. (sid, seq, ph) \<in> J \<longrightarrow> seq = snd (snd lp) sid \<longrightarrow> current (fst lp sid) ph)"

lemma fresh_insert:
  "fresh lp J \<Longrightarrow> (seq = snd (snd lp) sid \<longrightarrow> current (fst lp sid) ph) \<Longrightarrow>
   fresh lp (insert (sid, seq, ph) (J - {j}))"
  by (auto simp: fresh_def)

lemma fresh_at:
  "fresh lp (set (sy_jobs y)) \<Longrightarrow> at i y (sid, seq, ph) \<Longrightarrow> seq = snd (snd lp) sid \<Longrightarrow> current (fst lp sid) ph"
  by (auto simp: fresh_def dest!: at_mem)

lemma fresh_ingest:
  assumes "fresh (log_part s) (set (sy_jobs y))" "numbered (log_part s) (ids y) (sy_calls y)"
    "ingests sid (sy_calls y @ [(sid, u)]) < 2 ^ 64"
  shows "fresh (log_part (IngestTerminal sid u s)) (set (sy_jobs y))"
proof (cases "trim_space u = []")
  case True
  with assms(1) show ?thesis by (simp add: IngestTerminal_def)
next
  case False
  have "(sid, su_jobSeq s sid + 1) \<notin> set (ids y)"
  proof
    assume m: "(sid, su_jobSeq s sid + 1) \<in> set (ids y)"
    let ?k = "ingests sid (sy_calls y)"
    have "unat (su_jobSeq s sid + 1) \<le> ?k" "su_jobSeq s sid = of_nat ?k"
      using m assms(2) by (auto simp: numbered_def log_part_def)
    moreover have "unat (of_nat (Suc ?k) :: uint64) = Suc ?k"
      using assms(3) False by (simp add: unat_of_nat ingests_snoc del: of_nat_Suc)
    ultimately show False by (simp add: add.commute)
  qed
  then have "(sid, su_jobSeq s sid + 1, ph) \<notin> set (sy_jobs y)" for ph
    by (force simp: ids_def)
  with assms(1) False show ?thesis
    by (auto simp: fresh_def log_part_def IngestTerminal_def Let_def)
qed

lemma fresh_step:
  assumes "job_step err y z" and "few z" and n: "numbered (log_part (sy_service y)) (ids y) (sy_calls y)"
    and f: "fresh (log_part (sy_service y)) (set (sy_jobs y))"
  shows "fresh (log_part (sy_service z)) (set (sy_jobs z))"
proof -
  have d: "distinct (ids y)" using n by (simp add: numbered_def split: prod.splits)
  note F = fresh_insert [OF f] and A = fresh_at [OF f] and S = jobs_advance [OF d]
  from assms(1) show ?thesis
  proof cases
    case (ingest sid u)
    then have "ingests sid (sy_calls y @ [(sid, u)]) < 2 ^ 64" using assms(2) by (simp add: few_def)
    from fresh_ingest [OF f n this] show ?thesis by (simp add: ingest)
  next
    case (fire sid seq)
    with f show ?thesis by (auto simp: fresh_def log_part_def)
  next
    case (copy i sid seq)
    have "current (fst (log_part (sy_service y)) sid) (Copied (su_recent (sy_service y) sid))"
      by (simp add: log_part_def)
    with F show ?thesis by (simp add: copy S [OF copy(2)])
  next
    case (no_prompt i sid seq recent snap e now)
    show ?thesis using F by (simp add: no_prompt(1) S [OF no_prompt(2)])
  next
    case (ask i sid seq recent snap prompt)
    have "seq = snd (snd (log_part (sy_service y))) sid \<longrightarrow> current (fst (log_part (sy_service y)) sid) (Asking prompt)"
      using A [OF ask(2)] ask(3) by auto
    with F show ?thesis by (simp add: ask(1) S [OF ask(2)])
  next
    case (answer i sid seq prompt a)
    show ?thesis using F A [OF answer(2)] by (auto simp: answer(1) S [OF answer(2)])
  next
    case (result i sid seq prompt a now)
    show ?thesis using F by (simp add: result(1) S [OF result(2)])
  next
    case (complete i sid seq)
    show ?thesis using F by (simp add: complete(1) S [OF complete(2)])
  qed (use f in simp)
qed

lemma reach_fresh:
  "job_reach err limit y \<Longrightarrow> few y \<Longrightarrow> fresh (log_part (sy_service y)) (set (sy_jobs y))"
proof (induction rule: job_reach.induct)
  case start
  show ?case by (simp add: sy_init_def fresh_def)
next
  case (step y z)
  then show ?case using fresh_step reach_numbered few_back by blast
qed

text \<open>
  C13. What is published is current and usable. Whenever a step changes the latest suggestion, it is
  the answer of a job whose prompt was built from the log as it is at that moment (no later text of
  the session has been ingested), the answer was accepted, so it has trimmed commands and no blank
  field, and the last error is cleared.
\<close>

theorem published_fresh:
  assumes "job_reach err limit y" and "few z" and "job_step err y z"
    and "Latest (sy_service z) \<noteq> Latest (sy_service y)"
  shows "\<exists>sid seq prompt response parsed snap now.
      (sid, seq, Answered prompt (Inr response)) \<in> set (sy_jobs y)
    \<and> buildPrompt (su_recent (sy_service z) sid) snap = Inr prompt
    \<and> parseSuggestionJSON err response = Inr parsed
    \<and> Latest (sy_service z) = (parsed\<lparr>sg_GeneratedAt := rfc3339nano now\<rparr>, True)
    \<and> usable (fst (Latest (sy_service z)))
    \<and> rt_LastError (Suggestion_Status (sy_service z)) = []"
proof -
  have f: "fresh (log_part (sy_service y)) (set (sy_jobs y))"
    using assms(1-3) few_back reach_fresh by blast
  from assms(3) show ?thesis
  proof cases
    case (result i sid seq prompt a now)
    then obtain response parsed where a: "a = Inr response" "parseSuggestionJSON err response = Inr parsed"
        "su_jobSeq (sy_service y) sid = seq"
      using assms(4) by (auto simp: finish_request_def setLastError_def publish_def Latest_def Let_def
          split: sum.splits if_splits)
    have "current (su_recent (sy_service y) sid) (Answered prompt a)"
      using fresh_at [OF f result(2)] a(3) by (simp add: log_part_def)
    then obtain snap where p: "buildPrompt (su_recent (sy_service y) sid) snap = Inr prompt" by auto
    have z: "sy_service z = publish sid seq (parsed\<lparr>sg_GeneratedAt := rfc3339nano now\<rparr>) (sy_service y)"
      by (simp add: result(1) a finish_request_def)
    have "usable (parsed\<lparr>sg_GeneratedAt := rfc3339nano now\<rparr>)"
      using parse_usable [OF a(2)] by (simp add: usable_def)
    then have "Latest (sy_service z) = (parsed\<lparr>sg_GeneratedAt := rfc3339nano now\<rparr>, True)"
      "rt_LastError (Suggestion_Status (sy_service z)) = []"
      "su_recent (sy_service z) = su_recent (sy_service y)"
      "usable (fst (Latest (sy_service z)))"
      using a(3) by (simp_all add: z publish_def Latest_def Suggestion_Status_def Let_def)
    with a p at_mem [OF result(2)] show ?thesis by metis
  qed (use assms(4) in \<open>auto simp: Latest_def IngestTerminal_def setLastError_def markInFlight_def
      markCompleted_def CancelInFlight_def Let_def split: if_splits\<close>)
qed

subsection \<open>A late failure\<close>

text \<open>
  Two texts of one session; the request for the first is still out when the second is answered and
  published; then the first one fails.
\<close>

definition demo_text :: str where "demo_text = lit ''You see a rat.''"

definition demo_answer :: str where
  "demo_answer = answer_json [lit ''kill rat''] (lit ''a rat'') (lit ''no rat'')"

definition demo_prompt :: "str list \<Rightarrow> str" where
  "demo_prompt lines = (case buildPrompt lines (Inr None) of Inr p \<Rightarrow> p | Inl e \<Rightarrow> e)"

definition do_ingest :: "suggestion_sys \<Rightarrow> suggestion_sys" where
  "do_ingest y = y\<lparr>sy_service := IngestTerminal [1] demo_text (sy_service y), sy_calls := sy_calls y @ [([1], demo_text)]\<rparr>"

definition do_fire :: "uint64 \<Rightarrow> suggestion_sys \<Rightarrow> suggestion_sys" where
  "do_fire seq y = y\<lparr>sy_service := (sy_service y)\<lparr>su_timer := (su_timer (sy_service y))([1] := None)\<rparr>,
     sy_jobs := sy_jobs y @ [([1], seq, Fired)]\<rparr>"

definition do_ask :: "nat \<Rightarrow> uint64 \<Rightarrow> suggestion_sys \<Rightarrow> suggestion_sys" where
  "do_ask i seq y =
     (advance i (Asking (demo_prompt (su_recent (sy_service y) [1])))
       (advance i (Copied (su_recent (sy_service y) [1])) y))\<lparr>sy_service := markInFlight [1] seq (sy_service y)\<rparr>"

definition do_result :: "nat \<Rightarrow> uint64 \<Rightarrow> str + str \<Rightarrow> utc \<Rightarrow> suggestion_sys \<Rightarrow> suggestion_sys" where
  "do_result i seq a now y =
     (advance i Completing y)\<lparr>sy_service := finish_request (\<lambda>_. []) [1] seq a now (sy_service y)\<rparr>"

lemma demo_prompt: "buildPrompt lines (Inr None) = Inr (demo_prompt lines)"
  by (simp add: demo_prompt_def buildPrompt_def)

lemma reach_ingest: "job_reach err limit y \<Longrightarrow> job_reach err limit (do_ingest y)"
  unfolding do_ingest_def by (rule job_reach.step [OF _ job_step.ingest])

lemma reach_fire: "job_reach err limit y \<Longrightarrow> su_timer (sy_service y) [1] = Some seq \<Longrightarrow> job_reach err limit (do_fire seq y)"
  unfolding do_fire_def by (rule job_reach.step [OF _ job_step.fire])

lemma reach_ask:
  assumes "job_reach err limit y" "at i y ([1], seq, Fired)"
  shows "job_reach err limit (do_ask i seq y)"
    and "at i (do_ask i seq y) ([1], seq, Asking (demo_prompt (su_recent (sy_service y) [1])))"
proof -
  let ?y1 = "advance i (Copied (su_recent (sy_service y) [1])) y"
  have "job_reach err limit ?y1" using assms job_reach.step job_step.copy by blast
  moreover have "at i ?y1 ([1], seq, Copied (su_recent (sy_service y) [1]))" using assms(2) by simp
  from job_step.ask [OF this demo_prompt] have "job_step err ?y1 (do_ask i seq y)" by (simp add: do_ask_def)
  ultimately show "job_reach err limit (do_ask i seq y)" by (rule job_reach.step)
  show "at i (do_ask i seq y) ([1], seq, Asking (demo_prompt (su_recent (sy_service y) [1])))"
    using at_advance [OF at_advance [OF assms(2)]] by (simp add: do_ask_def)
qed

lemma reach_answered:
  assumes "job_reach err limit y" "at i y (sid, seq, Asking p)"
  shows "job_reach err limit (advance i (Answered p a) y)" "at i (advance i (Answered p a) y) (sid, seq, Answered p a)"
  using assms job_reach.step job_step.answer by (blast, simp)

lemma step_result:
  "at i y ([1], seq, Answered p a) \<Longrightarrow> job_step (\<lambda>_. []) y (do_result i seq a now y)"
  unfolding do_result_def by (rule job_step.result)

lemma at_other [simp]: "i \<noteq> k \<Longrightarrow> at i (advance k ph y) j = at i y j"
  by (simp add: at_def advance_def split: prod.split)

definition demo1 :: suggestion_sys where "demo1 = do_ask 0 1 (do_fire 1 (do_ingest (sy_init 5)))"
definition demo2 :: suggestion_sys where "demo2 = do_ask 1 2 (do_fire 2 (do_ingest demo1))"
definition demo3 :: suggestion_sys where
  "demo3 = advance 1 (Answered (demo_prompt (su_recent (sy_service demo2) [1])) (Inr demo_answer)) demo2"
definition demo4 :: suggestion_sys where "demo4 = do_result 1 2 (Inr demo_answer) zero_time demo3"

lemma demo_nonblank: "trim_space demo_text \<noteq> []"
  by code_simp

lemmas log_sections = IngestTerminal_def NewSuggestions_def markInFlight_def Let_def

lemma demo1: "job_reach err 5 demo1" "at 0 demo1 ([1], 1, Asking (demo_prompt [demo_text]))"
  "su_jobSeq (sy_service demo1) [1] = 1"
proof -
  have l: "appendLogLines [] demo_text = [demo_text]" by code_simp
  let ?y = "do_fire 1 (do_ingest (sy_init 5))"
  have y: "job_reach err 5 ?y"
    by (intro reach_fire reach_ingest job_reach.start) (simp add: do_ingest_def sy_init_def log_sections demo_nonblank)
  have a: "at 0 ?y ([1], 1, Fired)" by (simp add: at_def do_fire_def do_ingest_def sy_init_def)
  have "su_recent (sy_service ?y) [1] = [demo_text]"
    by (simp add: do_fire_def do_ingest_def sy_init_def log_sections demo_nonblank l trimRecent_def)
  then show "job_reach err 5 demo1" "at 0 demo1 ([1], 1, Asking (demo_prompt [demo_text]))"
    using reach_ask [OF y a] by (simp_all add: demo1_def)
  show "su_jobSeq (sy_service demo1) [1] = 1"
    by (simp add: demo1_def do_ask_def do_fire_def do_ingest_def sy_init_def log_sections demo_nonblank)
qed

lemma length_advance [simp]: "length (sy_jobs (advance i ph y)) = length (sy_jobs y)"
  by (simp add: advance_def split: prod.split)

lemma demo2:
  "job_reach err 5 demo2" "at 0 demo2 ([1], 1, Asking (demo_prompt [demo_text]))"
  "at 1 demo2 ([1], 2, Asking (demo_prompt (su_recent (sy_service demo2) [1])))"
  "su_jobSeq (sy_service demo2) [1] = 2"
proof -
  let ?y = "do_fire 2 (do_ingest demo1)"
  have n: "length (sy_jobs demo1) = 1"
    by (simp add: demo1_def do_ask_def do_fire_def do_ingest_def sy_init_def)
  have t: "su_timer (sy_service (do_ingest demo1)) [1] = Some 2"
    "su_jobSeq (sy_service (do_ingest demo1)) [1] = 2"
    using demo1(3) by (simp_all add: do_ingest_def IngestTerminal_def Let_def demo_nonblank)
  have y: "job_reach err 5 ?y" by (rule reach_fire [OF reach_ingest [OF demo1(1)] t(1)])
  have a: "at 1 ?y ([1], 2, Fired)" using n by (simp add: at_def do_fire_def do_ingest_def nth_append)
  show "job_reach err 5 demo2" unfolding demo2_def by (rule reach_ask(1) [OF y a])
  have r: "su_recent (sy_service demo2) = su_recent (sy_service ?y)"
    by (simp add: demo2_def do_ask_def markInFlight_def)
  show "at 1 demo2 ([1], 2, Asking (demo_prompt (su_recent (sy_service demo2) [1])))"
    unfolding r unfolding demo2_def by (rule reach_ask(2) [OF y a])
  have "at 0 ?y ([1], 1, Asking (demo_prompt [demo_text]))"
    using demo1(2) n by (simp add: at_def do_fire_def do_ingest_def nth_append)
  then show "at 0 demo2 ([1], 1, Asking (demo_prompt [demo_text]))" by (simp add: demo2_def do_ask_def)
  show "su_jobSeq (sy_service demo2) [1] = 2"
    using t(2) by (simp add: demo2_def do_ask_def do_fire_def markInFlight_def)
qed

lemma demo3:
  "job_reach err 5 demo3" "at 0 demo3 ([1], 1, Asking (demo_prompt [demo_text]))"
  "at 1 demo3 ([1], 2, Answered (demo_prompt (su_recent (sy_service demo2) [1])) (Inr demo_answer))"
  "su_jobSeq (sy_service demo3) [1] = 2"
  using reach_answered [OF demo2(1,3)] demo2(2,4) by (simp_all add: demo3_def)

definition demo_parsed :: suggestion where
  "demo_parsed = \<lparr>sg_Commands = [lit ''kill rat''], sg_Reason = lit ''a rat'',
     sg_ExpectedOutcome = lit ''no rat'', sg_GeneratedAt = []\<rparr>"

lemma demo_parse: "parseSuggestionJSON err demo_answer = Inr demo_parsed"
proof -
  have "normalizeSuggestionJSON demo_answer = demo_answer" by code_simp
  moreover have "\<forall>c \<in> set [lit ''kill rat'']. text_ok c" "text_ok (lit ''a rat'')" "text_ok (lit ''no rat'')"
    by code_simp+
  note decode_answer [OF this]
  moreover have "trim_space (lit ''kill rat'') = lit ''kill rat''" "trim_space (lit ''a rat'') \<noteq> []"
    "trim_space (lit ''no rat'') \<noteq> []" by code_simp+
  ultimately show ?thesis
    by (simp add: parseSuggestionJSON_def demo_answer_def demo_parsed_def)
qed

lemma demo4:
  "job_step (\<lambda>_. []) demo3 demo4" "job_reach (\<lambda>_. []) 5 demo4"
  "sy_service demo4 = publish [1] 2 (demo_parsed\<lparr>sg_GeneratedAt := rfc3339nano zero_time\<rparr>) (sy_service demo3)"
  "at 0 demo4 ([1], 1, Asking (demo_prompt [demo_text]))"
proof -
  show s: "job_step (\<lambda>_. []) demo3 demo4" unfolding demo4_def by (rule step_result [OF demo3(3)])
  show "job_reach (\<lambda>_. []) 5 demo4" by (rule job_reach.step [OF demo3(1) s])
  show "sy_service demo4 = publish [1] 2 (demo_parsed\<lparr>sg_GeneratedAt := rfc3339nano zero_time\<rparr>) (sy_service demo3)"
    by (simp add: demo4_def do_result_def finish_request_def demo_parse)
  show "at 0 demo4 ([1], 1, Asking (demo_prompt [demo_text]))"
    using demo3(2) by (simp add: demo4_def do_result_def)
qed

lemma demo_calls: "sy_calls demo1 = [([1], demo_text)]" "sy_calls demo4 = [([1], demo_text), ([1], demo_text)]"
  by (simp_all add: demo4_def demo3_def demo2_def demo1_def do_result_def do_ask_def do_fire_def do_ingest_def sy_init_def)

lemma demo_few: "few demo1" "few demo4"
proof -
  have small: "length (filter P [a]) < 2 ^ 64" "length (filter P [a, b]) < 2 ^ 64" for P and a b :: "str \<times> str"
    by simp_all
  then show "few demo1" "few demo4" unfolding few_def ingests_def demo_calls by blast+
qed

theorem in_flight_exact_witness:
  "su_inFlight (sy_service demo1) = int (card (flying demo1)) \<and> fst (CancelInFlight (sy_service demo1))"
proof -
  have "([1], 1) \<in> flying demo1" using demo1(2) at_mem [OF demo1(2)] by (force simp: flying_def)
  with in_flight_exact [OF demo1(1) [of "\<lambda>_. []"] demo_few(1)] show ?thesis by blast
qed

theorem published_fresh_witness:
  "usable (fst (Latest (sy_service demo4)))"
proof -
  have "su_latestFound (sy_service demo3) = False"
    by (simp add: demo3_def demo2_def demo1_def do_ask_def do_fire_def do_ingest_def sy_init_def log_sections)
  then have "Latest (sy_service demo4) \<noteq> Latest (sy_service demo3)"
    by (simp add: demo4(3) publish_def Latest_def demo3(4))
  from published_fresh [OF demo3(1) demo_few(2) demo4(1) this] show ?thesis by blast
qed

text \<open>
  A late failure hides a success. The failure of a request that a newer text has superseded is
  recorded although its answer would have been dropped: there is a run in which the suggestion for
  the newest log is published, nothing is ingested after, and then the status reports the error of
  the older job, with the suggestion still there.
\<close>

lemma stale_failure_overwrites:
  "\<exists>y z sid seq prompt. job_reach (\<lambda>_. []) 5 y \<and> snd (Latest (sy_service y))
    \<and> rt_LastError (Suggestion_Status (sy_service y)) = []
    \<and> (sid, seq, Answered prompt (Inl (lit ''timeout''))) \<in> set (sy_jobs y)
    \<and> seq \<noteq> su_jobSeq (sy_service y) sid \<and> job_step (\<lambda>_. []) y z
    \<and> Latest (sy_service z) = Latest (sy_service y)
    \<and> rt_LastError (Suggestion_Status (sy_service z)) = lit ''timeout''"
proof -
  let ?p = "demo_prompt [demo_text]"
  let ?a = "Inl (lit ''timeout'') :: str + str"
  let ?y = "advance 0 (Answered ?p ?a) demo4"
  let ?z = "do_result 0 1 ?a zero_time ?y"
  note r = reach_answered [OF demo4(2,4), of ?a]
  have tm: "trim_space (lit ''timeout'') = lit ''timeout''" "lit ''timeout'' \<noteq> []" by code_simp+
  have y: "snd (Latest (sy_service ?y))" "rt_LastError (Suggestion_Status (sy_service ?y)) = []"
    by (simp_all add: demo4(3) publish_def demo3(4) Latest_def Suggestion_Status_def)
  have "su_jobSeq (sy_service ?y) [1] = 2" by (simp add: demo4(3) publish_def demo3(4))
  then have q: "1 \<noteq> su_jobSeq (sy_service ?y) [1]" by simp
  have s: "sy_service ?z = setLastError (lit ''timeout'') zero_time (sy_service ?y)"
    unfolding do_result_def finish_request_def by simp
  have z: "Latest (sy_service ?z) = Latest (sy_service ?y)"
    "rt_LastError (Suggestion_Status (sy_service ?z)) = lit ''timeout''"
    unfolding s setLastError_def Latest_def Suggestion_Status_def Let_def using tm by simp_all
  from r(1) y at_mem [OF r(2)] q step_result [OF r(2)] z show ?thesis by blast
qed

end
