(* ===== verification/JsonSafe.thy ===== *)
theory JsonSafe
  imports Json
begin

text \<open>
  What the JSON reader returns for a text of Unicode characters: values whose texts are Unicode
  characters again (a lone surrogate escape becomes U+FFFD) and whose numbers are JSON numbers.
\<close>

lemma text_ok_simps [simp]:
  "text_ok []" "text_ok (c # s) \<longleftrightarrow> scalar c \<and> text_ok s" "text_ok (s @ t) \<longleftrightarrow> text_ok s \<and> text_ok t"
  by (auto simp: text_ok_def)

lemma text_ok_drop: "text_ok s \<Longrightarrow> text_ok (drop n s)"
  by (auto simp: text_ok_def dest: in_set_dropD)

lemma text_ok_dropWhile: "text_ok s \<Longrightarrow> text_ok (dropWhile P s)"
  by (auto simp: text_ok_def dest: set_dropWhileD)

lemma hex_value_range: "hex_value c = Some n \<Longrightarrow> 0 \<le> n \<and> n < 16"
  by (auto simp: hex_value_def split: if_splits)

lemma hex4_ok: "hex4 s = Some (r, t) \<Longrightarrow> text_ok s \<Longrightarrow> 0 \<le> r \<and> r < 65536 \<and> text_ok t"
  by (cases s rule: hex4.cases) (auto split: option.splits dest!: hex_value_range)

lemma scalar_replacement: "scalar 65533"
  by (simp add: scalar_def)

lemma read_u_ok:
  assumes "read_u s = Some (r, t)" "text_ok s"
  shows "scalar r \<and> text_ok t"
proof -
  obtain r0 t0 where h: "hex4 s = Some (r0, t0)" using assms(1) by (auto simp: read_u_def split: option.splits)
  note H = hex4_ok [OF h assms(2)]
  show ?thesis
  proof (cases "55296 \<le> r0 \<and> r0 \<le> 57343")
    case False
    with assms(1) h H show ?thesis by (auto simp: read_u_def scalar_def)
  next
    case True
    have "r = 65533 \<and> t = t0 \<or> (\<exists>a b t1 r2. t0 = a # b # t1 \<and> hex4 t1 = Some (r2, t) \<and> r0 \<le> 56319
        \<and> 56320 \<le> r2 \<and> r2 \<le> 57343 \<and> r = 65536 + (r0 - 55296) * 1024 + (r2 - 56320))"
      using assms(1) True by (auto simp: read_u_def h split: list.splits option.splits if_splits)
    then show ?thesis
    proof
      assume "r = 65533 \<and> t = t0"
      with H scalar_replacement show ?thesis by simp
    next
      assume "\<exists>a b t1 r2. t0 = a # b # t1 \<and> hex4 t1 = Some (r2, t) \<and> r0 \<le> 56319
        \<and> 56320 \<le> r2 \<and> r2 \<le> 57343 \<and> r = 65536 + (r0 - 55296) * 1024 + (r2 - 56320)"
      then obtain a b t1 r2 where t0: "t0 = a # b # t1" "hex4 t1 = Some (r2, t)"
        and r: "r0 \<le> 56319" "56320 \<le> r2" "r2 \<le> 57343" "r = 65536 + (r0 - 55296) * 1024 + (r2 - 56320)" by blast
      from t0 H have "text_ok t" using hex4_ok by auto
      moreover have "scalar r" using r True by (simp add: scalar_def)
      ultimately show ?thesis by simp
    qed
  qed
qed

lemma read_escape_ok: "read_escape s = Some (r, t) \<Longrightarrow> text_ok s \<Longrightarrow> scalar r \<and> text_ok t"
  using read_u_ok by (auto simp: read_escape_def scalar_def split: list.splits if_splits)

lemma read_string_ok: "read_string s = Some (w, t) \<Longrightarrow> text_ok s \<Longrightarrow> text_ok w \<and> text_ok t"
proof (induction s arbitrary: w t rule: read_string.induct)
  case (1 s)
  show ?case
  proof (cases s)
    case Nil
    with 1(3) show ?thesis by simp
  next
    case (Cons c u)
    have ok: "scalar c" "text_ok u" using 1(4) Cons by simp_all
    consider "c = 34" | "c = 92" | "c \<noteq> 34" "c \<noteq> 92" "\<not> c < 32" | "c \<noteq> 34" "c \<noteq> 92" "c < 32" by blast
    then show ?thesis
    proof cases
      case 1
      with \<open>read_string s = Some (w, t)\<close> ok Cons show ?thesis by (simp add: read_string_Cons)
    next
      case 2
      with 1(3) Cons obtain r v w1 where e: "read_escape u = Some (r, v)" and s: "read_string v = Some (w1, t)"
        and w: "w = r # w1"
        by (auto simp: read_string_Cons split: option.splits)
      from read_escape_ok [OF e ok(2)] have "scalar r" "text_ok v" by simp_all
      moreover from 1(1) [OF Cons _ _ e refl s] 2 calculation(2) have "text_ok w1 \<and> text_ok t" by simp
      ultimately show ?thesis by (simp add: w)
    next
      case 3
      with 1(3) Cons obtain w1 where s: "read_string u = Some (w1, t)" and w: "w = c # w1"
        by (auto simp: read_string_Cons)
      from 1(2) [OF Cons _ _ _ s ok(2)] 3 ok(1) show ?thesis by (simp add: w)
    next
      case 4
      with 1(3) Cons show ?thesis by (simp add: read_string_Cons)
    qed
  qed
qed

fun token_ok :: "token \<Rightarrow> bool" where
  "token_ok (TStr s) = text_ok s"
| "token_ok (TNum n) = json_ok (JNum n)"
| "token_ok _ = True"

lemma next_token_ok:
  assumes "next_token s = Some (tok, t)" "text_ok s"
  shows "token_ok tok \<and> text_ok t"
proof (cases s)
  case Nil
  with assms(1) show ?thesis by (simp add: next_token_def)
next
  case (Cons c u)
  have u: "text_ok u" using assms(2) Cons by simp
  consider (punct) k where "punct c = Some k" | (str) "punct c = None" "c = 34"
    | (num) "punct c = None" "c \<noteq> 34" "c = 45 \<or> is_digit c"
    | (word) "punct c = None" "c \<noteq> 34" "\<not> (c = 45 \<or> is_digit c)" by (cases "punct c") blast+
  then show ?thesis
  proof cases
    case (punct k)
    then have "token_ok k" by (auto simp: punct_def split: if_splits)
    with punct assms(1) Cons u show ?thesis by (simp add: next_token_def)
  next
    case str
    with assms(1) Cons obtain w where "tok = TStr w" "read_string u = Some (w, t)"
      by (auto simp: next_token_def)
    with read_string_ok u show ?thesis by auto
  next
    case num
    with assms(1) Cons have v: "valid_number (takeWhile num_char s)" "tok = TNum (takeWhile num_char s)"
        "t = dropWhile num_char s"
      by (auto simp: next_token_def Let_def split: if_splits)
    have "num_char c" using num(3) by (auto simp: num_char_def)
    then have "takeWhile num_char s = c # takeWhile num_char u" by (simp add: Cons)
    with v num(3) \<open>num_char c\<close> have "token_ok tok" by (auto dest: set_takeWhileD)
    with v(3) assms(2) text_ok_dropWhile show ?thesis by auto
  next
    case word
    with assms(1) Cons obtain k v where f: "find (\<lambda>(k, _). has_prefix s k) reserved = Some (k, v)"
      and t: "tok = v" "t = drop (length k) s"
      by (auto simp: next_token_def split: option.splits)
    have "token_ok v" using f by (auto simp: reserved_def split: if_splits)
    with t assms(2) text_ok_drop show ?thesis by auto
  qed
qed

fun mode_ok :: "mode \<Rightarrow> bool" where
  "mode_ok (NeedColon k) = text_ok k"
| "mode_ok (Have v) = json_ok v"
| "mode_ok _ = True"

fun frame_ok :: "frame \<Rightarrow> bool" where
  "frame_ok (FArr vs) = (\<forall>v \<in> set vs. json_ok v)"
| "frame_ok (FObj ms k) = (text_ok k \<and> (\<forall>(k, v) \<in> set ms. text_ok k \<and> json_ok v))"

definition state_ok :: "mode \<times> frame list \<Rightarrow> bool" where
  "state_ok ms \<longleftrightarrow> mode_ok (fst ms) \<and> (\<forall>f \<in> set (snd ms). frame_ok f)"

lemma start_value_ok: "start_value tok st = Some ms \<Longrightarrow> token_ok tok \<Longrightarrow> \<forall>f \<in> set st. frame_ok f \<Longrightarrow> state_ok ms"
  by (cases tok) (auto simp: state_ok_def)

lemma after_value_ok:
  "after_value tok v st = Some ms \<Longrightarrow> json_ok v \<Longrightarrow> \<forall>f \<in> set st. frame_ok f \<Longrightarrow> state_ok ms"
  by (cases "(tok, v, st)" rule: after_value.cases) (auto simp: state_ok_def members_ok_def)

lemma json_step_ok:
  assumes "json_step tok ms = Some ms1" "token_ok tok" "state_ok ms"
  shows "state_ok ms1"
proof -
  obtain m st where ms: "ms = (m, st)" by (cases ms)
  have st: "\<forall>f \<in> set st. frame_ok f" using assms(3) by (simp add: state_ok_def ms)
  show ?thesis
  proof (cases m)
    case NeedValue
    with assms ms st start_value_ok show ?thesis by (auto simp: json_step_def)
  next
    case NeedValueOrEnd
    with assms(1) ms have "start_value tok st = Some ms1 \<or> (\<exists>st1. st = FArr [] # st1 \<and> ms1 = (Have (JArr []), st1))"
      by (auto simp: json_step_def split: token.splits list.splits frame.splits)
    then show ?thesis
    proof
      assume "start_value tok st = Some ms1"
      from start_value_ok [OF this assms(2) st] show ?thesis .
    qed (use st in \<open>auto simp: state_ok_def\<close>)
  next
    case NeedKey
    with assms ms st show ?thesis by (auto simp: json_step_def state_ok_def split: token.splits)
  next
    case NeedKeyOrEnd
    with assms ms st show ?thesis
      by (auto simp: json_step_def state_ok_def split: token.splits list.splits frame.splits)
  next
    case (NeedColon k)
    with assms ms st show ?thesis
      by (auto simp: json_step_def state_ok_def split: token.splits list.splits frame.splits)
  next
    case (Have v)
    with assms ms st after_value_ok show ?thesis by (auto simp: json_step_def state_ok_def)
  qed
qed

lemma json_first_ok:
  "json_first s ms = Some (v, rest) \<Longrightarrow> text_ok s \<Longrightarrow> state_ok ms \<Longrightarrow> json_ok v"
proof (induction s ms rule: json_first.induct)
  case (1 s ms)
  show ?case
  proof (cases s)
    case Nil
    with 1(3) show ?thesis by (simp add: json_first.simps [of "[]"])
  next
    case (Cons c t)
    have t: "text_ok t" using 1(4) Cons by simp
    show ?thesis
    proof (cases "is_blank c")
      case True
      with 1(3) Cons have "json_first t ms = Some (v, rest)" by (simp add: json_first.simps [of "c # t"])
      from 1(1) [OF Cons True this t 1(5)] show ?thesis .
    next
      case False
      with 1(3) Cons obtain tok u ms1 where n: "next_token s = Some (tok, u)" and st: "json_step tok ms = Some ms1"
        and r: "(case finished ms1 of Some v \<Rightarrow> Some (v, u) | None \<Rightarrow> json_first u ms1) = Some (v, rest)"
        by (auto simp: json_first.simps [of "c # t"] split: option.splits)
      from next_token_ok [OF n 1(4)] have u: "token_ok tok" "text_ok u" by simp_all
      have ok: "state_ok ms1" by (rule json_step_ok [OF st u(1) 1(5)])
      show ?thesis
      proof (cases "finished ms1")
        case None
        with r have "json_first u ms1 = Some (v, rest)" by simp
        from 1(2) [OF Cons False n refl st None this u(2) ok] show ?thesis .
      next
        case (Some w)
        with r ok show ?thesis by (auto simp: finished_Some state_ok_def)
      qed
    qed
  qed
qed

lemma json_decode_ok: "json_decode s = Some (v, rest) \<Longrightarrow> text_ok s \<Longrightarrow> json_ok v"
proof -
  have "state_ok (NeedValue, [])" by (simp add: state_ok_def)
  then show "json_decode s = Some (v, rest) \<Longrightarrow> text_ok s \<Longrightarrow> json_ok v"
    unfolding json_decode_def using json_first_ok by blast
qed

end
