(* ===== verification/Payload.thy ===== *)
theory Payload
  imports JsonSafe Utf8
begin

text \<open>
  Go structs as JSON objects: integers, the \<open>omitempty\<close> rules, and the reading of a member, with
  the laws that what is written is read back.
\<close>

subsection \<open>Integers\<close>

definition jint :: "int \<Rightarrow> json" where
  "jint i = JNum (itoa i)"

definition int_range :: "int \<Rightarrow> bool" where
  "int_range i \<longleftrightarrow> - (2 ^ 63) \<le> i \<and> i < 2 ^ 63"

lemma hd_digits: "0 < n \<Longrightarrow> hd (digits n) \<noteq> 48"
proof (induction n rule: digits.induct)
  case (1 n)
  then show ?case by (cases "n < 10") (subst digits.simps, simp)+
qed

lemma int_part_digits: "int_part (digits n) = Some []"
proof (cases "n = 0")
  case True
  then show ?thesis by (subst digits.simps) (simp add: int_part_def)
next
  case False
  have "\<forall>r \<in> set (digits n). is_digit r" using digits_are_digits by blast
  then have "takeWhile is_digit (digits n) = digits n" "dropWhile is_digit (digits n) = []"
    by (simp_all add: takeWhile_eq_all_conv dropWhile_eq_Nil_conv)
  with False hd_digits [of n] show ?thesis
    by (cases "digits n") (simp_all add: int_part_def digits1_def)
qed

lemma valid_number_itoa: "valid_number (itoa i)"
proof -
  have r: "Option.bind (frac_part []) exp_part = Some []" by (simp add: frac_part_def exp_part_def)
  have d: "hd (digits n) \<noteq> 45" for n
    using digits_are_digits [of "hd (digits n)" n] by (auto simp: is_digit_def)
  show ?thesis
  proof (cases "i < 0")
    case True
    then show ?thesis by (simp add: valid_number_def itoa_def int_part_digits r)
  next
    case False
    have "(case digits (nat i) of [] \<Rightarrow> digits (nat i) | c # t \<Rightarrow> if c = 45 then t else digits (nat i)) = digits (nat i)"
      using d [of "nat i"] by (cases "digits (nat i)") auto
    with False show ?thesis by (simp add: valid_number_def itoa_def int_part_digits r)
  qed
qed

lemma json_ok_jint [simp]: "json_ok (jint i)"
proof -
  have "\<forall>c \<in> set (itoa i). num_char c"
    using digits_are_digits by (auto simp: itoa_def num_char_def)
  moreover have "itoa i \<noteq> [] \<and> (hd (itoa i) = 45 \<or> is_digit (hd (itoa i)))"
    using digits_are_digits [of "hd (digits (nat i))" "nat i"] by (auto simp: itoa_def)
  ultimately show ?thesis by (simp add: jint_def valid_number_itoa)
qed

lemma Atoi_itoa: "int_range i \<Longrightarrow> Atoi (itoa i) = Some i"
proof (cases "i < 0")
  case True
  assume "int_range i"
  with True have "nat (- i) \<le> 2 ^ 63" by (simp add: int_range_def)
  have "\<forall>r \<in> set (digits (nat (- i))). is_digit r" using digits_are_digits by blast
  with True \<open>int_range i\<close> show ?thesis
    by (simp add: Atoi_def itoa_def signed_def list_all_iff int_range_def)
next
  case False
  assume "int_range i"
  with False have "nat i < 2 ^ 63" by (simp add: int_range_def nat_less_iff)
  with False show ?thesis by (simp add: itoa_def Atoi_digits)
qed

subsection \<open>Members\<close>

text \<open>A member that \<open>omitempty\<close> leaves out when its value is the zero value.\<close>

definition omit :: "bool \<Rightarrow> string \<Rightarrow> json \<Rightarrow> (str \<times> json) list" where
  "omit zero name v = (if zero then [] else [(lit name, v)])"

definition member :: "string \<Rightarrow> json \<Rightarrow> (str \<times> json) list" where
  "member name v = [(lit name, v)]"

text \<open>The value a reader finds for a name; a member left out has its zero value.\<close>

definition get :: "string \<Rightarrow> (str \<times> json) list \<Rightarrow> json option" where
  "get name ms = map_of ms (lit name)"

definition get_text :: "string \<Rightarrow> (str \<times> json) list \<Rightarrow> str" where
  "get_text name ms = (case get name ms of Some (JStr s) \<Rightarrow> s | _ \<Rightarrow> [])"

definition get_bool :: "string \<Rightarrow> (str \<times> json) list \<Rightarrow> bool" where
  "get_bool name ms = (case get name ms of Some (JBool b) \<Rightarrow> b | _ \<Rightarrow> False)"

definition get_int :: "string \<Rightarrow> (str \<times> json) list \<Rightarrow> int" where
  "get_int name ms =
     (case get name ms of
        Some (JNum n) \<Rightarrow> (case Atoi n of Some i \<Rightarrow> i | None \<Rightarrow> 0)
      | _ \<Rightarrow> 0)"

lemma lit_inject [simp]: "lit s = lit t \<longleftrightarrow> s = t"
proof (induction s arbitrary: t)
  case (Cons c s)
  have "of_char c = (of_char d :: int) \<longleftrightarrow> c = d" for d by simp
  with Cons show ?case by (cases t) auto
qed (metis lit.simps(1) lit_eq_Nil)

lemma get_append [simp]:
  "get name (ms @ ns) = (case get name ms of None \<Rightarrow> get name ns | Some v \<Rightarrow> Some v)"
  by (simp add: get_def map_add_def split: option.split)

lemma get_member [simp]: "get name (member name1 v) = (if name = name1 then Some v else None)"
  by (simp add: get_def member_def)

lemma get_omit [simp]: "get name (omit z name1 v) = (if name = name1 \<and> \<not> z then Some v else None)"
  by (simp add: get_def omit_def)

lemma get_Nil [simp]: "get name [] = None"
  by (simp add: get_def)

lemma text_ok_lit [simp]: "text_ok (lit s)"
proof (induction s)
  case (Cons c s)
  have "0 \<le> (of_char c :: int)" "(of_char c :: int) < 256"
    by (metis of_nat_of_char of_nat_0_le_iff) (metis nat_of_char_less_256 of_nat_less_iff of_nat_numeral of_nat_of_char)
  then have "scalar (of_char c)" by (simp add: scalar_def)
  with Cons show ?case by (simp add: text_ok_def)
qed (simp add: text_ok_def)

lemma members_ok_append [simp]: "members_ok (ms @ ns) \<longleftrightarrow> members_ok ms \<and> members_ok ns"
  by (auto simp: members_ok_def)

lemma members_ok_member [simp]: "members_ok (member name v) \<longleftrightarrow> text_ok (lit name) \<and> json_ok v"
  by (simp add: members_ok_def member_def)

lemma members_ok_omit [simp]: "members_ok (omit z name v) \<longleftrightarrow> z \<or> text_ok (lit name) \<and> json_ok v"
  by (auto simp: members_ok_def omit_def)

subsection \<open>Texts as bytes\<close>

definition json_bytes :: "json \<Rightarrow> byte list" where
  "json_bytes v = encode_utf8 (print_json v)"

definition read_json :: "byte list \<Rightarrow> json option" where
  "read_json bs = parse_json (decode_utf8 bs)"

lemma hex_digit_scalar: "0 \<le> n \<Longrightarrow> n < 16 \<Longrightarrow> scalar (hex_digit n)"
  by (simp add: hex_digit_def scalar_def)

lemma u_escape_scalar:
  assumes "0 \<le> d" "d < 65536" "x \<in> set (u_escape d)"
  shows "scalar x"
proof -
  have "0 \<le> d div 4096" "d div 4096 < 16" using assms(1,2) by simp_all
  then have "scalar (hex_digit (d div 4096))" by (rule hex_digit_scalar)
  moreover have "scalar (hex_digit (e mod 16))" for e by (rule hex_digit_scalar) simp_all
  moreover have "scalar 92" "scalar 117" by (simp_all add: scalar_def)
  ultimately show ?thesis using assms(3) unfolding u_escape_def by auto
qed

lemma small_scalar: "0 \<le> x \<Longrightarrow> x < 128 \<Longrightarrow> scalar x"
  by (simp add: scalar_def)

lemma escape_scalar:
  assumes "r \<in> set (escape c)"
  shows "scalar r"
proof (cases "c \<in> {34, 92, 8, 12, 10, 13, 9}")
  case True
  with assms show ?thesis by (auto simp: escape_def small_scalar)
next
  case False
  then have e: "escape c = (if 0 \<le> c \<and> c < 32 \<or> c \<in> {60, 62, 38, 8232, 8233} then u_escape c
      else if scalar c then [c] else u_escape 65533)"
    by (simp add: escape_def)
  show ?thesis
  proof (cases "0 \<le> c \<and> c < 32 \<or> c \<in> {60, 62, 38, 8232, 8233}")
    case True
    then have "0 \<le> c" "c < 65536" by auto
    moreover have "r \<in> set (u_escape c)" using assms True unfolding e by (simp only: if_True)
    ultimately show ?thesis by (rule u_escape_scalar)
  next
    case F: False
    show ?thesis
    proof (cases "scalar c")
      case True
      with assms F show ?thesis unfolding e by (simp only: if_False if_True) simp
    next
      case False
      with assms F have "r \<in> set (u_escape 65533)" unfolding e by (simp only: if_False)
      then show ?thesis by (rule u_escape_scalar [rotated 2]) simp_all
    qed
  qed
qed

lemma print_string_text: "text_ok (print_string s)"
  by (auto simp: text_ok_def print_string_def intro: small_scalar escape_scalar)

lemma sep_by_text: "\<forall>x \<in> set xs. text_ok x \<Longrightarrow> text_ok (sep_by xs)"
  by (induction xs rule: sep_by.induct) (simp_all add: small_scalar)

lemma num_text: "\<forall>c \<in> set s. num_char c \<Longrightarrow> text_ok s"
  by (fastforce simp: text_ok_def num_char_def is_digit_def intro!: small_scalar)

lemma print_json_text: "json_ok v \<Longrightarrow> text_ok (print_json v)"
proof (induction v rule: print_json.induct)
  case (5 vs)
  then show ?case by (auto simp: small_scalar intro!: sep_by_text)
next
  case (6 ms)
  have "text_ok (print_string k @ [58] @ print_json v)" if "(k, v) \<in> set ms" for k v
    using 6(1) [OF that refl] 6(2) that by (force simp: members_ok_def small_scalar print_string_text)
  then show ?case by (auto simp: small_scalar intro!: sep_by_text)
qed (auto simp: small_scalar print_string_text intro!: num_text)

lemma read_json_bytes: "json_ok v \<Longrightarrow> read_json (json_bytes v) = Some v"
proof -
  assume ok: "json_ok v"
  have "\<forall>r \<in> set (print_json v). valid_rune r"
    using print_json_text [OF ok] by (fastforce simp: text_ok_def scalar_def valid_rune_def)
  then show ?thesis by (simp add: read_json_def json_bytes_def decode_encode_utf8 parse_print ok)
qed

text \<open>A line of JSON, as \<open>json.Encoder\<close> writes it.\<close>

lemma parse_line: "json_ok v \<Longrightarrow> parse_json (print_json v @ [10]) = Some v"
proof -
  assume "json_ok v"
  moreover have "stops [10]" by (simp add: stops_def num_char_def is_digit_def)
  moreover have "json_lex [10] = Some []" by (simp add: json_lex.simps [of "[10]"] is_blank_def)
  ultimately have "json_lex (print_json v @ [10]) = Some (toks v)"
    using lexes_json [of v] by (simp add: lexes_def)
  moreover have "json_run (toks v) (NeedValue, []) = Some (Have v, [])"
    using runs_to_all [of v, unfolded runs_to_def, rule_format, of NeedValue "[]" "[]"] by simp
  ultimately show ?thesis by (simp add: parse_json_def)
qed

lemma text_ok_digits [simp]: "\<forall>r \<in> set s. is_digit r \<Longrightarrow> text_ok s"
  by (auto simp: text_ok_def is_digit_def scalar_def)

lemma text_ok_itoa [simp]: "text_ok (itoa i)"
proof -
  have "text_ok (digits n)" for n using digits_are_digits by (intro text_ok_digits) blast
  then show ?thesis by (simp add: itoa_def scalar_def)
qed

end
