(* ===== verification/Wire.thy ===== *)
theory Wire
  imports Hub Payload
begin

text \<open>
  The events as the browser gets them: \<open>marshalEvent\<close> of \<open>gateway/wsframe.go\<close>, with the JSON tags
  of \<open>TerminalEvent\<close>, and the way from the send channel of a client to the events its browser reads.
\<close>

definition event_members :: "terminal_event \<Rightarrow> (str \<times> json) list" where
  "event_members e =
     member ''event'' (JStr (ev_Event e)) @
     member ''session_id'' (JStr (ev_SessionID e)) @
     omit (\<not> ev_Connected e) ''connected'' (JBool (ev_Connected e)) @
     omit (ev_Text e = []) ''text'' (JStr (ev_Text e)) @
     omit (ev_QueueDepth e = 0) ''queue_depth'' (jint (ev_QueueDepth e)) @
     omit (ev_QueueMax e = 0) ''queue_max'' (jint (ev_QueueMax e)) @
     omit (ev_QueueRejectCode e = []) ''queue_reject_code'' (JStr (ev_QueueRejectCode e)) @
     member ''timestamp'' (JStr (ev_Timestamp e))"

text \<open>\<open>json.Marshal\<close> cannot fail on a struct of strings, booleans and integers.\<close>

definition marshalEvent :: "terminal_event \<Rightarrow> byte list option" where
  "marshalEvent e = Some (json_bytes (JObj (event_members e)))"

definition event_ok :: "terminal_event \<Rightarrow> bool" where
  "event_ok e \<longleftrightarrow> text_ok (ev_Event e) \<and> text_ok (ev_SessionID e) \<and> text_ok (ev_Text e)
     \<and> text_ok (ev_QueueRejectCode e) \<and> text_ok (ev_Timestamp e)
     \<and> int_range (ev_QueueDepth e) \<and> int_range (ev_QueueMax e)"

text \<open>What a reader of the JSON makes of it, a missing member being the zero value.\<close>

definition read_event :: "byte list \<Rightarrow> terminal_event option" where
  "read_event bs =
     (case read_json bs of
        Some (JObj ms) \<Rightarrow>
          Some \<lparr>ev_Event = get_text ''event'' ms, ev_SessionID = get_text ''session_id'' ms,
                ev_Connected = get_bool ''connected'' ms, ev_Text = get_text ''text'' ms,
                ev_QueueDepth = get_int ''queue_depth'' ms, ev_QueueMax = get_int ''queue_max'' ms,
                ev_QueueRejectCode = get_text ''queue_reject_code'' ms,
                ev_Timestamp = get_text ''timestamp'' ms\<rparr>
      | _ \<Rightarrow> None)"

lemma event_members_ok: "event_ok e \<Longrightarrow> json_ok (JObj (event_members e))"
  unfolding json_ok_obj event_members_def by (simp add: event_ok_def text_ok_def scalar_def)

lemma read_marshalled: "event_ok e \<Longrightarrow> read_event (json_bytes (JObj (event_members e))) = Some e"
proof -
  assume ok: "event_ok e"
  have i: "Atoi (itoa (ev_QueueDepth e)) = Some (ev_QueueDepth e)" "Atoi (itoa (ev_QueueMax e)) = Some (ev_QueueMax e)"
    using ok by (simp_all add: event_ok_def Atoi_itoa)
  show ?thesis
    unfolding read_event_def read_json_bytes [OF event_members_ok [OF ok]]
    by (simp add: event_members_def get_text_def get_bool_def get_int_def jint_def i)
qed

text \<open>
  C26. The browser reads the events that were sent to it. On a connection that works, the bytes the
  write pump puts on the wire for the events of a send channel are frames in which a reader finds,
  in order, exactly those events, every field as it was (texts of any Unicode characters, numbers of
  the whole 64-bit range, fields left out by \<open>omitempty\<close> included), as long as no event's text
  exceeds a frame of 1 MiB.
\<close>

theorem browser_reads_events:
  assumes "\<forall>w. set_deadline w" and "wc_err w = None" and "wc_out w = []"
    and "\<forall>e \<in> set events. event_ok e \<and> length (json_bytes (JObj (event_members e))) \<le> 2 ^ 20"
  shows "map read_event
      (read_payloads \<lparr>rc_data = wc_out (writePump marshalEvent set_deadline events w), rc_end = EOF\<rparr>)
    = map Some events"
proof -
  have "read_payloads \<lparr>rc_data = wc_out (writePump marshalEvent set_deadline events w), rc_end = EOF\<rparr>
      = List.map_filter marshalEvent events"
    by (rule pump_in_order [OF assms(1-3)]) (use assms(4) in \<open>simp add: marshalEvent_def\<close>)
  also have "\<dots> = map (\<lambda>e. json_bytes (JObj (event_members e))) events"
    by (simp add: List.map_filter_def marshalEvent_def)
  finally show ?thesis using assms(4) by (simp add: read_marshalled)
qed

definition rejected_example :: terminal_event where
  "rejected_example = \<lparr>ev_Event = lit ''queue.rejected'', ev_SessionID = lit ''s-1'', ev_Connected = False,
     ev_Text = [1085, 1077, 1090, 34], ev_QueueDepth = 20, ev_QueueMax = 20,
     ev_QueueRejectCode = lit ''QUEUE_FULL'', ev_Timestamp = lit ''2024-01-01T00:00:00Z''\<rparr>"

theorem browser_reads_events_witness:
  "map read_event (read_payloads
     \<lparr>rc_data = wc_out (writePump marshalEvent (\<lambda>_. True) [rejected_example] \<lparr>wc_out = [], wc_err = None\<rparr>),
      rc_end = EOF\<rparr>) = [Some rejected_example]"
proof -
  have "event_ok rejected_example"
    by (simp add: rejected_example_def event_ok_def text_ok_def scalar_def int_range_def)
  moreover have "length (json_bytes (JObj (event_members rejected_example))) \<le> 300"
    by code_simp
  ultimately show ?thesis
    using browser_reads_events [of "\<lambda>_. True" "\<lparr>wc_out = [], wc_err = None\<rparr>" "[rejected_example]"] by simp
qed

end
