(* ===== verification/WireSpec.thy ===== *)
theory WireSpec
  imports Wire HubRace ManagerSpec
begin

text \<open>
  The events against the API description \<open>api/openapi/gateway.v0.yaml\<close>: two promises the code does
  not keep.
\<close>

subsection \<open>Omitted fields\<close>

lemma read_marshalEvent:
  "event_ok e \<Longrightarrow> marshalEvent e = Some bs \<Longrightarrow> read_json bs = Some (JObj (event_members e))"
  using event_members_ok by (auto simp: marshalEvent_def read_json_bytes)

lemma status_event_down:
  assumes "gw_ok g" "link_of g = Down" "BuildStatusEvent now g = (e, g1)"
  shows "ev_Connected e = False" "ev_QueueDepth e = 0" "ev_QueueMax e = g_queueMaxDepth g" "ev_SessionID e = lit ''s-1''"
    "ev_Event e = lit ''session.status''" "ev_Text e = []" "ev_QueueRejectCode e = []" "ev_Timestamp e = rfc3339nano now"
proof -
  obtain st g2 where s: "Status now g = (st, g2)" by (metis surj_pair)
  have "spec_exec undefined OpStatus (abs_gw g) = (reply_of st None 0, abs_gw g2)"
    using simD(2) [OF assms(1), of undefined OpStatus now] by (simp add: s)
  with assms(2) have "\<not> st_Connected st" "st_QueueDepth st = 0" "st_QueueMax st = g_queueMaxDepth g"
      "st_SessionID st = lit ''s-1''"
    by (auto simp: reply_of_def status_reply_def simp del: lit.simps)
  with assms(3) show "ev_Connected e = False" "ev_QueueDepth e = 0" "ev_QueueMax e = g_queueMaxDepth g"
    "ev_SessionID e = lit ''s-1''" "ev_Event e = lit ''session.status''" "ev_Text e = []"
    "ev_QueueRejectCode e = []" "ev_Timestamp e = rfc3339nano now"
    by (auto simp: BuildStatusEvent_def s simp del: lit.simps)
qed

lemma text_ok_ascii: "\<forall>r \<in> set s. 0 \<le> r \<and> r < 128 \<Longrightarrow> text_ok s"
  by (auto simp: text_ok_def scalar_def)

lemma time_ascii: "\<forall>r \<in> set (rfc3339nano t). 0 \<le> r \<and> r < 128"
proof -
  have p: "r \<in> set (pad n v) \<Longrightarrow> 0 \<le> r \<and> r < 128" for r n v
    by (induction n arbitrary: v) auto
  have "r \<in> set (strip_zeros (pad 9 k)) \<Longrightarrow> 0 \<le> r \<and> r < 128" for r k
    using p by (auto simp: strip_zeros_def dest!: set_dropWhileD)
  with p show ?thesis by (auto simp: rfc3339nano_def seconds_text_def fraction_def split: if_splits)
qed

text \<open>
  The first event of an idle gateway breaks its documented schema. The API description requires
  the fields \<open>connected\<close>, \<open>queue_depth\<close> and \<open>queue_max\<close> in every \<open>session.status\<close> event, and shows
  them as false and 0 in its example; whenever no session is up, the text on the wire has neither
  \<open>connected\<close> nor \<open>queue_depth\<close>, because they are marked \<open>omitempty\<close>.
\<close>

lemma status_event_omits:
  assumes "gw_ok g" and "link_of g = Down" and "int_range (g_queueMaxDepth g)"
  shows "\<exists>bs ms. marshalEvent (fst (BuildStatusEvent now g)) = Some bs \<and> read_json bs = Some (JObj ms)
    \<and> get_text ''event'' ms = lit ''session.status''
    \<and> get ''connected'' ms = None \<and> get ''queue_depth'' ms = None"
proof -
  obtain e g1 where e: "BuildStatusEvent now g = (e, g1)" by (metis surj_pair)
  note E = status_event_down [OF assms(1,2) e]
  have "text_ok (rfc3339nano now)" by (rule text_ok_ascii) (rule time_ascii)
  then have "event_ok e"
    unfolding event_ok_def E using assms(3) by (simp add: text_ok_def scalar_def int_range_def)
  from read_marshalEvent [OF this] E show ?thesis
    by (simp add: e marshalEvent_def event_members_def get_text_def)
qed

subsection \<open>The first message\<close>

definition queued_client :: "terminal_event list \<Rightarrow> hub" where
  "queued_client es =
     (one_client True)\<lparr>h_heap := (h_heap NewHub)(0 := \<lparr>cl_conn = 7, cl_send = es, cl_closed = False\<rparr>)\<rparr>"

definition late_status :: "terminal_event \<Rightarrow> terminal_event \<Rightarrow> hub_sys" where
  "late_status e1 e2 =
     \<lparr>hs_state = (queued_client [e1, e2], IncWSConnections NewMetrics), hs_tasks = [Serving e2 [], Serving e1 []]\<rparr>"

lemma late_status_reach: "hub_reach (late_status e1 e2)"
proof -
  let ?m = "IncWSConnections NewMetrics"
  have c: "h_clients (queued_client es) = [0]" "\<not> h_panic (queued_client es)" for es
    by (simp_all add: queued_client_def one_client_def)
  have sent: "try_send e 0 (queued_client es, ?m) = Some (queued_client (es @ [e]), ?m)" if "length es < 32" for e es
    using that by (simp add: try_send_def queued_client_def one_client_def send_capacity_def)
  have 1: "hub_reach \<lparr>hs_state = (queued_client [], ?m), hs_tasks = []\<rparr>"
    using one_client_reach by (simp add: queued_client_def one_client_def)
  have 2: "hub_reach \<lparr>hs_state = (queued_client [], ?m), hs_tasks = [Serving e1 [0]]\<rparr>"
    by (rule hub_via [OF 1 hub_step.snapshot [of _ "[0]" e1]]) (simp_all add: panicked_def members_def c)
  have 3: "hub_reach \<lparr>hs_state = (queued_client [e1], ?m), hs_tasks = [Serving e1 []]\<rparr>"
    by (rule hub_via [OF 2 hub_step.serve [of _ "[]" e1 0 "[]" "[]"]]) (simp_all add: panicked_def c sent)
  have 4: "hub_reach \<lparr>hs_state = (queued_client [e1], ?m), hs_tasks = [Serving e2 [0], Serving e1 []]\<rparr>"
    by (rule hub_via [OF 3 hub_step.snapshot [of _ "[0]" e2]]) (simp_all add: panicked_def members_def c)
  show ?thesis
    by (rule hub_via [OF 4 hub_step.serve [of _ "[]" e2 0 "[]" "[Serving e1 []]"]])
      (simp_all add: panicked_def c sent late_status_def)
qed

text \<open>
  The first message after a browser connects need not be \<open>session.status\<close>, as the API description
  says: the handler adds the client to the hub before it broadcasts the status, and a broadcast of
  another goroutine in between reaches the new client first. There is a run of the hub in which the
  channel of a new client holds a line of terminal output and then the status event.
\<close>

lemma first_event_not_status:
  "\<exists>st c. hub_reach st \<and> c \<in> set (members st)
    \<and> cl_send (h_heap (fst (hs_state st)) c)
      = [output_event (lit ''s-1'') (lit ''rain'') noon, fst (BuildStatusEvent noon (NewManager 500 20 NewMetrics))]"
proof -
  let ?e1 = "output_event (lit ''s-1'') (lit ''rain'') noon"
  let ?e2 = "fst (BuildStatusEvent noon (NewManager 500 20 NewMetrics))"
  have "0 \<in> set (members (late_status e1 e2)) \<and> cl_send (h_heap (fst (hs_state (late_status e1 e2))) 0) = [e1, e2]"
    for e1 e2
    by (simp add: late_status_def members_def queued_client_def one_client_def)
  with late_status_reach [of ?e1 ?e2] show ?thesis by blast
qed

end
