(* ===== verification/Config.thy ===== *)
theory Config
  imports GoStrings Queue
begin

text \<open>
  \<open>config/config.go\<close>: the settings, read from the environment. The environment is a function from
  names to values, the empty text for a name that is not set (as \<open>os.Getenv\<close> answers). Durations
  are nanoseconds; \<open>time.ParseDuration\<close> is written out, the one floating point product it makes
  (the nanoseconds of a fraction) being the parameter \<open>part\<close>, of the digits, their number and the
  unit.
\<close>

type_synonym environ = "str \<Rightarrow> str"

subsection \<open>ParseDuration\<close>

definition unit_map :: "(str \<times> nat) list" where
  "unit_map =
     [(lit ''ns'', 1), (lit ''us'', 10 ^ 3), ([181, 115], 10 ^ 3), ([956, 115], 10 ^ 3), (lit ''ms'', 10 ^ 6),
      (lit ''s'', 10 ^ 9), (lit ''m'', 60 * 10 ^ 9), (lit ''h'', 3600 * 10 ^ 9)]"

text \<open>Leading digits with the overflow checks of \<open>leadingInt\<close> and \<open>leadingFraction\<close>.\<close>

fun leading_int :: "nat \<Rightarrow> str \<Rightarrow> (nat \<times> str) option" where
  "leading_int x [] = Some (x, [])"
| "leading_int x (c # s) =
     (if \<not> is_digit c then Some (x, c # s)
      else if x > 2 ^ 63 div 10 then None
      else if x * 10 + nat (c - 48) > 2 ^ 63 then None
      else leading_int (x * 10 + nat (c - 48)) s)"

fun leading_fraction :: "bool \<Rightarrow> nat \<Rightarrow> nat \<Rightarrow> str \<Rightarrow> nat \<times> nat \<times> str" where
  "leading_fraction over x n [] = (x, n, [])"
| "leading_fraction over x n (c # s) =
     (if \<not> is_digit c then (x, n, c # s)
      else if over \<or> x > (2 ^ 63 - 1) div 10 \<or> x * 10 + nat (c - 48) > 2 ^ 63
      then leading_fraction True x n s
      else leading_fraction False (x * 10 + nat (c - 48)) (Suc n) s)"

text \<open>The part after a dot: its digits as a number, how many count, the rest, and whether there were any.\<close>

definition dotted :: "str \<Rightarrow> nat \<times> nat \<times> str \<times> bool" where
  "dotted s =
     (if s \<noteq> [] \<and> hd s = 46
      then let (f, n, u) = leading_fraction False 0 0 (tl s) in (f, n, u, length u \<noteq> length (tl s))
      else (0, 0, s, False))"

definition unit_char :: "rune \<Rightarrow> bool" where
  "unit_char c \<longleftrightarrow> c \<noteq> 46 \<and> \<not> is_digit c"

text \<open>The nanoseconds of a number with its unit.\<close>

definition scaled :: "(nat \<Rightarrow> nat \<Rightarrow> nat \<Rightarrow> nat) \<Rightarrow> nat \<Rightarrow> nat \<Rightarrow> nat \<Rightarrow> nat \<Rightarrow> nat option" where
  "scaled part v f n unit =
     (if v > 2 ^ 63 div unit then None
      else if f > 0
      then (if v * unit + part f n unit > 2 ^ 63 then None else Some (v * unit + part f n unit))
      else Some (v * unit))"

definition duration_term :: "(nat \<Rightarrow> nat \<Rightarrow> nat \<Rightarrow> nat) \<Rightarrow> str \<Rightarrow> (nat \<times> str) option" where
  "duration_term part s =
     (case leading_int 0 s of
        None \<Rightarrow> None
      | Some (v, s1) \<Rightarrow>
          (case dotted s1 of
             (f, n, s2, post) \<Rightarrow>
               if length s1 = length s \<and> \<not> post then None
               else (case map_of unit_map (takeWhile unit_char s2) of
                       None \<Rightarrow> None
                     | Some unit \<Rightarrow> map_option (\<lambda>d. (d, dropWhile unit_char s2)) (scaled part v f n unit))))"

lemma leading_int_length: "leading_int x s = Some (v, t) \<Longrightarrow> length t \<le> length s"
  by (induction x s rule: leading_int.induct) (auto split: if_splits)

lemma leading_fraction_length: "length (snd (snd (leading_fraction over x n s))) \<le> length s"
  by (induction over x n s rule: leading_fraction.induct) auto

lemma dotted_length: "dotted s = (f, n, t, post) \<Longrightarrow> length t \<le> length s"
  using leading_fraction_length [of False 0 0 "tl s"]
  by (auto simp: dotted_def split: if_splits prod.splits)

lemma unit_nonempty: "map_of unit_map u = Some k \<Longrightarrow> u \<noteq> []"
  by (auto simp: unit_map_def)

lemma duration_term_length: "duration_term part s = Some (d, t) \<Longrightarrow> length t < length s"
proof -
  assume "duration_term part s = Some (d, t)"
  then obtain v s1 f n s2 post k where l: "leading_int 0 s = Some (v, s1)" and s2: "dotted s1 = (f, n, s2, post)"
      and u: "map_of unit_map (takeWhile unit_char s2) = Some k" and t: "t = dropWhile unit_char s2"
    by (auto simp: duration_term_def split: option.splits prod.splits if_splits)
  have "length (takeWhile unit_char s2) + length t = length s2"
    unfolding t by (metis length_append takeWhile_dropWhile_id)
  with unit_nonempty [OF u] have "length t < length s2" by (cases "takeWhile unit_char s2") auto
  with dotted_length [OF s2] leading_int_length [OF l] show "length t < length s" by simp
qed

function duration_sum :: "(nat \<Rightarrow> nat \<Rightarrow> nat \<Rightarrow> nat) \<Rightarrow> nat \<Rightarrow> str \<Rightarrow> nat option" where
  "duration_sum part d s =
     (if s = [] then Some d
      else if hd s \<noteq> 46 \<and> \<not> is_digit (hd s) then None
      else case duration_term part s of
        None \<Rightarrow> None
      | Some (v, t) \<Rightarrow> if d + v > 2 ^ 63 then None else duration_sum part (d + v) t)"
  by pat_completeness auto
termination
  by (relation "measure (\<lambda>(_, _, s). length s)") (auto dest: duration_term_length)

declare duration_sum.simps [simp del]

definition ParseDuration :: "(nat \<Rightarrow> nat \<Rightarrow> nat \<Rightarrow> nat) \<Rightarrow> str \<Rightarrow> int option" where
  "ParseDuration part s0 =
     (let (neg, s) = signed s0 in
      if s = [48] then Some 0
      else if s = [] then None
      else case duration_sum part 0 s of
        None \<Rightarrow> None
      | Some d \<Rightarrow> if neg then Some (- int d) else if d > 2 ^ 63 - 1 then None else Some (int d))"

subsection \<open>The settings\<close>

record config =
  Host :: str
  Port :: str
  BuildVersion :: str
  BuildCommit :: str
  QueueSendInterval :: int
  QueueMaxDepth :: int
  SQLitePath :: str
  SuggestDebounce :: int
  SuggestRecentLines :: int
  OpenRouterBaseURL :: str
  OpenRouterModel :: str
  OpenRouterAPIKey :: str
  OpenRouterTimeout :: int

definition getenv :: "environ \<Rightarrow> str \<Rightarrow> str \<Rightarrow> str" where
  "getenv env key fallback = (let value = env key in if value = [] then fallback else value)"

definition getenvDuration :: "(nat \<Rightarrow> nat \<Rightarrow> nat \<Rightarrow> nat) \<Rightarrow> environ \<Rightarrow> str \<Rightarrow> int \<Rightarrow> int" where
  "getenvDuration part env key fallback =
     (let value = env key in
      if value = [] then fallback
      else case ParseDuration part value of
        None \<Rightarrow> fallback
      | Some parsed \<Rightarrow> if parsed \<le> 0 then fallback else parsed)"

definition getenvInt :: "environ \<Rightarrow> str \<Rightarrow> int \<Rightarrow> int" where
  "getenvInt env key fallback =
     (let value = env key in
      if value = [] then fallback
      else case Atoi value of
        None \<Rightarrow> fallback
      | Some parsed \<Rightarrow> if parsed \<le> 0 then fallback else parsed)"

definition millisecond :: int where "millisecond = 10 ^ 6"

definition Load :: "(nat \<Rightarrow> nat \<Rightarrow> nat \<Rightarrow> nat) \<Rightarrow> environ \<Rightarrow> config" where
  "Load part env =
     \<lparr>Host = getenv env (lit ''APP_HOST'') (lit ''0.0.0.0''),
      Port = getenv env (lit ''APP_PORT'') (lit ''8080''),
      BuildVersion = getenv env (lit ''APP_BUILD_VERSION'') (lit ''dev''),
      BuildCommit = getenv env (lit ''APP_BUILD_COMMIT'') (lit ''local''),
      QueueSendInterval = getenvDuration part env (lit ''APP_QUEUE_SEND_INTERVAL'') (500 * millisecond),
      QueueMaxDepth = getenvInt env (lit ''APP_QUEUE_MAX_DEPTH'') 20,
      SQLitePath = getenv env (lit ''APP_SQLITE_PATH'') (lit ''tmp/gateway.sqlite''),
      SuggestDebounce = getenvDuration part env (lit ''APP_SUGGEST_DEBOUNCE'') (700 * millisecond),
      SuggestRecentLines = getenvInt env (lit ''APP_SUGGEST_RECENT_LINES'') 80,
      OpenRouterBaseURL = getenv env (lit ''APP_OPENROUTER_BASE_URL'') (lit ''https://openrouter.ai/api/v1''),
      OpenRouterModel = getenv env (lit ''APP_OPENROUTER_MODEL'') (lit ''openai/gpt-4o-mini''),
      OpenRouterAPIKey = env (lit ''APP_OPENROUTER_API_KEY''),
      OpenRouterTimeout = getenvDuration part env (lit ''APP_OPENROUTER_TIMEOUT'') (120000 * millisecond)\<rparr>"

definition Address :: "config \<Rightarrow> str" where
  "Address c = Host c @ lit '':'' @ Port c"

subsection \<open>What is read\<close>

lemma getenvInt_range:
  "0 < fallback \<Longrightarrow> fallback < 2 ^ 63 \<Longrightarrow> 0 < getenvInt env key fallback \<and> getenvInt env key fallback < 2 ^ 63"
  by (auto simp: getenvInt_def Let_def split: option.splits dest: Atoi_range)

lemma ParseDuration_range: "ParseDuration part s = Some d \<Longrightarrow> d < 2 ^ 63"
  by (auto simp: ParseDuration_def Let_def split: option.splits prod.splits if_splits)

lemma getenvDuration_range:
  "0 < fallback \<Longrightarrow> fallback < 2 ^ 63 \<Longrightarrow>
   0 < getenvDuration part env key fallback \<and> getenvDuration part env key fallback < 2 ^ 63"
  by (auto simp: getenvDuration_def Let_def split: option.splits dest: ParseDuration_range)

text \<open>Digits followed by something else.\<close>

lemma fold_digits_mono: "v \<le> foldl (\<lambda>acc d. acc * 10 + nat (d - 48)) v ds"
proof (induction ds arbitrary: v)
  case (Cons d ds)
  have "v \<le> v * 10 + nat (d - 48)" by simp
  also have "\<dots> \<le> foldl (\<lambda>acc d. acc * 10 + nat (d - 48)) (v * 10 + nat (d - 48)) ds" by (rule Cons)
  finally show ?case by simp
qed simp

lemma leading_int_digits:
  assumes "\<forall>r \<in> set ds. is_digit r" "u = [] \<or> \<not> is_digit (hd u)"
    "foldl (\<lambda>acc d. acc * 10 + nat (d - 48)) x ds \<le> 2 ^ 63"
  shows "leading_int x (ds @ u) = Some (foldl (\<lambda>acc d. acc * 10 + nat (d - 48)) x ds, u)"
  using assms
proof (induction ds arbitrary: x)
  case Nil
  then show ?case by (cases u) auto
next
  case (Cons d ds)
  let ?y = "x * 10 + nat (d - 48)"
  have y: "?y \<le> 2 ^ 63"
    using Cons.prems(3) fold_digits_mono [of ?y ds] by simp
  then have "x \<le> 2 ^ 63 div 10" by simp
  with y Cons show ?case by simp
qed

text \<open>What a duration without a fraction looks like: numbers, each with its unit, as in \<open>1h30m\<close>.\<close>

definition unit_ns :: "str \<Rightarrow> nat" where
  "unit_ns u =
     (if u = lit ''h'' then 3600 * 10 ^ 9 else if u = lit ''m'' then 60 * 10 ^ 9 else if u = lit ''s'' then 10 ^ 9
      else if u = lit ''ms'' then 10 ^ 6 else if u \<in> {lit ''us'', [181, 115], [956, 115]} then 10 ^ 3
      else if u = lit ''ns'' then 1 else 0)"

definition duration_text :: "(nat \<times> str) list \<Rightarrow> str" where
  "duration_text ts = concat (map (\<lambda>(n, u). digits n @ u) ts)"

definition duration_value :: "(nat \<times> str) list \<Rightarrow> nat" where
  "duration_value ts = (\<Sum>(n, u)\<leftarrow>ts. n * unit_ns u)"

definition duration_ok :: "(nat \<times> str) list \<Rightarrow> bool" where
  "duration_ok ts \<longleftrightarrow> (\<forall>(n, u) \<in> set ts. 0 < unit_ns u) \<and> 0 < duration_value ts \<and> duration_value ts < 2 ^ 63"

lemma unit_found: "0 < unit_ns u \<Longrightarrow> map_of unit_map u = Some (unit_ns u) \<and> u \<noteq> [] \<and> (\<forall>r \<in> set u. unit_char r)"
  by (auto simp: unit_ns_def unit_map_def unit_char_def is_digit_def split: if_splits)

lemma hd_digit: "is_digit (hd (digits n @ s))"
  using digits_are_digits [of "hd (digits n)" n] by (cases "digits n") auto

lemma duration_term_read:
  assumes "0 < unit_ns u" "n * unit_ns u < 2 ^ 63" "rest = [] \<or> is_digit (hd rest)"
  shows "duration_term part (digits n @ u @ rest) = Some (n * unit_ns u, rest)"
proof -
  note U = unit_found [OF assms(1)]
  have dg: "\<forall>r \<in> set (digits n). is_digit r" using digits_are_digits by blast
  have hu: "u @ rest = [] \<or> \<not> is_digit (hd (u @ rest))" using U by (cases u) (auto simp: unit_char_def)
  have v: "foldl (\<lambda>acc d. acc * 10 + nat (d - 48)) 0 (digits n) = n"
    using digits_value_digits [of n] by (simp only: digits_value_def)
  have le: "n \<le> 2 ^ 63 div unit_ns u"
    using assms(1,2) by (metis less_eq_div_iff_mult_less_eq less_imp_le)
  then have "n \<le> 2 ^ 63" by (rule order.trans) simp
  with leading_int_digits [OF dg hu, of 0] v have l: "leading_int 0 (digits n @ u @ rest) = Some (n, u @ rest)" by simp
  have d: "dotted (u @ rest) = (0, 0, u @ rest, False)"
    using U by (cases u) (auto simp: dotted_def unit_char_def)
  have w: "takeWhile unit_char (u @ rest) = u" "dropWhile unit_char (u @ rest) = rest"
    using U assms(3) by (cases rest; auto simp: unit_char_def)+
  show ?thesis
    using U le by (simp add: duration_term_def l d w scaled_def not_less)
qed

lemma duration_text_hd: "ts \<noteq> [] \<Longrightarrow> is_digit (hd (duration_text ts))"
  using hd_digit by (cases ts) (auto simp: duration_text_def)

lemma duration_sum_read:
  assumes "\<forall>(n, u) \<in> set ts. 0 < unit_ns u" "d + duration_value ts < 2 ^ 63"
  shows "duration_sum part d (duration_text ts) = Some (d + duration_value ts)"
  using assms
proof (induction ts arbitrary: d)
  case Nil
  then show ?case by (simp add: duration_text_def duration_value_def duration_sum.simps)
next
  case (Cons t ts)
  obtain n u where t: "t = (n, u)" by (rule prod.exhaust)
  have v: "duration_value (t # ts) = n * unit_ns u + duration_value ts" by (simp add: duration_value_def t)
  have s: "duration_text (t # ts) = digits n @ u @ duration_text ts" by (simp add: duration_text_def t)
  have "duration_text ts = [] \<or> is_digit (hd (duration_text ts))"
    using duration_text_hd [of ts] by (cases ts) (auto simp: duration_text_def)
  with Cons.prems v t have r: "duration_term part (digits n @ u @ duration_text ts) = Some (n * unit_ns u, duration_text ts)"
    by (intro duration_term_read) auto
  have h: "is_digit (hd (digits n @ u @ duration_text ts))" "digits n @ u @ duration_text ts \<noteq> []"
    using hd_digit [of n] unit_found [of u] Cons.prems(1) t by auto
  have "duration_sum part d (duration_text (t # ts)) = duration_sum part (d + n * unit_ns u) (duration_text ts)"
    unfolding s using h Cons.prems(2) v by (subst duration_sum.simps) (simp add: r)
  with Cons.IH [of "d + n * unit_ns u"] Cons.prems v show ?case by (simp add: add.assoc)
qed

lemma duration_read: "duration_ok ts \<Longrightarrow> ParseDuration part (duration_text ts) = Some (int (duration_value ts))"
proof -
  assume ok: "duration_ok ts"
  then have ne: "ts \<noteq> []" by (auto simp: duration_ok_def duration_value_def)
  have h: "is_digit (hd (duration_text ts))" by (rule duration_text_hd [OF ne])
  have "duration_text ts \<noteq> [48] \<and> duration_text ts \<noteq> []"
  proof -
    obtain n u us where ts: "ts = (n, u) # us" using ne by (metis list.exhaust surj_pair)
    then have "u \<noteq> []" using ok unit_found [of u] by (auto simp: duration_ok_def)
    moreover have "digits n \<noteq> []" by (subst digits.simps) simp
    ultimately have "2 \<le> length (duration_text ts)"
      by (cases "digits n"; cases u) (auto simp: duration_text_def ts)
    then show ?thesis by auto
  qed
  moreover have "signed (duration_text ts) = (False, duration_text ts)"
    using h calculation by (cases "duration_text ts") (auto simp: signed_def is_digit_def)
  moreover have "duration_sum part 0 (duration_text ts) = Some (duration_value ts)"
    using duration_sum_read [of ts 0 part] ok by (simp add: duration_ok_def)
  ultimately show ?thesis using ok by (simp add: ParseDuration_def duration_ok_def)
qed

lemma getenvDuration_read:
  "duration_ok ts \<Longrightarrow> env key = duration_text ts \<Longrightarrow> getenvDuration part env key fallback = int (duration_value ts)"
  using duration_read [of ts part] by (auto simp: getenvDuration_def Let_def duration_ok_def ParseDuration_def signed_def)

lemma getenvInt_read: "0 < n \<Longrightarrow> n < 2 ^ 63 \<Longrightarrow> env key = digits n \<Longrightarrow> getenvInt env key fallback = int n"
  by (simp add: getenvInt_def Atoi_digits)

text \<open>A setting that is not given, or starts with a minus sign.\<close>

definition not_given :: "str \<Rightarrow> bool" where
  "not_given v \<longleftrightarrow> v = [] \<or> hd v = 45 \<or> v = [48]"

lemma getenv_default:
  assumes "not_given (env key)"
  shows "getenvInt env key fallback = fallback" "getenvDuration part env key fallback = fallback"
proof -
  have s: "signed (45 # t) = (True, t)" for t by (simp add: signed_def)
  have z: "Atoi [48] = Some 0" by code_simp
  have m: "Atoi (45 # t) = Some v \<Longrightarrow> v \<le> 0" for t v
    by (auto simp: Atoi_def s Let_def split: if_splits)
  from assms consider "env key = []" | "env key = [48]" | t where "env key = 45 # t"
    by (cases "env key") (auto simp: not_given_def)
  then show "getenvInt env key fallback = fallback"
    by cases (auto simp: getenvInt_def z Let_def dest: m split: option.split)
  have z: "ParseDuration part [48] = Some 0" by (simp add: ParseDuration_def signed_def)
  have m: "ParseDuration part (45 # t) = Some v \<Longrightarrow> v \<le> 0" for t v
    by (auto simp: ParseDuration_def s Let_def split: if_splits option.splits)
  from assms consider "env key = []" | "env key = [48]" | t where "env key = 45 # t"
    by (cases "env key") (auto simp: not_given_def)
  then show "getenvDuration part env key fallback = fallback"
    by cases (auto simp: getenvDuration_def z Let_def dest: m split: option.split)
qed

text \<open>
  C30. The settings are safe whatever the environment holds: the queue limit, the send interval, the
  debounce, the log size and the request timeout are positive 64-bit numbers (so no ticker and no
  queue is made with a bad one). Each of the five is used as it is given, from its own variable: a
  limit or a size in decimal, a duration as any sequence of numbers with units (\<open>250ms\<close>, \<open>1h30m\<close>), as
  long as it is positive and fits 64 bits; and each has its documented default when the variable is not
  set, zero or negative.
\<close>

definition positive :: "int \<Rightarrow> bool" where
  "positive i \<longleftrightarrow> 0 < i \<and> i < 2 ^ 63"

theorem settings_safe:
  shows "positive (QueueMaxDepth (Load part env)) \<and> positive (QueueSendInterval (Load part env))
    \<and> positive (SuggestDebounce (Load part env)) \<and> positive (SuggestRecentLines (Load part env))
    \<and> positive (OpenRouterTimeout (Load part env))
    \<and> (\<forall>n. 0 < n \<and> n < 2 ^ 63 \<longrightarrow>
          (env (lit ''APP_QUEUE_MAX_DEPTH'') = digits n \<longrightarrow> QueueMaxDepth (Load part env) = int n)
        \<and> (env (lit ''APP_SUGGEST_RECENT_LINES'') = digits n \<longrightarrow> SuggestRecentLines (Load part env) = int n))
    \<and> (\<forall>ts. duration_ok ts \<longrightarrow>
          (env (lit ''APP_QUEUE_SEND_INTERVAL'') = duration_text ts \<longrightarrow> QueueSendInterval (Load part env) = int (duration_value ts))
        \<and> (env (lit ''APP_SUGGEST_DEBOUNCE'') = duration_text ts \<longrightarrow> SuggestDebounce (Load part env) = int (duration_value ts))
        \<and> (env (lit ''APP_OPENROUTER_TIMEOUT'') = duration_text ts \<longrightarrow> OpenRouterTimeout (Load part env) = int (duration_value ts)))
    \<and> (not_given (env (lit ''APP_QUEUE_MAX_DEPTH'')) \<longrightarrow> QueueMaxDepth (Load part env) = 20)
    \<and> (not_given (env (lit ''APP_SUGGEST_RECENT_LINES'')) \<longrightarrow> SuggestRecentLines (Load part env) = 80)
    \<and> (not_given (env (lit ''APP_QUEUE_SEND_INTERVAL'')) \<longrightarrow> QueueSendInterval (Load part env) = 500 * 10 ^ 6)
    \<and> (not_given (env (lit ''APP_SUGGEST_DEBOUNCE'')) \<longrightarrow> SuggestDebounce (Load part env) = 700 * 10 ^ 6)
    \<and> (not_given (env (lit ''APP_OPENROUTER_TIMEOUT'')) \<longrightarrow> OpenRouterTimeout (Load part env) = 120 * 10 ^ 9)"
proof -
  have ranges: "positive (QueueMaxDepth (Load part env))" "positive (QueueSendInterval (Load part env))"
    "positive (SuggestDebounce (Load part env))" "positive (SuggestRecentLines (Load part env))"
    "positive (OpenRouterTimeout (Load part env))"
    using getenvInt_range [of 20 env] getenvInt_range [of 80 env] getenvDuration_range [of "500 * millisecond" part env]
      getenvDuration_range [of "700 * millisecond" part env] getenvDuration_range [of "120000 * millisecond" part env]
    by (simp_all add: positive_def Load_def millisecond_def)
  have ms: "500 * millisecond = 500 * 10 ^ 6" "700 * millisecond = 700 * 10 ^ 6" "120000 * millisecond = 120 * 10 ^ 9"
    by (simp_all add: millisecond_def)
  show ?thesis
    using ranges unfolding Load_def config.simps ms
    by (intro conjI allI impI; (elim conjE)?) (assumption | rule getenvInt_read getenvDuration_read getenv_default)+
qed

theorem settings_safe_witness:
  "SuggestDebounce (Load (\<lambda>_ _ _. 0) ((\<lambda>_. [])(lit ''APP_QUEUE_MAX_DEPTH'' := digits 5,
     lit ''APP_SUGGEST_DEBOUNCE'' := digits 1 @ lit ''m'' @ digits 30 @ lit ''s''))) = 90 * 10 ^ 9"
proof -
  let ?ts = "[(1, lit ''m''), (30, lit ''s'')]"
  let ?env = "(\<lambda>_. [])(lit ''APP_QUEUE_MAX_DEPTH'' := digits 5, lit ''APP_SUGGEST_DEBOUNCE'' := duration_text ?ts)"
  have v: "duration_value ?ts = 90 * 10 ^ 9" by (simp add: duration_value_def unit_ns_def)
  have ok: "duration_ok ?ts" unfolding duration_ok_def v by (simp add: unit_ns_def)
  have e: "?env (lit ''APP_SUGGEST_DEBOUNCE'') = duration_text ?ts" by simp
  have "SuggestDebounce (Load (\<lambda>_ _ _. 0) ?env) = int (duration_value ?ts)"
    using settings_safe [of "\<lambda>_ _ _. 0" ?env, THEN conjunct2, THEN conjunct2, THEN conjunct2, THEN conjunct2, THEN conjunct2, THEN conjunct2,
        THEN conjunct1, THEN spec, THEN mp, OF ok, THEN conjunct2, THEN conjunct1, THEN mp, OF e] .
  then show ?thesis unfolding v by (simp add: duration_text_def)
qed

end
