(* ===== verification/Handshake.thy ===== *)
theory Handshake
  imports Prelude Utf8
begin

text \<open>
  \<open>WebsocketAcceptKey\<close> of \<open>gateway/wsframe.go\<close>, with what it uses of \<open>crypto/sha1\<close> and
  \<open>encoding/base64\<close> written out: SHA-1 on 32-bit words, and the standard base64 alphabet with padding.
\<close>

unbundle bit_operations_syntax

type_synonym word32 = "32 word"

subsection \<open>SHA-1\<close>

definition rotl :: "nat \<Rightarrow> word32 \<Rightarrow> word32" where
  "rotl n w = push_bit n w OR drop_bit (32 - n) w"

definition word_of_bytes :: "byte list \<Rightarrow> word32" where
  "word_of_bytes bs = foldl (\<lambda>acc b. push_bit 8 acc OR ucast b) 0 bs"

definition bytes_of_word :: "word32 \<Rightarrow> byte list" where
  "bytes_of_word w = [ucast (drop_bit 24 w), ucast (drop_bit 16 w), ucast (drop_bit 8 w), ucast w]"

fun chunks :: "nat \<Rightarrow> 'a list \<Rightarrow> 'a list list" where
  "chunks n xs = (if n = 0 \<or> xs = [] then [] else take n xs # chunks n (drop n xs))"

declare chunks.simps [simp del]

text \<open>The length in bits, as eight bytes, after a one bit and zeros up to a multiple of 64 bytes.\<close>

definition be64 :: "nat \<Rightarrow> byte list" where
  "be64 n = map (\<lambda>k. ucast (drop_bit (8 * k) (of_nat n :: uint64))) [7, 6, 5, 4, 3, 2, 1, 0]"

definition sha1_pad :: "byte list \<Rightarrow> byte list" where
  "sha1_pad m = m @ [128] @ replicate ((119 - length m mod 64) mod 64) 0 @ be64 (8 * length m)"

text \<open>The message schedule, its words newest first.\<close>

definition next_word :: "word32 list \<Rightarrow> word32" where
  "next_word ws = rotl 1 (ws ! 2 XOR ws ! 7 XOR ws ! 13 XOR ws ! 15)"

fun schedule :: "nat \<Rightarrow> word32 list \<Rightarrow> word32 list" where
  "schedule 0 ws = ws"
| "schedule (Suc n) ws = schedule n (next_word ws # ws)"

definition round_f :: "nat \<Rightarrow> word32 \<Rightarrow> word32 \<Rightarrow> word32 \<Rightarrow> word32 \<times> word32" where
  "round_f t b c d =
     (if t < 20 then ((b AND c) OR (NOT b AND d), 0x5A827999)
      else if t < 40 then (b XOR c XOR d, 0x6ED9EBA1)
      else if t < 60 then ((b AND c) OR (b AND d) OR (c AND d), 0x8F1BBCDC)
      else (b XOR c XOR d, 0xCA62C1D6))"

type_synonym sha_state = "word32 \<times> word32 \<times> word32 \<times> word32 \<times> word32"

fun sha1_round :: "nat \<times> word32 \<Rightarrow> sha_state \<Rightarrow> sha_state" where
  "sha1_round (t, w) (a, b, c, d, e) =
     (let (f, k) = round_f t b c d
      in (rotl 5 a + f + e + w + k, a, rotl 30 b, c, d))"

fun add_state :: "sha_state \<Rightarrow> sha_state \<Rightarrow> sha_state" where
  "add_state (a, b, c, d, e) (a1, b1, c1, d1, e1) = (a + a1, b + b1, c + c1, d + d1, e + e1)"

definition sha1_block :: "byte list \<Rightarrow> sha_state \<Rightarrow> sha_state" where
  "sha1_block block h =
     add_state h (fold sha1_round (zip [0..<80] (rev (schedule 64 (rev (map word_of_bytes (chunks 4 block)))))) h)"

definition sha1_init :: sha_state where
  "sha1_init = (0x67452301, 0xEFCDAB89, 0x98BADCFE, 0x10325476, 0xC3D2E1F0)"

definition sha1 :: "byte list \<Rightarrow> byte list" where
  "sha1 m =
     (case fold sha1_block (chunks 64 (sha1_pad m)) sha1_init of
        (a, b, c, d, e) \<Rightarrow> concat (map bytes_of_word [a, b, c, d, e]))"

subsection \<open>Base64\<close>

definition base64_char :: "int \<Rightarrow> rune" where
  "base64_char i =
     (if i < 26 then 65 + i else if i < 52 then 71 + i else if i < 62 then i - 4 else if i = 62 then 43 else 47)"

fun base64 :: "byte list \<Rightarrow> str" where
  "base64 (a # b # c # rest) =
     (let n = uint a * 65536 + uint b * 256 + uint c
      in [base64_char (n div 262144), base64_char (n div 4096 mod 64), base64_char (n div 64 mod 64),
          base64_char (n mod 64)] @ base64 rest)"
| "base64 [a, b] =
     (let n = uint a * 65536 + uint b * 256
      in [base64_char (n div 262144), base64_char (n div 4096 mod 64), base64_char (n div 64 mod 64), 61])"
| "base64 [a] =
     (let n = uint a * 65536 in [base64_char (n div 262144), base64_char (n div 4096 mod 64), 61, 61])"
| "base64 [] = []"

definition wsGUID :: str where
  "wsGUID = lit ''258EAFA5-E914-47DA-95CA-C5AB0DC85B11''"

definition WebsocketAcceptKey :: "str \<Rightarrow> str" where
  "WebsocketAcceptKey key = base64 (sha1 (encode_utf8 (key @ wsGUID)))"

end
