(* ===== verification/Http.thy ===== *)
theory Http
  imports Manager Store Suggestions Payload Config Handshake
begin

text \<open>
  \<open>httpapi\<close>: the HTTP interface. A \<open>router\<close> record is the \<open>Router\<close> with the services behind it; a
  handler takes the request's context (its request id), the request's input and the answers of the
  environment, and returns the response with the new state. Log calls are left out. \<open>NewRouter\<close>
  wires the parts as the code does.
\<close>

subsection \<open>The router\<close>

record router =
  ro_cfg :: config
  ro_counter :: uint64
  ro_gw :: gateway
  ro_state :: "tables + memory_store"
  ro_suggestions :: service

text \<open>What the environment answers while a request is served: the clock, the dialler, the database.\<close>

record env_answers =
  in_id_time :: utc
  in_now :: utc
  in_meta_time :: utc
  in_dial :: "str + nat"
  in_db :: db_answers
  in_latest :: "str + str option"

definition NewRouter :: "open_answers \<Rightarrow> database \<Rightarrow> config \<Rightarrow> router" where
  "NewRouter a file cfg =
     (let queueInterval = (if QueueSendInterval cfg \<le> 0 then 500 * millisecond else QueueSendInterval cfg);
          queueMaxDepth = (if QueueMaxDepth cfg \<le> 0 then 20 else QueueMaxDepth cfg)
      in \<lparr>ro_cfg = cfg, ro_counter = 0,
          ro_gw = NewManager queueInterval queueMaxDepth NewMetrics,
          ro_state = NewService a (SQLitePath cfg) file,
          ro_suggestions = NewSuggestions (SuggestRecentLines cfg)\<rparr>)"

text \<open>The callback the manager gets: the text goes to the state service, then to the suggestions.\<close>

definition router_UpsertDelta ::
    "db_answers \<Rightarrow> utc \<Rightarrow> str \<Rightarrow> delta \<Rightarrow> tables + memory_store \<Rightarrow> store_err option \<times> (tables + memory_store)" where
  "router_UpsertDelta a now sessionID d s =
     (case s of
        Inl t \<Rightarrow> (case UpsertDelta a now sessionID d t of (e, t1) \<Rightarrow> (e, Inl t1))
      | Inr m \<Rightarrow> (case memory_UpsertDelta sessionID d m of (e, m1) \<Rightarrow> (e, Inr m1)))"

definition on_terminal ::
    "db_answers \<Rightarrow> utc \<Rightarrow> (nat \<Rightarrow> alias_order) \<Rightarrow> str \<Rightarrow> str \<Rightarrow> router \<Rightarrow> router" where
  "on_terminal a now orders sessionID txt r =
     (let (err, st) = Ingest (router_UpsertDelta a now) orders sessionID txt (ro_state r)
      in r\<lparr>ro_state := st, ro_suggestions := IngestTerminal sessionID txt (ro_suggestions r)\<rparr>)"

subsection \<open>Request ids\<close>

text \<open>The layout \<open>20060102T150405.000Z07:00\<close>, of a UTC time.\<close>

definition request_time :: "utc \<Rightarrow> str" where
  "request_time t =
     pad 4 (year t) @ pad 2 (month t) @ pad 2 (day t) @ [84] @ pad 2 (hour t) @ pad 2 (minute t) @
     pad 2 (second t) @ [46] @ pad 3 (nanos t div 10 ^ 6) @ [90]"

definition nextRequestID :: "utc \<Rightarrow> router \<Rightarrow> str \<times> router" where
  "nextRequestID now r =
     (let seq = ro_counter r + 1
      in (request_time now @ lit ''-'' @ itoa (uint seq), r\<lparr>ro_counter := seq\<rparr>))"

definition requestID :: "str \<Rightarrow> utc \<Rightarrow> router \<Rightarrow> str \<times> router" where
  "requestID ctx now r = (if ctx \<noteq> [] then (ctx, r) else nextRequestID now r)"

subsection \<open>Responses\<close>

record response =
  rs_status :: nat
  rs_type :: str
  rs_body :: str

definition newMeta :: "str \<Rightarrow> utc \<Rightarrow> json" where
  "newMeta rid now =
     JObj (member ''request_id'' (JStr rid) @ member ''timestamp'' (JStr (rfc3339nano now)))"

text \<open>\<open>json.Encoder\<close> ends the text with a newline.\<close>

definition writeJSON :: "nat \<Rightarrow> json \<Rightarrow> response" where
  "writeJSON status payload =
     \<lparr>rs_status = status, rs_type = lit ''application/json'', rs_body = print_json payload @ [10]\<rparr>"

definition writeSuccess :: "utc \<Rightarrow> nat \<Rightarrow> str \<Rightarrow> json \<Rightarrow> response" where
  "writeSuccess now status rid data =
     writeJSON status (JObj (member ''data'' data @ member ''meta'' (newMeta rid now)))"

text \<open>The details are a map, printed with its keys in order and left out when it is empty.\<close>

definition error_body :: "string \<Rightarrow> string \<Rightarrow> (str \<times> json) list \<Rightarrow> json" where
  "error_body code message details =
     JObj (member ''code'' (JStr (lit code)) @ member ''message'' (JStr (lit message)) @
           omit (details = []) ''details'' (JObj details))"

definition writeError :: "utc \<Rightarrow> nat \<Rightarrow> str \<Rightarrow> string \<Rightarrow> string \<Rightarrow> (str \<times> json) list \<Rightarrow> response" where
  "writeError now status rid code message details =
     writeJSON status (JObj (member ''error'' (error_body code message details) @
                             member ''meta'' (newMeta rid now)))"

subsection \<open>Request bodies\<close>

text \<open>
  \<open>json.Decoder.Decode\<close> into a struct: the first value of the body, null leaving the struct as it
  is, unknown members ignored, keys matched up to case, what follows the value not looked at.
\<close>

fun decode_members :: "(str \<Rightarrow> json \<Rightarrow> 'a \<Rightarrow> 'a option) \<Rightarrow> (str \<times> json) list \<Rightarrow> 'a \<Rightarrow> 'a option" where
  "decode_members field [] s = Some s"
| "decode_members field ((k, v) # ms) s =
     (case field k v s of None \<Rightarrow> None | Some s1 \<Rightarrow> decode_members field ms s1)"

definition decode_body :: "(str \<Rightarrow> json \<Rightarrow> 'a \<Rightarrow> 'a option) \<Rightarrow> 'a \<Rightarrow> str \<Rightarrow> 'a option" where
  "decode_body field zero body =
     (case json_decode body of
        Some (JNull, _) \<Rightarrow> Some zero
      | Some (JObj ms, _) \<Rightarrow> decode_members field ms zero
      | _ \<Rightarrow> None)"

definition over_int :: "int \<Rightarrow> json \<Rightarrow> int option" where
  "over_int old v = (case v of JNum n \<Rightarrow> Atoi n | JNull \<Rightarrow> Some old | _ \<Rightarrow> None)"

record session_connect_request =
  rq_Host :: str
  rq_Port :: int
  rq_CredentialAlias :: str

definition connect_field :: "str \<Rightarrow> json \<Rightarrow> session_connect_request \<Rightarrow> session_connect_request option" where
  "connect_field k v q =
     (if fold_key k = lit ''host'' then map_option (\<lambda>x. q\<lparr>rq_Host := x\<rparr>) (over_text (rq_Host q) v)
      else if fold_key k = lit ''port'' then map_option (\<lambda>x. q\<lparr>rq_Port := x\<rparr>) (over_int (rq_Port q) v)
      else if fold_key k = lit ''credential_alias''
      then map_option (\<lambda>x. q\<lparr>rq_CredentialAlias := x\<rparr>) (over_text (rq_CredentialAlias q) v)
      else Some q)"

definition decode_connect :: "str \<Rightarrow> session_connect_request option" where
  "decode_connect = decode_body connect_field \<lparr>rq_Host = [], rq_Port = 0, rq_CredentialAlias = []\<rparr>"

definition enqueue_field :: "str \<Rightarrow> json \<Rightarrow> str \<Rightarrow> str option" where
  "enqueue_field k v command = (if fold_key k = lit ''command'' then over_text command v else Some command)"

definition decode_enqueue :: "str \<Rightarrow> str option" where
  "decode_enqueue = decode_body enqueue_field []"

subsection \<open>Session handlers\<close>

definition toSessionStatusPayload :: "status \<Rightarrow> json" where
  "toSessionStatusPayload st =
     JObj (member ''session_id'' (JStr (st_SessionID st)) @
           member ''connected'' (JBool (st_Connected st)) @
           member ''queue_depth'' (jint (st_QueueDepth st)) @
           member ''queue_max'' (jint (st_QueueMax st)) @
           omit (IsZero (st_LastActivity st)) ''last_activity_at'' (JStr (rfc3339nano (st_LastActivity st))))"

definition session_details :: "status \<Rightarrow> (str \<times> json) list" where
  "session_details st = member ''session_id'' (JStr (st_SessionID st))"

text \<open>
  The handlers work on the manager through an interface. \<open>sessionManager\<close> has its operations on the
  session (\<open>Hub\<close> and \<open>BuildStatusEvent\<close> serve the WebSocket below); \<open>theManager\<close> is the session manager
  behind it, with the answers of the environment.
\<close>

record 'g sessionManager =
  sm_Connect :: "str \<Rightarrow> int \<Rightarrow> 'g \<Rightarrow> (status \<times> gw_err option) \<times> 'g"
  sm_Disconnect :: "'g \<Rightarrow> (status \<times> nat \<times> gw_err option) \<times> 'g"
  sm_Status :: "'g \<Rightarrow> status \<times> 'g"
  sm_Enqueue :: "str \<Rightarrow> 'g \<Rightarrow> (status \<times> gw_err option) \<times> 'g"

definition theManager :: "env_answers \<Rightarrow> gateway sessionManager" where
  "theManager i =
     \<lparr>sm_Connect = (\<lambda>host port. Connect (in_dial i) host port (in_now i)), sm_Disconnect = Disconnect (in_now i),
      sm_Status = Status (in_now i), sm_Enqueue = (\<lambda>command. manager_enqueue command (in_now i))\<rparr>"

definition connect_reply :: "'g sessionManager \<Rightarrow> utc \<Rightarrow> str \<Rightarrow> str \<Rightarrow> 'g \<Rightarrow> response \<times> 'g" where
  "connect_reply M now rid body g =
     (case decode_connect body of
        None \<Rightarrow> (writeError now 400 rid ''INVALID_REQUEST'' ''invalid JSON body'' [], g)
      | Some payload \<Rightarrow>
          if trim_space (rq_Host payload) = [] \<or> rq_Port payload \<le> 0
          then (writeError now 400 rid ''INVALID_REQUEST'' ''host and port are required'' [], g)
          else
            let ((st, err), g1) = sm_Connect M (rq_Host payload) (rq_Port payload) g
            in (case err of
                  Some ErrSessionAlreadyConnected \<Rightarrow>
                    writeError now 409 rid ''SESSION_ALREADY_CONNECTED'' ''session is already connected''
                      (session_details st)
                | Some (ErrUpstreamUnavailable _) \<Rightarrow>
                    writeError now 502 rid ''UPSTREAM_UNAVAILABLE'' ''failed to reach upstream host''
                      (member ''host'' (JStr (rq_Host payload)) @ member ''port'' (jint (rq_Port payload)))
                | Some _ \<Rightarrow> writeError now 500 rid ''INTERNAL_ERROR'' ''failed to connect session'' []
                | None \<Rightarrow> writeSuccess now 200 rid (toSessionStatusPayload st), g1))"

definition disconnect_reply :: "'g sessionManager \<Rightarrow> utc \<Rightarrow> str \<Rightarrow> 'g \<Rightarrow> response \<times> 'g" where
  "disconnect_reply M now rid g =
     (let ((st, dropped, err), g1) = sm_Disconnect M g
      in (case err of
            Some ErrSessionNotConnected \<Rightarrow>
              writeError now 409 rid ''SESSION_NOT_CONNECTED'' ''session is not connected'' (session_details st)
          | Some _ \<Rightarrow> writeError now 500 rid ''INTERNAL_ERROR'' ''failed to disconnect session'' []
          | None \<Rightarrow> writeSuccess now 200 rid (toSessionStatusPayload st), g1))"

definition status_reply_of :: "'g sessionManager \<Rightarrow> utc \<Rightarrow> str \<Rightarrow> 'g \<Rightarrow> response \<times> 'g" where
  "status_reply_of M now rid g =
     (let (st, g1) = sm_Status M g in (writeSuccess now 200 rid (toSessionStatusPayload st), g1))"

definition enqueue_payload :: "status \<Rightarrow> json" where
  "enqueue_payload st =
     JObj (member ''accepted'' (JBool True) @ member ''queue_depth'' (jint (st_QueueDepth st)) @
           member ''queue_max'' (jint (st_QueueMax st)))"

definition enqueue_reply :: "'g sessionManager \<Rightarrow> utc \<Rightarrow> str \<Rightarrow> str \<Rightarrow> 'g \<Rightarrow> response \<times> 'g" where
  "enqueue_reply M now rid body g =
     (case decode_enqueue body of
        None \<Rightarrow> (writeError now 400 rid ''INVALID_REQUEST'' ''invalid JSON body'' [], g)
      | Some command \<Rightarrow>
          let ((st, err), g1) = sm_Enqueue M command g
          in (case err of
                Some ErrSessionNotConnected \<Rightarrow>
                  writeError now 409 rid ''SESSION_NOT_CONNECTED'' ''session is not connected'' (session_details st)
              | Some ErrQueueFull \<Rightarrow>
                  writeError now 429 rid ''QUEUE_FULL'' ''command queue is full''
                    (member ''queue_depth'' (jint (st_QueueDepth st)) @
                     member ''queue_max'' (jint (st_QueueMax st)) @ session_details st)
              | Some _ \<Rightarrow> writeError now 500 rid ''INTERNAL_ERROR'' ''failed to enqueue command'' []
              | None \<Rightarrow> writeSuccess now 200 rid (enqueue_payload st), g1))"

text \<open>A handler finds its request id, then answers with the manager of the router.\<close>

definition with_manager ::
    "(gateway sessionManager \<Rightarrow> utc \<Rightarrow> str \<Rightarrow> gateway \<Rightarrow> response \<times> gateway) \<Rightarrow>
     env_answers \<Rightarrow> str \<Rightarrow> router \<Rightarrow> response \<times> router" where
  "with_manager reply i ctx r0 =
     (let (rid, r) = requestID ctx (in_id_time i) r0;
          (p, g) = reply (theManager i) (in_meta_time i) rid (ro_gw r)
      in (p, r\<lparr>ro_gw := g\<rparr>))"

definition handleSessionConnect :: "env_answers \<Rightarrow> str \<Rightarrow> str \<Rightarrow> router \<Rightarrow> response \<times> router" where
  "handleSessionConnect i ctx body = with_manager (\<lambda>M now rid. connect_reply M now rid body) i ctx"

definition handleSessionDisconnect :: "env_answers \<Rightarrow> str \<Rightarrow> router \<Rightarrow> response \<times> router" where
  "handleSessionDisconnect = with_manager disconnect_reply"

definition handleSessionStatus :: "env_answers \<Rightarrow> str \<Rightarrow> router \<Rightarrow> response \<times> router" where
  "handleSessionStatus = with_manager status_reply_of"

definition handleEnqueueCommand :: "env_answers \<Rightarrow> str \<Rightarrow> str \<Rightarrow> router \<Rightarrow> response \<times> router" where
  "handleEnqueueCommand i ctx body = with_manager (\<lambda>M now rid. enqueue_reply M now rid body) i ctx"

subsection \<open>State, suggestions, health\<close>

definition prompt_json :: "prompt_tuple \<Rightarrow> json" where
  "prompt_json p =
     JObj (member ''hp_current'' (jint (HPCurrent p)) @ member ''hp_max'' (jint (HPMax p)) @
           member ''ma_current'' (jint (MACurrent p)) @ member ''ma_max'' (jint (MAMax p)) @
           member ''mv_current'' (jint (MVCurrent p)) @ member ''mv_max'' (jint (MVMax p)) @
           member ''exp'' (jint (EXP p)))"

definition equipment_json :: "equipment \<Rightarrow> json" where
  "equipment_json e =
     JObj (map (\<lambda>slot. (slot, JStr (case e slot of None \<Rightarrow> [] | Some item \<Rightarrow> item))) (sorted_list_of_set (dom e)))"

text \<open>The JSON of a \<open>Snapshot\<close>; the session id has the tag \<open>-\<close> and is not printed.\<close>

definition snapshot_json :: "snapshot \<Rightarrow> json" where
  "snapshot_json s =
     JObj (omit (sn_Location s = []) ''location'' (JStr (sn_Location s)) @
           (case sn_Prompt s of None \<Rightarrow> [] | Some p \<Rightarrow> member ''prompt'' (prompt_json p)) @
           omit (sn_StatusTags s = []) ''status_tags'' (JArr (map JStr (sn_StatusTags s))) @
           omit (sn_Equipment s = Map.empty) ''equipment'' (equipment_json (sn_Equipment s)) @
           omit (sn_UpdatedAt s = []) ''updated_at'' (JStr (sn_UpdatedAt s)))"

definition router_GetLatest :: "env_answers \<Rightarrow> tables + memory_store \<Rightarrow> store_err + snapshot option" where
  "router_GetLatest i s =
     (case s of Inl t \<Rightarrow> GetLatest (in_db i) (in_latest i) t | Inr m \<Rightarrow> memory_GetLatest m)"

definition handleStateSnapshot :: "env_answers \<Rightarrow> str \<Rightarrow> router \<Rightarrow> response \<times> router" where
  "handleStateSnapshot i ctx r0 =
     (let (rid, r) = requestID ctx (in_id_time i) r0; now = in_meta_time i
      in (case Service_Snapshot (router_GetLatest i) (ro_state r) of
            Inl err \<Rightarrow> writeError now 500 rid ''INTERNAL_ERROR'' ''failed to load state snapshot'' []
          | Inr None \<Rightarrow> writeSuccess now 200 rid (JObj [])
          | Inr (Some s) \<Rightarrow> writeSuccess now 200 rid (snapshot_json s), r))"

text \<open>The payload is a map, printed with its keys in order.\<close>

definition latest_json :: "runtime_status \<Rightarrow> suggestion \<times> bool \<Rightarrow> json" where
  "latest_json st latest =
     (case latest of (s, found) \<Rightarrow>
        JObj ((if found then member ''commands'' (JArr (map JStr (sg_Commands s))) @
                             member ''expected_outcome'' (JStr (sg_ExpectedOutcome s)) @
                             omit (sg_GeneratedAt s = []) ''generated_at'' (JStr (sg_GeneratedAt s))
               else []) @
              member ''in_progress'' (JBool (rt_InProgress st)) @
              omit (rt_LastError st = []) ''last_error'' (JStr (rt_LastError st)) @
              omit (rt_LastError st = []) ''last_error_at'' (JStr (rt_LastErrorAt st)) @
              (if found then member ''reason'' (JStr (sg_Reason s)) else [])))"

definition handleSuggestionsLatest :: "env_answers \<Rightarrow> str \<Rightarrow> router \<Rightarrow> response \<times> router" where
  "handleSuggestionsLatest i ctx r0 =
     (let (rid, r) = requestID ctx (in_id_time i) r0
      in (writeSuccess (in_meta_time i) 200 rid
            (latest_json (Suggestion_Status (ro_suggestions r)) (Latest (ro_suggestions r))), r))"

definition handleSuggestionsCancel :: "env_answers \<Rightarrow> str \<Rightarrow> router \<Rightarrow> response \<times> router" where
  "handleSuggestionsCancel i ctx r0 =
     (let (rid, r) = requestID ctx (in_id_time i) r0;
          (canceled, s) = CancelInFlight (ro_suggestions r)
      in (writeSuccess (in_meta_time i) 200 rid (JObj (member ''canceled'' (JBool canceled))),
          r\<lparr>ro_suggestions := s\<rparr>))"

definition handleHealth :: "env_answers \<Rightarrow> str \<Rightarrow> router \<Rightarrow> response \<times> router" where
  "handleHealth i ctx r0 =
     (let (rid, r) = requestID ctx (in_id_time i) r0
      in (writeSuccess (in_meta_time i) 200 rid
            (JObj (member ''status'' (JStr (lit ''ok'')) @ member ''version'' (JStr (BuildVersion (ro_cfg r))) @
                   member ''commit'' (JStr (BuildCommit (ro_cfg r))))), r))"

subsection \<open>Metrics\<close>

text \<open>
  The verb \<open>%q\<close>. Which characters beyond ASCII are printable is Unicode data, the parameter
  \<open>printable\<close>. How \<open>%f\<close> prints the sum of the latencies is the parameter \<open>show_sum\<close>.
\<close>

definition quote_rune :: "(rune \<Rightarrow> bool) \<Rightarrow> rune \<Rightarrow> str" where
  "quote_rune printable r =
     (if r = 34 \<or> r = 92 then [92, r]
      else if 32 \<le> r \<and> r < 127 \<or> 127 < r \<and> printable r then [r]
      else if r = 7 then [92, 97]
      else if r = 8 then [92, 98] else if r = 12 then [92, 102] else if r = 10 then [92, 110]
      else if r = 13 then [92, 114] else if r = 9 then [92, 116] else if r = 11 then [92, 118]
      else if r < 32 \<or> r = 127 then [92, 120, hex_digit (r div 16), hex_digit (r mod 16)]
      else if r < 65536 then u_escape r
      else [92, 85] @ map (\<lambda>k. hex_digit (r div 16 ^ k mod 16)) [7, 6, 5, 4, 3, 2, 1, 0])"

definition quote :: "(rune \<Rightarrow> bool) \<Rightarrow> str \<Rightarrow> str" where
  "quote printable s = [34] @ concat (map (quote_rune printable) s) @ [34]"

definition show_int64 :: "int64 \<Rightarrow> str" where
  "show_int64 w = itoa (sint w)"

definition bucket_line :: "(rune \<Rightarrow> bool) \<Rightarrow> str \<times> int64 \<Rightarrow> str" where
  "bucket_line printable b =
     lit ''gateway_queue_send_latency_seconds_bucket{le='' @ quote printable (fst b) @ lit ''} '' @
     show_int64 (snd b) @ [10]"

definition formatLatencyBuckets :: "(rune \<Rightarrow> bool) \<Rightarrow> histogram \<Rightarrow> str" where
  "formatLatencyBuckets printable hist =
     concat (map (bucket_line printable) (h_Buckets hist)) @ bucket_line printable (lit ''+Inf'', h_Count hist)"

definition formatDroppedBySession :: "(rune \<Rightarrow> bool) \<Rightarrow> (str \<Rightarrow> int64 option) \<Rightarrow> str" where
  "formatDroppedBySession printable perSession =
     concat (map (\<lambda>sessionID.
         lit ''gateway_queue_dropped_unsent_total{session_id='' @ quote printable sessionID @ lit ''} '' @
         show_int64 (case perSession sessionID of None \<Rightarrow> 0 | Some n \<Rightarrow> n) @ [10])
       (sorted_list_of_set (dom perSession)))"

definition metric :: "string \<Rightarrow> string \<Rightarrow> int64 \<Rightarrow> str" where
  "metric name kind value =
     lit ''# TYPE '' @ lit name @ lit '' '' @ lit kind @ [10] @ lit name @ lit '' '' @ show_int64 value @ [10]"

definition metrics_text :: "(rune \<Rightarrow> bool) \<Rightarrow> (int64 \<Rightarrow> str) \<Rightarrow> metrics_snapshot \<Rightarrow> str" where
  "metrics_text printable show_sum s =
     metric ''gateway_ws_connections'' ''gauge'' (ms_WSConnections s) @
     metric ''gateway_queue_depth'' ''gauge'' (ms_QueueDepth s) @
     metric ''gateway_queue_sent_total'' ''counter'' (ms_QueueSentTotal s) @
     metric ''gateway_queue_send_failed_total'' ''counter'' (ms_QueueSendFailedTotal s) @
     metric ''gateway_queue_rejected_total'' ''counter'' (ms_QueueRejectedTotal s) @
     metric ''gateway_queue_dropped_total'' ''counter'' (ms_QueueDroppedTotal s) @
     metric ''gateway_events_broadcast_total'' ''counter'' (ms_EventsBroadcastTotal s) @
     lit ''# TYPE gateway_queue_send_latency_seconds histogram'' @ [10] @
     formatLatencyBuckets printable (ms_QueueSendLatency s) @
     lit ''gateway_queue_send_latency_seconds_sum '' @ show_sum (h_SumNs (ms_QueueSendLatency s)) @ [10] @
     lit ''gateway_queue_send_latency_seconds_count '' @ show_int64 (h_Count (ms_QueueSendLatency s)) @ [10] @
     lit ''# TYPE gateway_queue_dropped_unsent_total counter'' @ [10] @
     formatDroppedBySession printable (ms_DroppedBySession s)"

definition handleMetrics :: "(rune \<Rightarrow> bool) \<Rightarrow> (int64 \<Rightarrow> str) \<Rightarrow> router \<Rightarrow> response \<times> router" where
  "handleMetrics printable show_sum r =
     (\<lparr>rs_status = 200, rs_type = lit ''text/plain; version=0.0.4'',
       rs_body = metrics_text printable show_sum (Snapshot (g_metrics (ro_gw r)))\<rparr>, r)"

subsection \<open>The terminal WebSocket\<close>

text \<open>\<open>header\<close> is \<open>http.Header.Get\<close>: the first value of a header, the empty text without one.\<close>

definition headerContainsToken :: "(str \<Rightarrow> str) \<Rightarrow> string \<Rightarrow> string \<Rightarrow> bool" where
  "headerContainsToken header key want \<longleftrightarrow>
     (\<exists>part \<in> set (split_on 44 (to_lower (header (lit key)))). trim_space part = lit want)"

definition crlf :: str where "crlf = [13, 10]"

definition upgrade_response :: "str \<Rightarrow> str" where
  "upgrade_response key =
     lit ''HTTP/1.1 101 Switching Protocols'' @ crlf @ lit ''Upgrade: websocket'' @ crlf @
     lit ''Connection: Upgrade'' @ crlf @ lit ''Sec-WebSocket-Accept: '' @ WebsocketAcceptKey key @ crlf @ crlf"

text \<open>
  What the server and the connection answer: whether the writer can be hijacked, whether that and the
  writing of the upgrade response succeed, and the connection.
\<close>

record ws_answers =
  wa_hijacker :: bool
  wa_hijack_fails :: bool
  wa_write_fails :: bool
  wa_conn :: nat

datatype ws_outcome = Refused response | NoAnswer | Upgraded str nat

definition hub_broadcast :: "terminal_event \<Rightarrow> gateway \<Rightarrow> gateway" where
  "hub_broadcast event g =
     (let (h, m) = Broadcast event (g_hub g, g_metrics g) in g\<lparr>g_hub := h, g_metrics := m\<rparr>)"

definition hub_add :: "nat \<Rightarrow> gateway \<Rightarrow> nat \<times> gateway" where
  "hub_add conn g =
     (let (c, (h, m)) = Add conn (g_hub g, g_metrics g) in (c, g\<lparr>g_hub := h, g_metrics := m\<rparr>))"

definition hub_remove :: "nat \<Rightarrow> gateway \<Rightarrow> gateway" where
  "hub_remove c g =
     (let (h, m) = Remove c (g_hub g, g_metrics g) in g\<lparr>g_hub := h, g_metrics := m\<rparr>)"

definition close_browser :: "nat \<Rightarrow> gateway \<Rightarrow> gateway" where
  "close_browser conn g = g\<lparr>g_hub := (g_hub g)\<lparr>h_closed_conns := conn # h_closed_conns (g_hub g)\<rparr>\<rparr>"

text \<open>
  The handler up to the read loop, which runs until the browser leaves; then the client is removed
  (\<open>ws_done\<close>). The status event goes to every client, the new one among them.
\<close>

definition handleTerminalWS ::
    "env_answers \<Rightarrow> ws_answers \<Rightarrow> str \<Rightarrow> (str \<Rightarrow> str) \<Rightarrow> router \<Rightarrow> ws_outcome \<times> router" where
  "handleTerminalWS i a ctx header r =
     (let now = in_meta_time i;
          refuse = (\<lambda>status code message.
            let (rid, r1) = requestID ctx (in_id_time i) r
            in (Refused (writeError now status rid code message []), r1));
          key = trim_space (header (lit ''Sec-WebSocket-Key''))
      in if \<not> headerContainsToken header ''Connection'' ''upgrade''
            \<or> \<not> headerContainsToken header ''Upgrade'' ''websocket''
         then refuse 400 ''INVALID_REQUEST'' ''websocket upgrade required''
         else if key = [] then refuse 400 ''INVALID_REQUEST'' ''missing Sec-WebSocket-Key''
         else if \<not> wa_hijacker a then refuse 500 ''INTERNAL_ERROR'' ''websocket upgrade unsupported''
         else if wa_hijack_fails a then (NoAnswer, r)
         else if wa_write_fails a then (NoAnswer, r\<lparr>ro_gw := close_browser (wa_conn a) (ro_gw r)\<rparr>)
         else
           let (c, g1) = hub_add (wa_conn a) (ro_gw r);
               (event, g2) = BuildStatusEvent (in_now i) g1
           in (Upgraded (upgrade_response key) c, r\<lparr>ro_gw := hub_broadcast event g2\<rparr>))"

definition ws_done :: "nat \<Rightarrow> router \<Rightarrow> router" where
  "ws_done c r = r\<lparr>ro_gw := hub_remove c (ro_gw r)\<rparr>"

subsection \<open>Serving a request\<close>

datatype request =
    Health | SessionStatus | StateSnapshot | SuggestionsLatest | SuggestionsCancel
  | SessionConnect str | SessionDisconnect | EnqueueCommand str

text \<open>
  The patterns of the mux with a JSON response (\<open>handleTerminalWS\<close> and \<open>handleMetrics\<close> stand
  beside them); a GET pattern serves HEAD requests too. For any other path or method the mux answers
  by itself.
\<close>

definition routes :: "((string \<times> string) \<times> (str \<Rightarrow> request)) list" where
  "routes =
     [((''GET'', ''/api/v0/health''), \<lambda>_. Health),
      ((''GET'', ''/api/v0/session/status''), \<lambda>_. SessionStatus),
      ((''GET'', ''/api/v0/state/snapshot''), \<lambda>_. StateSnapshot),
      ((''GET'', ''/api/v0/suggestions/latest''), \<lambda>_. SuggestionsLatest),
      ((''POST'', ''/api/v0/suggestions/cancel''), \<lambda>_. SuggestionsCancel),
      ((''POST'', ''/api/v0/session/connect''), SessionConnect),
      ((''POST'', ''/api/v0/session/disconnect''), \<lambda>_. SessionDisconnect),
      ((''POST'', ''/api/v0/commands/enqueue''), EnqueueCommand)]"

definition dispatch :: "string \<Rightarrow> string \<Rightarrow> str \<Rightarrow> request option" where
  "dispatch m path body =
     map_option (\<lambda>f. f body) (map_of routes (if m = ''HEAD'' then ''GET'' else m, path))"

fun handle :: "env_answers \<Rightarrow> str \<Rightarrow> request \<Rightarrow> router \<Rightarrow> response \<times> router" where
  "handle i ctx Health r = handleHealth i ctx r"
| "handle i ctx SessionStatus r = handleSessionStatus i ctx r"
| "handle i ctx StateSnapshot r = handleStateSnapshot i ctx r"
| "handle i ctx SuggestionsLatest r = handleSuggestionsLatest i ctx r"
| "handle i ctx SuggestionsCancel r = handleSuggestionsCancel i ctx r"
| "handle i ctx (SessionConnect body) r = handleSessionConnect i ctx body r"
| "handle i ctx SessionDisconnect r = handleSessionDisconnect i ctx r"
| "handle i ctx (EnqueueCommand body) r = handleEnqueueCommand i ctx body r"

text \<open>\<open>withRequestLogging\<close>: every request gets an id, which its handler finds in the context.\<close>

definition serve :: "env_answers \<Rightarrow> request \<Rightarrow> router \<Rightarrow> response \<times> router" where
  "serve i req r = (let (rid, r1) = nextRequestID (in_id_time i) r in handle i rid req r1)"

text \<open>
  What the recorder of \<open>withRequestLogging\<close> sees of a response, for the log: the status of the last
  \<open>WriteHeader\<close>, 200 for a write without one, 101 for a hijack without one; and the bytes written.
\<close>

record status_recorder =
  sr_status :: nat
  sr_bytes :: int

datatype writer_call = WriteHeader nat | WriteBytes nat | Hijack bool

definition newStatusRecorder :: status_recorder where
  "newStatusRecorder = \<lparr>sr_status = 0, sr_bytes = 0\<rparr>"

fun record_call :: "writer_call \<Rightarrow> status_recorder \<Rightarrow> status_recorder" where
  "record_call (WriteHeader code) s = s\<lparr>sr_status := code\<rparr>"
| "record_call (WriteBytes n) s =
     s\<lparr>sr_status := (if sr_status s = 0 then 200 else sr_status s), sr_bytes := sr_bytes s + int n\<rparr>"
| "record_call (Hijack ok) s =
     (if \<not> ok then s else if sr_status s = 0 then s\<lparr>sr_status := 101\<rparr> else s)"

definition logged_status :: "status_recorder \<Rightarrow> nat" where
  "logged_status s = (if sr_status s = 0 then 200 else sr_status s)"

text \<open>
  The log entry of a request (its fields but the elapsed time): at level info when the status is an
  error, at level debug otherwise. A response with a body is one \<open>WriteHeader\<close> and one \<open>Write\<close>; the
  upgrade of a WebSocket is a hijack.
\<close>

record log_entry =
  lg_info :: bool
  lg_request_id :: str
  lg_method :: str
  lg_path :: str
  lg_status :: nat
  lg_bytes :: int

definition request_log :: "str \<Rightarrow> str \<Rightarrow> str \<Rightarrow> status_recorder \<Rightarrow> log_entry" where
  "request_log rid m path rec =
     (let status = logged_status rec
      in \<lparr>lg_info = (status \<ge> 400), lg_request_id = rid, lg_method = m, lg_path = path, lg_status = status,
          lg_bytes = sr_bytes rec\<rparr>)"

definition writer_calls :: "response \<Rightarrow> writer_call list" where
  "writer_calls p = [WriteHeader (rs_status p), WriteBytes (utf8_len (rs_body p))]"

definition serve_logged :: "env_answers \<Rightarrow> str \<Rightarrow> str \<Rightarrow> request \<Rightarrow> router \<Rightarrow> response \<times> log_entry \<times> router" where
  "serve_logged i m path req r =
     (let (rid, r1) = nextRequestID (in_id_time i) r;
          (p, r2) = handle i rid req r1;
          rec = fold record_call (writer_calls p) newStatusRecorder
      in (p, request_log rid m path rec, r2))"

text \<open>
  The terminal behind \<open>withRequestLogging\<close>. The writer its handler gets is the recorder, which is a
  \<open>http.Hijacker\<close> whatever the writer behind it is; its \<open>Hijack\<close> fails when that one is none. The entry is
  written when the handler returns; its read loop does not touch the recorder.
\<close>

definition recorder_answers :: "ws_answers \<Rightarrow> ws_answers" where
  "recorder_answers a = a\<lparr>wa_hijacker := True, wa_hijack_fails := \<not> wa_hijacker a \<or> wa_hijack_fails a\<rparr>"

definition ws_calls :: "ws_answers \<Rightarrow> ws_outcome \<Rightarrow> writer_call list" where
  "ws_calls a outcome = (case outcome of Refused p \<Rightarrow> writer_calls p | _ \<Rightarrow> [Hijack (wa_hijacker a)])"

definition serve_terminal ::
    "env_answers \<Rightarrow> ws_answers \<Rightarrow> str \<Rightarrow> str \<Rightarrow> (str \<Rightarrow> str) \<Rightarrow> router \<Rightarrow> ws_outcome \<times> log_entry \<times> router" where
  "serve_terminal i a m path header r =
     (let (rid, r1) = nextRequestID (in_id_time i) r;
          (outcome, r2) = handleTerminalWS i (recorder_answers a) rid header r1;
          rec = fold record_call (ws_calls a outcome) newStatusRecorder
      in (outcome, request_log rid m path rec, r2))"

end
