(* ===== verification/ApiSpec.thy ===== *)
theory ApiSpec
  imports Http ManagerSpec
begin

text \<open>
  What the HTTP interface promises a client: the answers of the session endpoints as those of an
  abstract link, and the request ids.
\<close>

subsection \<open>Texts\<close>

declare lit.simps [simp del]

lemma pad_digits: "r \<in> set (pad n v) \<Longrightarrow> is_digit r"
  by (induction n arbitrary: v) (auto simp: is_digit_def)

lemma text_ok_pad [simp]: "text_ok (pad n v)"
  using pad_digits by (intro text_ok_digits) blast

lemma text_ok_rfc3339nano [simp]: "text_ok (rfc3339nano t)"
proof -
  have "text_ok (strip_zeros (pad 9 (nanos t)))"
    by (intro text_ok_digits) (auto simp: strip_zeros_def dest!: set_dropWhileD pad_digits)
  then have "text_ok (fraction (nanos t))" by (simp add: fraction_def scalar_def)
  then show ?thesis by (simp add: rfc3339nano_def seconds_text_def scalar_def)
qed

lemma text_ok_request_time [simp]: "text_ok (request_time t)"
  by (simp add: request_time_def scalar_def)

lemma nextRequestID_ok: "nextRequestID t r = (rid, r1) \<Longrightarrow> text_ok rid \<and> rid \<noteq> []"
  by (auto simp: nextRequestID_def Let_def scalar_def)

subsection \<open>A response read back\<close>

record api_answer =
  aa_status :: nat
  aa_code :: str
  aa_connected :: "json option"
  aa_depth :: "json option"
  aa_max :: "json option"

text \<open>The status line, the error code of the body, and the fields of its data.\<close>

definition object_at :: "string \<Rightarrow> json option \<Rightarrow> (str \<times> json) list" where
  "object_at name v =
     (case v of Some (JObj ms) \<Rightarrow> (case get name ms of Some (JObj ns) \<Rightarrow> ns | _ \<Rightarrow> []) | _ \<Rightarrow> [])"

definition read_answer :: "response \<Rightarrow> api_answer" where
  "read_answer p =
     (let v = parse_json (rs_body p); data = object_at ''data'' v
      in \<lparr>aa_status = rs_status p, aa_code = get_text ''code'' (object_at ''error'' v),
          aa_connected = get ''connected'' data, aa_depth = get ''queue_depth'' data,
          aa_max = get ''queue_max'' data\<rparr>)"

definition error_answer :: "nat \<Rightarrow> string \<Rightarrow> api_answer" where
  "error_answer status code =
     \<lparr>aa_status = status, aa_code = lit code, aa_connected = None, aa_depth = None, aa_max = None\<rparr>"

lemma json_ok_meta: "text_ok rid \<Longrightarrow> json_ok (newMeta rid t)"
  by (simp add: newMeta_def scalar_def)

lemma read_error:
  assumes "text_ok rid" "text_ok (lit code)" "text_ok (lit message)" "members_ok details"
  shows "read_answer (writeError t status rid code message details) = error_answer status code"
proof -
  have "json_ok (error_body code message details)"
    using assms by (simp add: error_body_def scalar_def)
  then have "json_ok (JObj (member ''error'' (error_body code message details) @ member ''meta'' (newMeta rid t)))"
    using json_ok_meta [OF assms(1)] by (simp add: scalar_def)
  from parse_line [OF this] show ?thesis
    by (simp add: read_answer_def writeError_def writeJSON_def object_at_def error_answer_def error_body_def get_text_def)
qed

lemma read_success:
  assumes "text_ok rid" "members_ok ms"
  shows "read_answer (writeSuccess t status rid (JObj ms)) =
    \<lparr>aa_status = status, aa_code = [], aa_connected = get ''connected'' ms, aa_depth = get ''queue_depth'' ms,
     aa_max = get ''queue_max'' ms\<rparr>"
proof -
  have "json_ok (JObj (member ''data'' (JObj ms) @ member ''meta'' (newMeta rid t)))"
    using json_ok_meta [OF assms(1)] assms(2) by (simp add: scalar_def)
  from parse_line [OF this] show ?thesis
    by (simp add: read_answer_def writeSuccess_def writeJSON_def object_at_def get_text_def)
qed

subsection \<open>The interface as the client sees it\<close>

definition status_answer :: "bool \<Rightarrow> nat \<Rightarrow> spec \<Rightarrow> api_answer" where
  "status_answer connected depth a =
     \<lparr>aa_status = 200, aa_code = [], aa_connected = Some (JBool connected),
      aa_depth = Some (jint (int depth)), aa_max = Some (jint (sp_max a))\<rparr>"

definition valid_connect :: "str \<Rightarrow> bool" where
  "valid_connect body \<longleftrightarrow>
     (case decode_connect body of None \<Rightarrow> False | Some q \<Rightarrow> (\<exists>r \<in> set (rq_Host q). \<not> is_space r) \<and> 0 < rq_Port q)"

fun spec_request :: "str + nat \<Rightarrow> request \<Rightarrow> spec \<Rightarrow> api_answer \<times> spec" where
  "spec_request dial (SessionConnect body) a =
     (if \<not> valid_connect body then (error_answer 400 ''INVALID_REQUEST'', a)
      else case dial of
        Inl _ \<Rightarrow> (error_answer 502 ''UPSTREAM_UNAVAILABLE'', a)
      | Inr conn \<Rightarrow>
          (case sp_link a of
             Up c p \<Rightarrow> (error_answer 409 ''SESSION_ALREADY_CONNECTED'', a\<lparr>sp_closed := conn # sp_closed a\<rparr>)
           | Down \<Rightarrow> (status_answer True 0 a, a\<lparr>sp_link := Up conn []\<rparr>)))"
| "spec_request dial SessionDisconnect a =
     (case sp_link a of
        Down \<Rightarrow> (error_answer 409 ''SESSION_NOT_CONNECTED'', a)
      | Up c p \<Rightarrow> (status_answer False 0 a, a\<lparr>sp_link := Down, sp_closed := c # sp_closed a\<rparr>))"
| "spec_request dial SessionStatus a =
     (case sp_link a of Down \<Rightarrow> (status_answer False 0 a, a) | Up c p \<Rightarrow> (status_answer True (length p) a, a))"
| "spec_request dial (EnqueueCommand body) a =
     (case decode_enqueue body of
        None \<Rightarrow> (error_answer 400 ''INVALID_REQUEST'', a)
      | Some command \<Rightarrow>
          (case sp_link a of
             Down \<Rightarrow> (error_answer 409 ''SESSION_NOT_CONNECTED'', a)
           | Up c p \<Rightarrow>
               if sp_max a \<le> int (length p) then (error_answer 429 ''QUEUE_FULL'', a)
               else ((status_answer True (Suc (length p)) a)\<lparr>aa_connected := None\<rparr>,
                     a\<lparr>sp_link := Up c (p @ [command])\<rparr>)))"
| "spec_request dial _ a = (error_answer 0 '''', a)"

fun session_request :: "request \<Rightarrow> bool" where
  "session_request (SessionConnect body) = text_ok body"
| "session_request (EnqueueCommand body) = text_ok body"
| "session_request SessionDisconnect = True"
| "session_request SessionStatus = True"
| "session_request _ = False"

definition keeps :: "(str \<Rightarrow> json \<Rightarrow> 'a \<Rightarrow> 'a option) \<Rightarrow> ('a \<Rightarrow> bool) \<Rightarrow> bool" where
  "keeps field P \<longleftrightarrow> (\<forall>k v s s1. field k v s = Some s1 \<longrightarrow> json_ok v \<longrightarrow> P s \<longrightarrow> P s1)"

lemma decode_members_ok:
  "keeps field P \<Longrightarrow> decode_members field ms s = Some s1 \<Longrightarrow> members_ok ms \<Longrightarrow> P s \<Longrightarrow> P s1"
proof (induction field ms s rule: decode_members.induct)
  case (2 field k v ms s)
  then obtain s2 where f: "field k v s = Some s2" "decode_members field ms s2 = Some s1"
    by (auto split: option.splits)
  with 2 have "P s2" unfolding keeps_def by (metis members_ok_Cons)
  with 2 f show ?case by simp
qed simp

lemma decode_body_ok:
  assumes "keeps field P" "decode_body field zero body = Some s" "text_ok body" "P zero"
  shows "P s"
proof -
  from assms(2) consider rest where "json_decode body = Some (JNull, rest)" "s = zero"
    | ms rest where "json_decode body = Some (JObj ms, rest)" "decode_members field ms zero = Some s"
    by (auto simp: decode_body_def split: option.splits prod.splits json.splits)
  then show ?thesis
  proof cases
    case (2 ms rest)
    from json_decode_ok [OF 2(1) assms(3)] have "members_ok ms" by simp
    with decode_members_ok [OF assms(1) 2(2)] assms(4) show ?thesis by blast
  qed (use assms(4) in simp)
qed

lemma over_text_ok: "over_text old v = Some s \<Longrightarrow> json_ok v \<Longrightarrow> text_ok old \<Longrightarrow> text_ok s"
  by (auto simp: over_text_def split: json.splits)

lemma decode_connect_ok: "decode_connect body = Some q \<Longrightarrow> text_ok body \<Longrightarrow> text_ok (rq_Host q)"
proof -
  have "keeps connect_field (\<lambda>q. text_ok (rq_Host q))"
    by (auto simp: keeps_def connect_field_def split: if_splits dest: over_text_ok)
  from decode_body_ok [OF this] show "decode_connect body = Some q \<Longrightarrow> text_ok body \<Longrightarrow> text_ok (rq_Host q)"
    unfolding decode_connect_def by fastforce
qed

text \<open>A reply of the manager, as the fields of the status and the error.\<close>

lemma reply_of_inject:
  "reply_of st err dropped = Reply sid connected depth queueMax err1 dropped1 \<longleftrightarrow>
     st_SessionID st = sid \<and> st_Connected st = connected \<and> st_QueueDepth st = depth \<and> st_QueueMax st = queueMax
   \<and> err = err1 \<and> dropped = dropped1"
  by (auto simp: reply_of_def)

lemma read_status:
  assumes "text_ok rid" "text_ok (st_SessionID st)"
  shows "read_answer (writeSuccess t status rid (toSessionStatusPayload st)) =
    \<lparr>aa_status = status, aa_code = [], aa_connected = Some (JBool (st_Connected st)),
     aa_depth = Some (jint (st_QueueDepth st)), aa_max = Some (jint (st_QueueMax st))\<rparr>"
  unfolding toSessionStatusPayload_def
  by (subst read_success) (use assms in \<open>simp_all add: scalar_def\<close>)

lemma read_enqueued:
  "text_ok rid \<Longrightarrow> read_answer (writeSuccess t status rid (enqueue_payload st)) =
    \<lparr>aa_status = status, aa_code = [], aa_connected = None,
     aa_depth = Some (jint (st_QueueDepth st)), aa_max = Some (jint (st_QueueMax st))\<rparr>"
  unfolding enqueue_payload_def
  by (subst read_success) (simp_all add: scalar_def)

text \<open>
  What the handlers rely on: every operation of the manager gives the reply of the abstract link. The
  lemmas of the locale are the replies of the handlers, over any manager that keeps these laws.
\<close>

definition follows :: "('g \<Rightarrow> bool) \<Rightarrow> ('g \<Rightarrow> spec) \<Rightarrow> gw_op \<Rightarrow> 'g \<Rightarrow> reply \<times> 'g \<Rightarrow> bool" where
  "follows ok link op g r \<longleftrightarrow> ok (snd r) \<and> spec_exec (\<lambda>_. None) op (link g) = (fst r, link (snd r))"

definition answers :: "('g \<Rightarrow> bool) \<Rightarrow> ('g \<Rightarrow> spec) \<Rightarrow> str + nat \<Rightarrow> request \<Rightarrow> 'g \<Rightarrow> response \<times> 'g \<Rightarrow> bool" where
  "answers ok link dial req g r \<longleftrightarrow>
     ok (snd r) \<and> spec_request dial req (link g) = (read_answer (fst r), link (snd r))"

lemma reply_fields:
  "status_reply connected depth a err1 d = reply_of st err dropped \<longleftrightarrow>
     st_SessionID st = lit ''s-1'' \<and> st_Connected st = connected \<and> st_QueueDepth st = int depth
   \<and> st_QueueMax st = sp_max a \<and> err = err1 \<and> dropped = d"
  by (auto simp: reply_of_def status_reply_def)

lemma details_ok [simp]: "members_ok (session_details st) \<longleftrightarrow> text_ok (st_SessionID st)"
  by (simp add: session_details_def)

lemmas reply_cases = answers_def follows_def read_error read_status read_enqueued status_answer_def reply_fields

locale session_manager =
  fixes M :: "'g sessionManager" and dial :: "str + nat" and ok :: "'g \<Rightarrow> bool" and link :: "'g \<Rightarrow> spec"
  assumes connect_law: "ok g \<Longrightarrow> sm_Connect M host port g = ((st, err), g1) \<Longrightarrow>
      follows ok link (OpConnect dial host port) g (reply_of st err 0, g1)"
    and disconnect_law: "ok g \<Longrightarrow> sm_Disconnect M g = ((st, dropped, err), g1) \<Longrightarrow>
      follows ok link OpDisconnect g (reply_of st err dropped, g1)"
    and status_law: "ok g \<Longrightarrow> sm_Status M g = (st, g1) \<Longrightarrow> follows ok link OpStatus g (reply_of st None 0, g1)"
    and enqueue_law: "ok g \<Longrightarrow> sm_Enqueue M command g = ((st, err), g1) \<Longrightarrow>
      follows ok link (OpEnqueue command) g (reply_of st err 0, g1)"
begin

lemma status_answers:
  assumes "ok g" "text_ok rid"
  shows "answers ok link dial SessionStatus g (status_reply_of M now rid g)"
proof -
  obtain st g1 where s: "sm_Status M g = (st, g1)" by (metis surj_pair)
  from status_law [OF assms(1) s] assms(2) show ?thesis
    by (auto simp: status_reply_of_def s reply_cases split: link.splits)
qed

lemma disconnect_answers:
  assumes "ok g" "text_ok rid"
  shows "answers ok link dial SessionDisconnect g (disconnect_reply M now rid g)"
proof -
  obtain st dropped err g1 where s: "sm_Disconnect M g = ((st, dropped, err), g1)" by (metis surj_pair)
  from disconnect_law [OF assms(1) s] assms(2) show ?thesis
    by (auto simp: disconnect_reply_def s reply_cases split: link.splits)
qed

lemma enqueue_answers:
  assumes "ok g" "text_ok rid"
  shows "answers ok link dial (EnqueueCommand body) g (enqueue_reply M now rid body g)"
proof (cases "decode_enqueue body")
  case None
  with assms show ?thesis by (simp add: enqueue_reply_def reply_cases)
next
  case (Some command)
  obtain st err g1 where s: "sm_Enqueue M command g = ((st, err), g1)" by (metis surj_pair)
  from enqueue_law [OF assms(1) s] assms(2) Some show ?thesis
    by (auto simp: enqueue_reply_def s reply_cases split: link.splits if_splits)
qed

lemma connect_answers:
  assumes "ok g" "text_ok rid" "text_ok body"
  shows "answers ok link dial (SessionConnect body) g (connect_reply M now rid body g)"
proof (cases "decode_connect body")
  case None
  with assms show ?thesis by (simp add: connect_reply_def valid_connect_def reply_cases)
next
  case (Some q)
  have v: "valid_connect body \<longleftrightarrow> \<not> (trim_space (rq_Host q) = [] \<or> rq_Port q \<le> 0)"
    by (auto simp: valid_connect_def Some trim_space_eq_Nil)
  show ?thesis
  proof (cases "valid_connect body")
    case False
    with v Some assms show ?thesis by (simp add: connect_reply_def reply_cases)
  next
    case True
    obtain st err g1 where s: "sm_Connect M (rq_Host q) (rq_Port q) g = ((st, err), g1)" by (metis surj_pair)
    note facts = connect_law [OF assms(1) s] assms(2) decode_connect_ok [OF Some assms(3)] Some True v
    show ?thesis
    proof (cases dial)
      case (Inl msg)
      with facts show ?thesis by (auto simp: connect_reply_def s reply_cases reply_of_def)
    next
      case (Inr conn)
      with facts show ?thesis by (auto simp: connect_reply_def s reply_cases split: link.splits)
    qed
  qed
qed

end

lemma gw_follows: "gw_ok g \<Longrightarrow> gw_exec (\<lambda>_. None) (op, now) g = r \<Longrightarrow> follows gw_ok abs_gw op g r"
  using simD [of g "\<lambda>_. None" op now] by (auto simp: follows_def)

interpretation manager: session_manager "theManager i" "in_dial i" gw_ok abs_gw for i
proof unfold_locales
  fix g g1 :: gateway and st err dropped host port command
  assume ok: "gw_ok g"
  note F = gw_follows [OF ok, where now = "in_now i"]
  show "follows gw_ok abs_gw (OpConnect (in_dial i) host port) g (reply_of st err 0, g1)"
    if "sm_Connect (theManager i) host port g = ((st, err), g1)"
    by (rule F) (use that in \<open>simp add: theManager_def\<close>)
  show "follows gw_ok abs_gw OpDisconnect g (reply_of st err dropped, g1)"
    if "sm_Disconnect (theManager i) g = ((st, dropped, err), g1)"
    by (rule F) (use that in \<open>simp add: theManager_def\<close>)
  show "follows gw_ok abs_gw OpStatus g (reply_of st None 0, g1)" if "sm_Status (theManager i) g = (st, g1)"
    by (rule F) (use that in \<open>simp add: theManager_def\<close>)
  show "follows gw_ok abs_gw (OpEnqueue command) g (reply_of st err 0, g1)"
    if "sm_Enqueue (theManager i) command g = ((st, err), g1)"
    by (rule F) (use that in \<open>simp add: theManager_def\<close>)
qed

text \<open>One request, whatever the state before it.\<close>

definition served :: "env_answers \<Rightarrow> request \<Rightarrow> router \<Rightarrow> bool" where
  "served i req r \<longleftrightarrow>
     (case serve i req r of (p, r1) \<Rightarrow> answers gw_ok abs_gw (in_dial i) req (ro_gw r) (p, ro_gw r1))"

lemma requestID_ctx: "ctx \<noteq> [] \<Longrightarrow> requestID ctx t r = (ctx, r)"
  by (simp add: requestID_def)

lemma next_gw: "nextRequestID t r = (rid, r1) \<Longrightarrow> ro_gw r1 = ro_gw r"
  by (auto simp: nextRequestID_def Let_def)

lemma with_manager_ctx:
  "ctx \<noteq> [] \<Longrightarrow> with_manager reply i ctx r =
     (let (p, g) = reply (theManager i) (in_meta_time i) ctx (ro_gw r) in (p, r\<lparr>ro_gw := g\<rparr>))"
  by (simp add: with_manager_def requestID_ctx)

lemma served_session:
  assumes "session_request req" "gw_ok (ro_gw r)"
  shows "served i req r"
proof -
  obtain rid r1 where n: "nextRequestID (in_id_time i) r = (rid, r1)" by (metis surj_pair)
  note N = nextRequestID_ok [OF n] next_gw [OF n]
  note S = manager.status_answers manager.disconnect_answers manager.enqueue_answers manager.connect_answers
  show ?thesis
    using assms N
    by (cases req) (simp_all add: served_def serve_def n with_manager_ctx S handleSessionConnect_def
        handleSessionDisconnect_def handleSessionStatus_def handleEnqueueCommand_def split: prod.split,
        (metis S snd_conv surjective_pairing)+)
qed

text \<open>
  A run of the gateway: requests, and between them what the manager's goroutines do (sender ticks,
  upstream output, the end of the upstream connection).
\<close>

datatype api_event = Request env_answers request | Goroutine gw_op utc

fun api_exec :: "(str \<Rightarrow> byte list option) \<Rightarrow> api_event \<Rightarrow> router \<Rightarrow> response option \<times> router" where
  "api_exec enc (Request i req) r = (let (p, r1) = serve i req r in (Some p, r1))"
| "api_exec enc (Goroutine op now) r = (None, r\<lparr>ro_gw := snd (gw_exec enc (op, now) (ro_gw r))\<rparr>)"

fun spec_api :: "(str \<Rightarrow> byte list option) \<Rightarrow> api_event \<Rightarrow> spec \<Rightarrow> api_answer option \<times> spec" where
  "spec_api enc (Request i req) a = (let (p, a1) = spec_request (in_dial i) req a in (Some p, a1))"
| "spec_api enc (Goroutine op now) a = (None, snd (spec_exec enc op a))"

fun session_event :: "api_event \<Rightarrow> bool" where
  "session_event (Request i req) = session_request req"
| "session_event (Goroutine op now) = True"

lemma api_step:
  assumes "gw_ok (ro_gw r)" "session_event ev" "api_exec enc ev r = (p, r1)"
  shows "gw_ok (ro_gw r1) \<and> spec_api enc ev (abs_gw (ro_gw r)) = (map_option read_answer p, abs_gw (ro_gw r1))"
proof (cases ev)
  case (Request i req)
  with assms served_session [of req r i] show ?thesis
    by (auto simp: served_def answers_def split: prod.splits)
next
  case (Goroutine op now)
  with assms(3) simD [OF assms(1), of enc op now] show ?thesis by auto
qed

lemma api_runs:
  "gw_ok (ro_gw r) \<Longrightarrow> \<forall>ev \<in> set evs. session_event ev \<Longrightarrow> runs (api_exec enc) evs r = (ps, r1) \<Longrightarrow>
   gw_ok (ro_gw r1) \<and> runs (spec_api enc) evs (abs_gw (ro_gw r)) = (map (map_option read_answer) ps, abs_gw (ro_gw r1))"
proof (induction evs arbitrary: r ps)
  case (Cons ev evs)
  obtain p r2 where p: "api_exec enc ev r = (p, r2)" by (metis surj_pair)
  obtain qs where q: "runs (api_exec enc) evs r2 = (qs, r1)" and ps: "ps = p # qs"
    using Cons.prems(3) by (auto simp: p split: prod.splits)
  note A = api_step [OF Cons.prems(1) _ p]
  from A Cons.prems(2) have "gw_ok (ro_gw r2)" by simp
  from Cons.IH [OF this _ q] Cons.prems(2) A show ?case by (simp add: ps)
qed simp

text \<open>
  C2. The HTTP interface of the session, end to end. Start the gateway with any environment, and let
  clients send any connect, disconnect, status and enqueue requests (with any Unicode bodies), while sender
  ticks, upstream output and upstream ends happen in between. Then every response, read back from its
  JSON text (status code, error code, connected flag, queue depth and limit), is the answer of an
  abstract link: 400 for a body that does not decode and for a connect without a host or a positive
  port, 502 when the dial fails, 409 for a connect to a connected session and for a disconnect or a
  command without one, 429 exactly when the queue holds as many commands as \<open>APP_QUEUE_MAX_DEPTH\<close> allows, and 200 otherwise; a refused request
  changes neither the link nor its pending commands, an accepted command becomes the last of them.
\<close>

theorem api_refines:
  assumes "\<forall>ev \<in> set evs. session_event ev"
    and "runs (api_exec enc) evs (NewRouter a file (Load part env)) = (responses, r)"
  shows "runs (spec_api enc) evs (initial_spec (QueueMaxDepth (Load part env)))
      = (map (map_option read_answer) responses, abs_gw (ro_gw r))
    \<and> gw_ok (ro_gw r)"
proof -
  have "0 < QueueMaxDepth (Load part env)" using getenvInt_range [of 20] by (simp add: Load_def)
  then have "abs_gw (ro_gw (NewRouter a file (Load part env))) = initial_spec (QueueMaxDepth (Load part env))"
    and "gw_ok (ro_gw (NewRouter a file (Load part env)))"
    by (simp_all add: NewRouter_def abs_New gw_ok_New)
  with api_runs [OF _ assms] show ?thesis by simp
qed

definition db_opens :: open_answers where
  "db_opens = \<lparr>oa_mkdir = None, oa_open = None, oa_exec = (\<lambda>_. None)\<rparr>"

definition demo_env :: env_answers where
  "demo_env = \<lparr>in_id_time = noon, in_now = noon, in_meta_time = noon, in_dial = Inr 7,
     in_db = \<lparr>a_select_snapshot = None, a_select_equipment = None, a_exec_snapshot = None, a_begin = None,
              a_exec_slot = (\<lambda>_. None), a_commit = None, a_slots = (\<lambda>_. [])\<rparr>, in_latest = Inr None\<rparr>"

theorem api_refines_witness:
  "map (map_option aa_status \<circ> map_option read_answer) (fst (runs (api_exec (\<lambda>_. None))
     [Request demo_env SessionDisconnect, Request demo_env (SessionConnect (lit ''{}'')),
      Request demo_env (SessionConnect (print_json (JObj [(lit ''host'', JStr (lit ''mud'')), (lit ''port'', jint 23)]))),
      Request demo_env (EnqueueCommand (lit ''null'')), Request demo_env (EnqueueCommand (lit ''{}'')),
      Request demo_env SessionDisconnect]
     (NewRouter db_opens empty_database (Load (\<lambda>_ _ _. 0) ((\<lambda>_. [])(lit ''APP_QUEUE_MAX_DEPTH'' := lit ''1''))))))
   = [Some 409, Some 400, Some 200, Some 200, Some 429, Some 200]"
  (is "map _ (fst (runs _ ?evs ?r)) = ?cs")
proof -
  let ?body = "print_json (JObj [(lit ''host'', JStr (lit ''mud'')), (lit ''port'', jint 23)])"
  obtain ps r where r: "runs (api_exec (\<lambda>_. None)) ?evs ?r = (ps, r)" by (metis surj_pair)
  have "text_ok ?body" by code_simp
  then have ev: "\<forall>ev \<in> set ?evs. session_event ev" by (simp add: scalar_def)
  have c: "\<not> valid_connect (lit ''{}'')" "valid_connect ?body" "decode_enqueue (lit ''null'') = Some []"
    "decode_enqueue (lit ''{}'') = Some []" by code_simp+
  have m: "QueueMaxDepth (Load (\<lambda>_ _ _. 0) ((\<lambda>_. [])(lit ''APP_QUEUE_MAX_DEPTH'' := lit ''1''))) = 1"
    by (simp add: Load_def getenvInt_def Atoi_def signed_def is_digit_def digits_value_def lit.simps)
  have d: "in_dial demo_env = Inr 7" by (simp add: demo_env_def)
  have "map (map_option aa_status) (fst (runs (spec_api (\<lambda>_. None)) ?evs (initial_spec 1))) = ?cs"
    using c d by (simp add: initial_spec_def error_answer_def status_answer_def del: print_json.simps)
  moreover have "map (map_option aa_status) (map (map_option read_answer) ps)
      = map (map_option aa_status) (fst (runs (spec_api (\<lambda>_. None)) ?evs (initial_spec 1)))"
    using api_refines [OF ev r] unfolding m by simp
  ultimately show ?thesis unfolding r by simp
qed

subsection \<open>Request ids\<close>

fun given_ids :: "(env_answers \<times> request) list \<Rightarrow> router \<Rightarrow> str list" where
  "given_ids [] r = []"
| "given_ids ((i, req) # rest) r =
     fst (nextRequestID (in_id_time i) r) # given_ids rest (snd (serve i req r))"

lemma handle_counter: "rid \<noteq> [] \<Longrightarrow> ro_counter (snd (handle i rid req r)) = ro_counter r"
  by (cases req)
    (simp_all add: requestID_ctx with_manager_ctx handleHealth_def handleSessionStatus_def handleStateSnapshot_def
      handleSuggestionsLatest_def handleSuggestionsCancel_def handleSessionConnect_def
      handleSessionDisconnect_def handleEnqueueCommand_def Let_def
      split: prod.split option.split gw_err.split)

lemma serve_counter: "ro_counter (snd (serve i req r)) = ro_counter r + 1"
proof -
  obtain rid r1 where n: "nextRequestID (in_id_time i) r = (rid, r1)" by (metis surj_pair)
  then have "ro_counter r1 = ro_counter r + 1" by (auto simp: nextRequestID_def Let_def)
  with nextRequestID_ok [OF n] handle_counter [of rid i req r1] show ?thesis by (simp add: serve_def n)
qed

lemma request_time_no_dash: "45 \<notin> set (request_time t)"
  using pad_digits by (auto simp: request_time_def is_digit_def dest!: pad_digits)

lemma id_number:
  "request_time t @ lit ''-'' @ itoa (uint (v :: uint64)) = request_time u @ lit ''-'' @ itoa (uint (w :: uint64)) \<Longrightarrow> v = w"
proof -
  assume e: "request_time t @ lit ''-'' @ itoa (uint v) = request_time u @ lit ''-'' @ itoa (uint w)"
  have "dropWhile (\<lambda>r. r \<noteq> 45) (request_time x @ 45 # s) = 45 # s" for x s
    using request_time_no_dash [of x] by (subst dropWhile_append2) auto
  then have "itoa (uint v) = itoa (uint w)" using arg_cong [OF e, of "dropWhile (\<lambda>r. r \<noteq> 45)"] by (simp add: lit.simps)
  then have "nat (uint v) = nat (uint w)" by (simp add: itoa_def digits_inject not_less)
  then show "v = w" by (simp add: word_unat_eq_iff)
qed

text \<open>The ids are the numbers after the counter.\<close>

definition id_with :: "uint64 \<Rightarrow> str \<Rightarrow> bool" where
  "id_with v s \<longleftrightarrow> (\<exists>t. s = request_time t @ lit ''-'' @ itoa (uint v))"

lemma given_ids_numbers:
  "list_all2 id_with (map (\<lambda>k. ro_counter r + 1 + of_nat k) [0..<length reqs]) (given_ids reqs r)"
proof (induction reqs r rule: given_ids.induct)
  case (2 i req rest r)
  have "id_with (ro_counter r + 1) (fst (nextRequestID (in_id_time i) r))"
    by (auto simp: id_with_def nextRequestID_def Let_def)
  moreover have "map (\<lambda>k. ro_counter r + 1 + of_nat k) [0..<Suc (length rest)]
      = (ro_counter r + 1) # map (\<lambda>k. ro_counter (snd (serve i req r)) + 1 + of_nat k) [0..<length rest]"
    by (simp add: serve_counter map_upt_Suc algebra_simps del: upt_Suc)
  ultimately show ?case using 2 by simp
qed simp

lemma distinct_ids: "list_all2 id_with vs ss \<Longrightarrow> distinct vs \<Longrightarrow> distinct ss"
proof (induction rule: list_all2_induct)
  case (Cons v vs s ss)
  have "s \<notin> set ss"
  proof
    assume "s \<in> set ss"
    then obtain w where "w \<in> set vs" "id_with w s"
      using Cons.hyps(2) by (metis in_set_conv_nth list_all2_conv_all_nth)
    with Cons.hyps(1) have "v = w" using id_number by (auto simp: id_with_def)
    with \<open>w \<in> set vs\<close> Cons.prems show False by simp
  qed
  with Cons show ?case by simp
qed simp

text \<open>
  C31. Request ids are unique. Over any sequence of at most \<open>2 ^ 64\<close> requests to any endpoints, at any
  times (a clock that stands still or goes back included), no id is given twice.
\<close>

theorem request_ids_distinct:
  assumes "length reqs \<le> 2 ^ 64"
  shows "distinct (given_ids reqs r)"
proof -
  have "inj_on (\<lambda>k. ro_counter r + 1 + of_nat k :: uint64) (set [0..<length reqs])"
  proof (rule inj_onI)
    fix j k assume "j \<in> set [0..<length reqs]" "k \<in> set [0..<length reqs]"
    then have "j < 2 ^ 64" "k < 2 ^ 64" using assms by simp_all
    moreover assume "ro_counter r + 1 + of_nat j = (ro_counter r + 1 + of_nat k :: uint64)"
    then have "unat (of_nat j :: uint64) = unat (of_nat k :: uint64)" by simp
    ultimately show "j = k" by (simp add: unat_of_nat)
  qed
  then have "distinct (map (\<lambda>k. ro_counter r + 1 + of_nat k :: uint64) [0..<length reqs])"
    by (simp add: distinct_map)
  with given_ids_numbers distinct_ids show ?thesis by blast
qed

theorem request_ids_distinct_witness:
  "distinct (given_ids [(demo_env, Health), (demo_env, SessionDisconnect), (demo_env, Health)]
     (NewRouter db_opens empty_database (Load (\<lambda>_ _ _. 0) (\<lambda>_. []))))"
  by (rule request_ids_distinct) simp

end
