(* ===== verification/JoinSpec.thy ===== *)
theory JoinSpec
  imports Handshake ApiSpec WireSpec
begin

text \<open>
  How a browser joins: the accept key of the WebSocket handshake, and what \<open>handleTerminalWS\<close> does
  with a request for an upgrade, up to the client's removal when the browser leaves.
\<close>

subsection \<open>Base64 read back\<close>

text \<open>The value of a character of the standard alphabet, and the decoder of padded groups of four.\<close>

definition sextet :: "rune \<Rightarrow> int" where
  "sextet r =
     (if 65 \<le> r \<and> r \<le> 90 then r - 65 else if 97 \<le> r \<and> r \<le> 122 then r - 71
      else if 48 \<le> r \<and> r \<le> 57 then r + 4 else if r = 43 then 62 else 63)"

fun unbase64 :: "str \<Rightarrow> byte list" where
  "unbase64 (w # x # y # z # rest) =
     (let n = sextet w * 262144 + sextet x * 4096 + (if y = 61 then 0 else sextet y) * 64 + (if z = 61 then 0 else sextet z);
          bs = [word_of_int (n div 65536), word_of_int (n div 256 mod 256), word_of_int (n mod 256)]
      in (if y = 61 then take 1 bs else if z = 61 then take 2 bs else bs) @ unbase64 rest)"
| "unbase64 _ = []"

lemma sextet_char [simp]: "0 \<le> i \<Longrightarrow> i < 64 \<Longrightarrow> sextet (base64_char i) = i"
  by (simp add: sextet_def base64_char_def)

lemma char_not_pad [simp]: "0 \<le> i \<Longrightarrow> i < 64 \<Longrightarrow> base64_char i \<noteq> 61"
  by (auto simp: base64_char_def)

lemma byte_range: "0 \<le> uint (b :: byte)" "uint (b :: byte) < 256"
  using uint_lt2p [of b] by simp_all

lemma bytes_of_group:
  assumes "0 \<le> a" "a < 256" "0 \<le> b" "b < 256" "0 \<le> c" "c < (256 :: int)"
  shows "(a * 65536 + b * 256 + c) div 65536 = a" "(a * 65536 + b * 256 + c) div 256 mod 256 = b"
    "(a * 65536 + b * 256 + c) mod 256 = c"
proof -
  have d: "(a * 65536 + b * 256 + c) div 256 = a * 256 + b"
    by (rule int_div_pos_eq [where r = c]) (use assms in auto)
  show "(a * 65536 + b * 256 + c) div 65536 = a"
    by (rule int_div_pos_eq [where r = "b * 256 + c"]) (use assms in auto)
  show "(a * 65536 + b * 256 + c) div 256 mod 256 = b"
    unfolding d using assms by (intro int_mod_pos_eq [where q = a]) auto
  show "(a * 65536 + b * 256 + c) mod 256 = c"
    using assms by (intro int_mod_pos_eq [where q = "a * 256 + b"]) auto
qed

lemma sextets_of_group: "n div 262144 * 262144 + n div 4096 mod 64 * 4096 + n div 64 mod 64 * 64 + n mod 64 = (n :: int)"
proof -
  have "n div 4096 = n div 64 div 64" "n div 262144 = n div 64 div 64 div 64"
    by (simp_all add: zdiv_zmult2_eq [symmetric])
  moreover have "m = m div 64 * 64 + m mod 64" for m :: int by simp
  ultimately show ?thesis by (smt (verit, best))
qed

lemma top_sextet: "0 \<le> n \<Longrightarrow> n < 16777216 \<Longrightarrow> 0 \<le> n div 262144 \<and> n div 262144 < (64 :: int)"
  using zdiv_mono1 [of n 16777215 262144] by (simp add: pos_imp_zdiv_nonneg_iff)

text \<open>A group as the code forms it, from three bytes of which the last ones may be missing.\<close>

definition group :: "byte \<Rightarrow> byte \<Rightarrow> byte \<Rightarrow> int" where
  "group a b c = uint a * 65536 + uint b * 256 + uint c"

lemma group_facts:
  "0 \<le> group a b c" "group a b c < 16777216" "0 \<le> group a b c div 262144" "group a b c div 262144 < 64"
  "group a b c div 65536 = uint a" "group a b c div 256 mod 256 = uint b" "group a b c mod 256 = uint c"
proof -
  note R = byte_range [of a] byte_range [of b] byte_range [of c]
  show r: "0 \<le> group a b c" "group a b c < 16777216" using R by (simp_all add: group_def)
  from top_sextet [OF r] show "0 \<le> group a b c div 262144" "group a b c div 262144 < 64" by simp_all
  from bytes_of_group [OF R] show "group a b c div 65536 = uint a" "group a b c div 256 mod 256 = uint b"
    "group a b c mod 256 = uint c" by (simp_all add: group_def)
qed

lemma base64_groups:
  "base64 (a # b # c # rest) =
     [base64_char (group a b c div 262144), base64_char (group a b c div 4096 mod 64),
      base64_char (group a b c div 64 mod 64), base64_char (group a b c mod 64)] @ base64 rest"
  "base64 [a, b] =
     [base64_char (group a b 0 div 262144), base64_char (group a b 0 div 4096 mod 64),
      base64_char (group a b 0 div 64 mod 64), 61]"
  "base64 [a] = [base64_char (group a 0 0 div 262144), base64_char (group a 0 0 div 4096 mod 64), 61, 61]"
  by (simp_all only: base64.simps group_def Let_def unsigned_0 mult_zero_left add_0_right)

declare base64.simps(1-3) [simp del]

lemma padded_group:
  "group a b 0 mod 64 = 0" "group a 0 0 mod 64 = 0" "group a 0 0 div 64 mod 64 = 0"
proof -
  have "group a b 0 = (uint a * 1024 + uint b * 4) * 64" by (simp add: group_def)
  then show "group a b 0 mod 64 = 0" by simp
  have g: "group a 0 0 = uint a * 16 * 64 * 64" by (simp add: group_def)
  show "group a 0 0 mod 64 = 0" "group a 0 0 div 64 mod 64 = 0" unfolding g by simp_all
qed

lemma unbase64_base64: "unbase64 (base64 bs) = bs"
proof (induction bs rule: base64.induct)
  case (1 a b c rest)
  then show ?case
    unfolding base64_groups append.simps unbase64.simps
    by (simp add: group_facts sextets_of_group Let_def)
next
  case (2 a b)
  let ?n = "group a b 0"
  have e: "?n div 262144 * 262144 + ?n div 4096 mod 64 * 4096 + ?n div 64 mod 64 * 64 = ?n"
    using sextets_of_group [of ?n] by (simp only: padded_group add_0_right)
  show ?case
    unfolding base64_groups unbase64.simps by (simp add: group_facts e Let_def)
next
  case (3 a)
  let ?n = "group a 0 0"
  have e: "?n div 262144 * 262144 + ?n div 4096 mod 64 * 4096 = ?n"
    using sextets_of_group [of ?n] by (simp only: padded_group add_0_right mult_zero_left)
  show ?case
    unfolding base64_groups unbase64.simps by (simp add: group_facts e Let_def)
qed simp

lemma length_base64: "length (base64 bs) = 4 * ((length bs + 2) div 3)"
proof (induction bs rule: base64.induct)
  case (1 a b c rest)
  have "(length rest + 5) div 3 = Suc ((length rest + 2) div 3)" by simp
  with 1 show ?case by (simp add: base64_groups add.commute)
qed (simp_all add: base64_groups)

definition token_char :: "rune \<Rightarrow> bool" where
  "token_char r \<longleftrightarrow> is_digit r \<or> 65 \<le> r \<and> r \<le> 90 \<or> 97 \<le> r \<and> r \<le> 122 \<or> r \<in> {43, 47, 61}"

lemma base64_char_token [simp]: "0 \<le> i \<Longrightarrow> i < 64 \<Longrightarrow> token_char (base64_char i)"
  by (auto simp: token_char_def base64_char_def is_digit_def)

lemma base64_tokens: "set (base64 bs) \<subseteq> {r. token_char r}"
proof (induction bs rule: base64.induct)
  case (1 a b c rest)
  then show ?case by (simp add: base64_groups group_facts)
qed (simp_all add: base64_groups group_facts, simp_all add: token_char_def)

lemma length_sha1: "length (sha1 m) = 20"
  by (simp add: sha1_def bytes_of_word_def split: prod.split)

text \<open>
  C29. The accept key is what the handshake asks for, and safe in a header: whatever the client sent as
  its key, the value answered is the base64 form of the SHA-1 digest of that key followed by the GUID
  of the protocol, 28 characters, all of them letters, digits, plus, slash or padding (so that no key
  can break out of the header line).
\<close>

theorem accept_key_exact:
  "unbase64 (WebsocketAcceptKey key) = sha1 (encode_utf8 key @ encode_utf8 (lit ''258EAFA5-E914-47DA-95CA-C5AB0DC85B11''))
    \<and> length (WebsocketAcceptKey key) = 28
    \<and> set (WebsocketAcceptKey key) \<subseteq> {r. token_char r}"
  by (simp add: WebsocketAcceptKey_def wsGUID_def unbase64_base64 length_base64 length_sha1 base64_tokens
      encode_utf8_append del: lit.simps)

subsection \<open>Joining and leaving\<close>

text \<open>The status event in terms of the link.\<close>

definition status_event :: "utc \<Rightarrow> spec \<Rightarrow> terminal_event" where
  "status_event now a =
     \<lparr>ev_Event = lit ''session.status'', ev_SessionID = lit ''s-1'', ev_Connected = (sp_link a \<noteq> Down), ev_Text = [],
      ev_QueueDepth = (case sp_link a of Down \<Rightarrow> 0 | Up c p \<Rightarrow> int (length p)), ev_QueueMax = sp_max a,
      ev_QueueRejectCode = [], ev_Timestamp = rfc3339nano now\<rparr>"

lemma build_status:
  assumes "gw_ok g" "BuildStatusEvent now g = (e, g1)"
  shows "e = status_event now (abs_gw g)" "gw_ok g1" "abs_gw g1 = abs_gw g" "g_hub g1 = g_hub g" "g_metrics g1 = g_metrics g"
proof -
  obtain s g2 where n: "ensureSessionLocked now g = (s, g2)" by (rule prod.exhaust)
  have st: "Status now g = (statusLocked g2, g2)" by (simp add: Status_def n)
  have g1: "g1 = g2" using assms(2) by (simp add: BuildStatusEvent_def st)
  note E = ensure_props [OF n, unfolded g1 [symmetric]] and O = ensure_ok [OF n assms(1), unfolded g1 [symmetric]]
  from assms(1) have "session_ok g" by (simp add: gw_ok_def)
  with E O show "gw_ok g1" "abs_gw g1 = abs_gw g" "g_hub g1 = g_hub g" "g_metrics g1 = g_metrics g" by simp_all
  have "spec_exec (\<lambda>_. None) OpStatus (abs_gw g) = (reply_of (statusLocked g2) None 0, abs_gw g1)"
    using simD(2) [OF assms(1), of "\<lambda>_. None" OpStatus now] by (simp add: st g1)
  then show "e = status_event now (abs_gw g)"
    using assms(2) by (auto simp: BuildStatusEvent_def st status_event_def reply_fields split: link.splits)
qed

text \<open>An operation on the hub of a gateway does not touch the session.\<close>

lemma hub_only:
  "abs_gw (g\<lparr>g_hub := h, g_metrics := m\<rparr>) = abs_gw g"
  "session_ok (g\<lparr>g_hub := h, g_metrics := m\<rparr>) = session_ok g"
  by (simp_all add: abs_gw_def link_of_def session_ok_def split: option.split)

text \<open>The client that a join adds, seen through the whole handler.\<close>

definition client_of :: "nat \<Rightarrow> router \<Rightarrow> client" where
  "client_of c r = h_heap (g_hub (ro_gw r)) c"

definition clients_of :: "router \<Rightarrow> nat set" where
  "clients_of r = set (h_clients (g_hub (ro_gw r)))"

lemma conn_fold [simp]: "cl_conn (h_heap (fst (fold (offer e) cs s)) d) = cl_conn (h_heap (fst s) d)"
proof -
  have "cl_conn (h_heap (fst (offer e c s)) d) = cl_conn (h_heap (fst s) d)" for c s
    by (cases s) (simp add: offer_def Remove_def)
  then show ?thesis by (induction cs arbitrary: s) simp_all
qed

lemma join_hub:
  assumes ok: "gw_ok g"
    and add: "hub_add conn g = (c, g1)" and build: "BuildStatusEvent now g1 = (e, g2)" and cast: "g3 = hub_broadcast e g2"
  shows "e = status_event now (abs_gw g)" "gw_ok g3" "abs_gw g3 = abs_gw g"
    "c \<notin> set (h_clients (g_hub g))" "c \<in> set (h_clients (g_hub g3))"
    "h_heap (g_hub g3) c = \<lparr>cl_conn = conn, cl_send = [e], cl_closed = False\<rparr>"
proof -
  have h: "hub_ok (g_hub g, g_metrics g)" and s: "session_ok g" using ok by (simp_all add: gw_ok_def)
  obtain h1 m1 where a: "Add conn (g_hub g, g_metrics g) = (c, (h1, m1))" and g1: "g1 = g\<lparr>g_hub := h1, g_metrics := m1\<rparr>"
    using add by (auto simp: hub_add_def split: prod.splits)
  have h1: "hub_ok (h1, m1)" using hub_ok_Add [OF h, of conn] by (simp add: a)
  have ok1: "gw_ok g1" using h1 s by (simp add: gw_ok_def g1 hub_only)
  have new: "c \<in> set (h_clients h1)" "h_heap h1 c = \<lparr>cl_conn = conn, cl_send = [], cl_closed = False\<rparr>"
    "c \<notin> set (h_clients (g_hub g))"
    using a h by (auto simp: Add_def Let_def hub_ok_def)
  note B = build_status [OF ok1 build]
  show "e = status_event now (abs_gw g)" using B(1) by (simp add: g1 hub_only)
  obtain h3 m3 where b: "Broadcast e (h1, m1) = (h3, m3)" by (rule prod.exhaust)
  have g3: "g3 = g2\<lparr>g_hub := h3, g_metrics := m3\<rparr>" by (simp add: cast hub_broadcast_def B(4,5) g1 b)
  have d: "distinct (h_clients (fst (h1, m1)))" using h1 by (simp add: hub_ok_def)
  have f: "(h3, m3) = fold (offer e) (h_clients (fst (h1, m1))) (h1, m1)" using b by (simp add: Broadcast_def)
  note F = fold_offer [OF h1 d subset_refl f]
  show "gw_ok g3" using F B(2) by (simp add: gw_ok_def g3 hub_only)
  show "abs_gw g3 = abs_gw g" using B(3) by (simp add: g3 g1 hub_only)
  show "c \<notin> set (h_clients (g_hub g))" by (rule new)
  have "c \<in> set (h_clients h3)" "cl_send (h_heap h3 c) = [e]"
    using F new by (auto simp: send_capacity_def)
  moreover have "cl_conn (h_heap h3 c) = conn"
    using arg_cong [OF b, of "\<lambda>s. cl_conn (h_heap (fst s) c)"] new by (simp add: Broadcast_def conn_fold)
  moreover have "\<not> cl_closed (h_heap h3 c)" using F \<open>c \<in> set (h_clients h3)\<close> by (simp add: hub_ok_def)
  ultimately show "c \<in> set (h_clients (g_hub g3))" "h_heap (g_hub g3) c = \<lparr>cl_conn = conn, cl_send = [e], cl_closed = False\<rparr>"
    by (simp_all add: g3)
qed

lemma leave_hub:
  assumes "gw_ok g" "c \<in> set (h_clients (g_hub g))"
  shows "gw_ok (hub_remove c g)" "c \<notin> set (h_clients (g_hub (hub_remove c g)))"
    "cl_conn (h_heap (g_hub g) c) \<in> set (h_closed_conns (g_hub (hub_remove c g)))"
proof -
  obtain h m where r: "Remove c (g_hub g, g_metrics g) = (h, m)" by (rule prod.exhaust)
  have g: "hub_remove c g = g\<lparr>g_hub := h, g_metrics := m\<rparr>" by (simp add: hub_remove_def r)
  have "hub_ok (h, m)" using hub_ok_Remove [of "(g_hub g, g_metrics g)" c] assms(1) by (simp add: gw_ok_def r)
  then show "gw_ok (hub_remove c g)" using assms(1) by (simp add: gw_ok_def g hub_only)
  show "c \<notin> set (h_clients (g_hub (hub_remove c g)))"
    "cl_conn (h_heap (g_hub g) c) \<in> set (h_closed_conns (g_hub (hub_remove c g)))"
    using r assms(2) by (auto simp: Remove_def g)
qed

lemma close_browser_ok [simp]:
  "gw_ok (close_browser conn g) = gw_ok g" "abs_gw (close_browser conn g) = abs_gw g"
  "set (h_clients (g_hub (close_browser conn g))) = set (h_clients (g_hub g))"
  by (simp_all add: gw_ok_def close_browser_def hub_ok_def abs_gw_def link_of_def session_ok_def split: option.split)

definition asks_upgrade :: "(str \<Rightarrow> str) \<Rightarrow> bool" where
  "asks_upgrade header \<longleftrightarrow> headerContainsToken header ''Connection'' ''upgrade''
     \<and> headerContainsToken header ''Upgrade'' ''websocket'' \<and> trim_space (header (lit ''Sec-WebSocket-Key'')) \<noteq> []"

text \<open>The handler by itself: what it refuses, and the client of a browser that joins and leaves.\<close>

lemma browser_joins:
  assumes "gw_ok (ro_gw r)" and "text_ok ctx" "ctx \<noteq> []"
    and "handleTerminalWS i a ctx header r = (outcome, r1)"
  shows "gw_ok (ro_gw r1) \<and> abs_gw (ro_gw r1) = abs_gw (ro_gw r)
    \<and> (case outcome of
         Refused p \<Rightarrow> ro_gw r1 = ro_gw r
           \<and> read_answer p = (if asks_upgrade header then error_answer 500 ''INTERNAL_ERROR'' else error_answer 400 ''INVALID_REQUEST'')
           \<and> (asks_upgrade header \<longrightarrow> \<not> wa_hijacker a)
       | NoAnswer \<Rightarrow> asks_upgrade header \<and> (wa_hijack_fails a \<or> wa_write_fails a) \<and> clients_of r1 = clients_of r
       | Upgraded p c \<Rightarrow> asks_upgrade header \<and> wa_hijacker a \<and> \<not> wa_hijack_fails a \<and> \<not> wa_write_fails a
           \<and> p = upgrade_response (trim_space (header (lit ''Sec-WebSocket-Key'')))
           \<and> c \<notin> clients_of r \<and> c \<in> clients_of r1
           \<and> client_of c r1 = \<lparr>cl_conn = wa_conn a, cl_send = [status_event (in_now i) (abs_gw (ro_gw r))], cl_closed = False\<rparr>
           \<and> gw_ok (ro_gw (ws_done c r1)) \<and> c \<notin> clients_of (ws_done c r1)
           \<and> wa_conn a \<in> set (h_closed_conns (g_hub (ro_gw (ws_done c r1)))))"
proof -
  let ?key = "trim_space (header (lit ''Sec-WebSocket-Key''))"
  have refused: "read_answer (writeError t status ctx code message []) = error_answer status code" for t status code message
    by (rule read_error) (simp_all add: assms(2))
  note D = handleTerminalWS_def requestID_ctx [OF assms(3)] asks_upgrade_def
  show ?thesis
  proof (cases "asks_upgrade header \<and> wa_hijacker a \<and> \<not> wa_hijack_fails a \<and> \<not> wa_write_fails a")
    case False
    with assms(1,4) refused show ?thesis
      by (auto simp: D Let_def clients_of_def split: if_splits)
  next
    case True
    obtain c g1 where j1: "hub_add (wa_conn a) (ro_gw r) = (c, g1)" by (rule prod.exhaust)
    obtain e g2 where j2: "BuildStatusEvent (in_now i) g1 = (e, g2)" by (rule prod.exhaust)
    have out: "outcome = Upgraded (upgrade_response ?key) c" "r1 = r\<lparr>ro_gw := hub_broadcast e g2\<rparr>"
      using assms(4) True j1 j2 by (auto simp: D Let_def)
    note J = join_hub [OF assms(1) j1 j2 refl]
    from leave_hub [OF J(2,5)] J True out show ?thesis
      by (simp add: ws_done_def clients_of_def client_of_def)
  qed
qed

text \<open>
  C11. How a browser joins and leaves. A request for the terminal, behind the request log, is refused
  exactly when its headers do not ask for a WebSocket with a key, with 400. When the connection cannot be taken
  over, or the upgrade response not be written, the handler gives no answer and the clients stay as
  they were; the answer 500 of the handler for a writer that is no \<open>http.Hijacker\<close> is never given, since
  the recorder is one, and the log then shows status 200. Otherwise the response carries the accept key,
  and the hub has one new client on that connection, whose channel holds exactly the status of the
  session: connected or not, the pending commands, the limit; the log shows 101. Nothing of this touches the
  session; when the browser leaves, its client is gone and its connection closed.
\<close>

theorem browser_served:
  assumes "gw_ok (ro_gw r)" and "serve_terminal i a m path header r = (outcome, entry, r1)"
  shows "gw_ok (ro_gw r1) \<and> abs_gw (ro_gw r1) = abs_gw (ro_gw r)
    \<and> lg_request_id entry = fst (nextRequestID (in_id_time i) r) \<and> (lg_info entry \<longleftrightarrow> lg_status entry = 400)
    \<and> (case outcome of
         Refused p \<Rightarrow> \<not> asks_upgrade header \<and> ro_gw r1 = ro_gw r \<and> lg_status entry = 400
           \<and> read_answer p = error_answer 400 ''INVALID_REQUEST''
       | NoAnswer \<Rightarrow> asks_upgrade header \<and> clients_of r1 = clients_of r \<and> lg_status entry = (if wa_hijacker a then 101 else 200)
           \<and> (\<not> wa_hijacker a \<or> wa_hijack_fails a \<or> wa_write_fails a)
       | Upgraded p c \<Rightarrow> asks_upgrade header \<and> wa_hijacker a \<and> \<not> wa_hijack_fails a \<and> \<not> wa_write_fails a
           \<and> p = upgrade_response (trim_space (header (lit ''Sec-WebSocket-Key''))) \<and> lg_status entry = 101
           \<and> c \<notin> clients_of r \<and> c \<in> clients_of r1
           \<and> client_of c r1 = \<lparr>cl_conn = wa_conn a, cl_send = [status_event (in_now i) (abs_gw (ro_gw r))], cl_closed = False\<rparr>
           \<and> gw_ok (ro_gw (ws_done c r1)) \<and> c \<notin> clients_of (ws_done c r1)
           \<and> wa_conn a \<in> set (h_closed_conns (g_hub (ro_gw (ws_done c r1)))))"
proof -
  obtain rid r0 where n: "nextRequestID (in_id_time i) r = (rid, r0)" by (rule prod.exhaust)
  have h: "handleTerminalWS i (recorder_answers a) rid header r0 = (outcome, r1)"
    and e: "entry = request_log rid m path (fold record_call (ws_calls a outcome) newStatusRecorder)"
    using assms(2) by (auto simp: serve_terminal_def n Let_def split: prod.splits)
  have g: "ro_gw r0 = ro_gw r" using next_gw [OF n] .
  have rid: "text_ok rid" "rid \<noteq> []" using nextRequestID_ok [OF n] by simp_all
  note J = browser_joins [OF _ rid h] assms(1)
  have L: "lg_request_id entry = rid" "lg_info entry \<longleftrightarrow> 400 \<le> lg_status entry"
    by (simp_all add: e request_log_def Let_def)
  have S: "lg_status entry = (case outcome of Refused p \<Rightarrow> if rs_status p = 0 then 200 else rs_status p
      | _ \<Rightarrow> if wa_hijacker a then 101 else 200)"
    by (simp add: e ws_calls_def request_log_def writer_calls_def newStatusRecorder_def logged_status_def Let_def
        split: ws_outcome.split)
  show ?thesis
  proof (cases outcome)
    case (Refused p)
    with J have p: "\<not> asks_upgrade header" "read_answer p = error_answer 400 ''INVALID_REQUEST''"
      by (auto simp: g recorder_answers_def)
    then have "rs_status p = 400" by (simp add: read_answer_def error_answer_def Let_def)
    with p Refused J show ?thesis by (simp add: g n L S)
  qed (use J in \<open>simp_all add: g n L S recorder_answers_def clients_of_def\<close>)
qed

definition demo_header :: "str \<Rightarrow> str" where
  "demo_header = (\<lambda>_. [])(lit ''Connection'' := lit ''keep-alive, Upgrade'', lit ''Upgrade'' := lit ''websocket'',
     lit ''Sec-WebSocket-Key'' := lit ''x'')"

definition demo_ws :: ws_answers where
  "demo_ws = \<lparr>wa_hijacker = True, wa_hijack_fails = False, wa_write_fails = False, wa_conn = 7\<rparr>"

theorem browser_served_witness:
  "\<exists>p c entry r1. serve_terminal demo_env demo_ws (lit ''GET'') (lit ''/api/v0/ws/terminal'') demo_header
      (NewRouter db_opens empty_database (Load (\<lambda>_ _ _. 0) (\<lambda>_. []))) = (Upgraded p c, entry, r1)
    \<and> length (cl_send (client_of c r1)) = 1 \<and> lg_status entry = 101"
proof -
  let ?r = "NewRouter db_opens empty_database (Load (\<lambda>_ _ _. 0) (\<lambda>_. []))"
  have ok: "gw_ok (ro_gw ?r)" by (simp add: NewRouter_def Load_def gw_ok_New)
  obtain outcome entry r1 where h: "serve_terminal demo_env demo_ws (lit ''GET'') (lit ''/api/v0/ws/terminal'')
      demo_header ?r = (outcome, entry, r1)"
    by (metis prod_cases3)
  have asks: "asks_upgrade demo_header" unfolding asks_upgrade_def demo_header_def by code_simp
  from browser_served [OF ok h] asks show ?thesis
    unfolding h by (cases outcome) (auto simp: demo_ws_def)
qed

end
