(* ===== verification/TextSpec.thy ===== *)
theory TextSpec
  imports ApiSpec StoreSpec SuggestionSpec
begin

text \<open>
  The texts that reach the state and the suggestions are Unicode: what is decoded from the game server,
  what the parser finds in it, what the stores keep and give back, and what a suggestion holds. The
  collection \<open>texts\<close> has the facts, one per operation.
\<close>

named_theorems texts

declare lit.simps [simp del]

subsection \<open>Parts of a text\<close>

lemma text_ok_part: "set t \<subseteq> set s \<Longrightarrow> text_ok s \<Longrightarrow> text_ok t"
  by (auto simp: text_ok_def)

lemma part_texts [texts]:
  assumes "text_ok s"
  shows "text_ok (trim_space s)" "text_ok (take n s)" "text_ok (drop n s)"
  using assms set_trim_space [of s] set_take_subset [of n s] set_drop_subset [of n s] by (blast intro: text_ok_part)+

lemma split_texts [texts]: "text_ok s \<Longrightarrow> p \<in> set (split_on c s) \<Longrightarrow> text_ok p"
  using split_on_set by (blast intro: text_ok_part)

lemma split_n2_texts: "text_ok s \<Longrightarrow> split_n2 c s = [a, b] \<Longrightarrow> text_ok b"
  using text_ok_drop [OF text_ok_dropWhile, of s 1] by (auto simp: split_n2_def drop_Suc split: if_splits)

lemma replace_texts [texts]: "text_ok s \<Longrightarrow> text_ok new \<Longrightarrow> text_ok (replace_all old new s)"
  using replace_all_set by (fastforce simp: text_ok_def)

lemma delete_all_set: "set (delete_all re s) \<subseteq> set s"
proof (induction re s rule: delete_all.induct)
  case (1 re s)
  show ?case
  proof (cases s)
    case (Cons c t)
    have rest: "set rest \<subseteq> set s" if "match_here re s = Some (caps, rest)" for caps rest
      using match_here_sound [OF that] by auto
    show ?thesis
    proof (cases "match_here re s")
      case None
      with 1(1) [OF Cons] Cons show ?thesis by (auto simp: delete_all.simps [of re "c # t"])
    next
      case (Some m)
      obtain caps rest where m: "m = (caps, rest)" by (rule prod.exhaust)
      with Some have r: "set rest \<subseteq> set s" using rest by simp
      from 1(2) [OF Cons Some m [symmetric]] 1(3) [OF Cons Some m [symmetric]] r show ?thesis
        unfolding Cons by (subst delete_all.simps) (auto simp: Some [unfolded Cons m])
    qed
  qed simp
qed

lemma delete_texts [texts]: "text_ok s \<Longrightarrow> text_ok (delete_all re s)"
  using delete_all_set by (rule text_ok_part)

subsection \<open>Decoding\<close>

text \<open>What is assumed of the code page decoder: its runes are Unicode.\<close>

definition decodes_text :: "(byte list \<Rightarrow> str option) \<Rightarrow> bool" where
  "decodes_text dec \<longleftrightarrow> (\<forall>bs s. dec bs = Some s \<longrightarrow> text_ok s)"

lemma decoded_scalar:
  assumes "second_ok b0 b1" "194 \<le> b0"
  shows "b0 < 224 \<Longrightarrow> scalar ((b0 - 192) * 64 + (b1 - 128))"
    "\<lbrakk>224 \<le> b0; b0 < 240; cont b2\<rbrakk> \<Longrightarrow> scalar ((b0 - 224) * 4096 + (b1 - 128) * 64 + (b2 - 128))"
    "\<lbrakk>240 \<le> b0; b0 \<le> 244; cont b2; cont b3\<rbrakk> \<Longrightarrow>
       scalar ((b0 - 240) * 262144 + (b1 - 128) * 4096 + (b2 - 128) * 64 + (b3 - 128))"
proof -
  have b1: "128 \<le> b1" "b1 \<le> 191" "b0 = 224 \<longrightarrow> 160 \<le> b1" "b0 = 237 \<longrightarrow> b1 \<le> 159" "b0 = 240 \<longrightarrow> 144 \<le> b1"
    "b0 = 244 \<longrightarrow> b1 \<le> 143"
    using assms(1) by (simp_all add: second_ok_def cont_def)
  show "b0 < 224 \<Longrightarrow> scalar ((b0 - 192) * 64 + (b1 - 128))"
    using b1(1,2) assms(2) by (simp add: scalar_def)
  show "scalar ((b0 - 224) * 4096 + (b1 - 128) * 64 + (b2 - 128))" if "224 \<le> b0" "b0 < 240" "cont b2"
  proof -
    consider "b0 \<le> 236" | "b0 = 237" | "238 \<le> b0" by linarith
    then show ?thesis using that b1(1,2,4) by cases (simp_all add: scalar_def cont_def)
  qed
  show "scalar ((b0 - 240) * 262144 + (b1 - 128) * 4096 + (b2 - 128) * 64 + (b3 - 128))"
    if c: "240 \<le> b0" "b0 \<le> 244" "cont b2" "cont b3"
  proof -
    consider "b0 = 240" | "241 \<le> b0" "b0 \<le> 243" | "b0 = 244" using c(1,2) by linarith
    then show ?thesis using c(3,4) b1(1,2,5,6) by cases (simp_all add: scalar_def cont_def)
  qed
qed

lemma decode_rune_scalar:
  assumes "\<forall>b \<in> set bs. 0 \<le> b \<and> b < 256"
  shows "scalar (fst (decode_rune bs))"
proof -
  have e: "scalar rune_error" by (simp add: scalar_def rune_error_def)
  show ?thesis
  proof (cases bs)
    case (Cons b0 t0)
    show ?thesis
    proof (cases "b0 < 128")
      case True
      with Cons assms show ?thesis by (simp add: decode_rune_def scalar_def)
    next
      case False
      with Cons e show ?thesis
        by (auto simp: decode_rune_def not_less not_le decoded_scalar [simplified] split: list.split)
    qed
  qed (simp add: decode_rune_def e)
qed

lemma decode_utf8_text [texts]: "text_ok (decode_utf8 bs)"
proof -
  have "\<forall>b \<in> set bs. 0 \<le> b \<and> b < 256 \<Longrightarrow> text_ok (decode_ints bs)" for bs
  proof (induction bs rule: decode_ints.induct)
    case (1 bs)
    then show ?case
      by (subst decode_ints.simps) (auto simp: decode_rune_scalar dest: in_set_dropD)
  qed
  moreover have "\<forall>b \<in> set (map uint (bs :: byte list)). 0 \<le> b \<and> b < 256"
    using uint_lt2p [where 'a = 8] by auto
  ultimately show ?thesis by (simp add: decode_utf8_def)
qed

lemma ya_map_text: "text_ok s \<Longrightarrow> text_ok (ya_map p s)"
  by (induction s arbitrary: p) (auto simp: ya_out_def scalar_def Ya_lower_def)

lemma Decode_text: "decodes_text dec \<Longrightarrow> text_ok (Decode dec bs)"
  by (auto simp: Decode_def decodes_text_def decode_utf8_text fix_eq_map scalar_def
      intro!: ya_map_text replace_texts split: option.split)

subsection \<open>What the parser finds\<close>

text \<open>An order of the aliases holds slots of the table.\<close>

definition real_orders :: "(nat \<Rightarrow> alias_order) \<Rightarrow> bool" where
  "real_orders orders \<longleftrightarrow> (\<forall>k. set (orders k) \<subseteq> set equipmentAliases)"

definition equipment_texts :: "equipment \<Rightarrow> bool" where
  "equipment_texts e \<longleftrightarrow> finite (dom e) \<and> (\<forall>slot item. e slot = Some item \<longrightarrow> text_ok slot \<and> text_ok item)"

definition delta_texts :: "delta \<Rightarrow> bool" where
  "delta_texts d \<longleftrightarrow> text_ok (d_Location d) \<and> (\<forall>t \<in> set (d_StatusTags d). text_ok t) \<and> equipment_texts (d_Equipment d)"

lemma slot_texts: "(slot, aliases) \<in> set equipmentAliases \<Longrightarrow> text_ok slot"
  by (auto simp: equipmentAliases_def)

lemma normalized_slot_text: "set order \<subseteq> set equipmentAliases \<Longrightarrow> text_ok (normalizeEquipmentSlot order label)"
  by (induction order label rule: normalizeEquipmentSlot.induct) (auto dest: slot_texts)

lemma equipment_line_text: "text_ok l \<Longrightarrow> parseEquipmentLine l = Some (label, item) \<Longrightarrow> text_ok item"
  by (auto simp: parseEquipmentLine_def Let_def intro!: part_texts split_n2_texts [of "trim_space l"]
      split: if_splits option.splits list.splits)

lemma equipment_texts_upd: "equipment_texts e \<Longrightarrow> text_ok slot \<Longrightarrow> text_ok item \<Longrightarrow> equipment_texts (e(slot \<mapsto> item))"
  by (simp add: equipment_texts_def)

lemma equipment_texts_empty [simp]: "equipment_texts Map.empty"
  by (simp add: equipment_texts_def)

lemma equip_lines_texts:
  "real_orders orders \<Longrightarrow> \<forall>l \<in> set lines. text_ok l \<Longrightarrow> equipment_texts e \<Longrightarrow> equipment_texts (equip_lines orders lines e)"
proof (induction orders lines e rule: equip_lines.induct)
  case (2 orders line lines e)
  have o: "real_orders (\<lambda>i. orders (Suc i))" "set (orders 0) \<subseteq> set equipmentAliases"
    using 2(2) by (simp_all add: real_orders_def)
  have l: "text_ok line" "\<forall>l \<in> set lines. text_ok l" using 2(3) by simp_all
  show ?case
    using 2(1) o l 2(4) equipment_line_text [OF l(1)] normalized_slot_text [OF o(2)]
    by (auto simp: Let_def equipment_texts_upd split: option.split)
qed simp

lemma location_text: "\<forall>l \<in> set lines. text_ok l \<Longrightarrow> text_ok (location_of lines)"
  by (induction lines) (auto simp: Let_def intro: part_texts)

lemma Parse_texts:
  assumes "text_ok s" "real_orders orders"
  shows "delta_texts (Parse orders s)"
proof -
  let ?c = "normalizeText s"
  have c: "text_ok ?c"
    unfolding normalizeText_def by (intro replace_texts delete_texts assms(1)) (simp add: scalar_def)
  then have lines: "\<forall>l \<in> set (split_on 10 ?c). text_ok l" using split_texts by blast
  have "equipment_texts (parseEquipment orders ?c)"
    unfolding parseEquipment_def by (rule equip_lines_texts [OF assms(2) lines]) simp
  moreover have "text_ok (parseLocation ?c)"
    unfolding parseLocation_def by (rule location_text [OF lines])
  moreover have "\<forall>t \<in> set (parseStatusTags ?c). text_ok t" using tags_known known_text by blast
  ultimately show ?thesis by (simp add: delta_texts_def Parse_def no_delta_def Let_def)
qed

subsection \<open>What the stores keep\<close>

definition snapshot_texts :: "snapshot \<Rightarrow> bool" where
  "snapshot_texts s \<longleftrightarrow> text_ok (sn_Location s) \<and> (\<forall>t \<in> set (sn_StatusTags s). text_ok t) \<and> text_ok (sn_UpdatedAt s)
     \<and> equipment_texts (sn_Equipment s)"

text \<open>Rows as the gateway writes them, with their equipment.\<close>

definition row_texts :: "snap_row \<Rightarrow> bool" where
  "row_texts r \<longleftrightarrow> text_ok (r_location r) \<and> text_ok (r_updated_at r)
     \<and> (\<exists>tags. r_status_tags_json r = tags_json tags \<and> (\<forall>t \<in> set tags. text_ok t))"

definition slots_of :: "tables \<Rightarrow> str \<Rightarrow> equipment" where
  "slots_of t sid = (\<lambda>slot. map_option fst (t_equipment t (sid, slot)))"

definition tables_texts :: "tables \<Rightarrow> bool" where
  "tables_texts t \<longleftrightarrow> (\<forall>sid r. t_snapshot t sid = Some r \<longrightarrow> row_texts r) \<and> (\<forall>sid. equipment_texts (slots_of t sid))"

definition state_texts :: "tables + memory_store \<Rightarrow> bool" where
  "state_texts s = (case s of Inl t \<Rightarrow> tables_texts t | Inr m \<Rightarrow> (\<forall>v. m = Some v \<longrightarrow> snapshot_texts v))"

lemma new_snapshot_texts [simp]: "snapshot_texts (new_snapshot sid)"
  by (simp add: snapshot_texts_def new_snapshot_def)

lemma equipment_texts_add: "equipment_texts e \<Longrightarrow> equipment_texts f \<Longrightarrow> equipment_texts (e ++ f)"
  by (auto simp: equipment_texts_def map_add_Some_iff)

lemma merge_texts: "snapshot_texts s \<Longrightarrow> delta_texts d \<Longrightarrow> snapshot_texts (mergeSnapshot s d)"
  by (auto simp: snapshot_texts_def delta_texts_def intro: equipment_texts_add)

lemma snapshot_texts_frame [simp]:
  "snapshot_texts (s\<lparr>sn_SessionID := sid\<rparr>) = snapshot_texts s"
  "snapshot_texts s \<Longrightarrow> text_ok u \<Longrightarrow> snapshot_texts (s\<lparr>sn_UpdatedAt := u\<rparr>)"
  by (simp_all add: snapshot_texts_def)

lemma GetBySession_texts:
  assumes "tables_texts t" "GetBySession a sid t = Inr (Some s)"
  shows "snapshot_texts s"
proof -
  obtain r tags where r: "t_snapshot t sid = Some r" "sn_Location s = r_location r" "sn_StatusTags s = tags"
      "sn_UpdatedAt s = r_updated_at r" "sn_Equipment s = slots_of t sid"
      "tags = [] \<or> read_tags (r_status_tags_json r) = Some tags"
    using assms(2) by (auto simp: GetBySession_def loadEquipment_def slots_of_def split: option.splits sum.splits if_splits)
  then have "row_texts r" using assms(1) by (auto simp: tables_texts_def)
  then have "text_ok (r_location r)" "text_ok (r_updated_at r)" "\<forall>t \<in> set tags. text_ok t"
    using r(6) tags_round by (auto simp: row_texts_def)
  with r assms(1) show ?thesis by (simp add: snapshot_texts_def tables_texts_def)
qed

lemma snapshot_row_texts: "snapshot_texts s \<Longrightarrow> row_texts (snapshot_row s)"
  by (auto simp: snapshot_texts_def row_texts_def snapshot_row_def)

lemma upsertSnapshot_texts:
  "tables_texts t \<Longrightarrow> snapshot_texts s \<Longrightarrow> tables_texts (snd (upsertSnapshot a s t))"
  using snapshot_row_texts by (auto simp: upsertSnapshot_def tables_texts_def slots_of_def split: option.split)

lemma slots_of_upd:
  "slots_of (t\<lparr>t_equipment := (t_equipment t)((sid, slot) \<mapsto> (item, u))\<rparr>) sid1 =
     (if sid1 = sid then (slots_of t sid)(slot \<mapsto> item) else slots_of t sid1)"
  by (auto simp: slots_of_def)

lemma equipment_tx_texts:
  "equipment_tx a sid e u slots t = Inr t1 \<Longrightarrow> equipment_texts e \<Longrightarrow> tables_texts t \<Longrightarrow> tables_texts t1"
proof (induction a sid e u slots t rule: equipment_tx.induct)
  case (2 a sid e u slot slots t)
  have "tables_texts (t\<lparr>t_equipment := (t_equipment t)((sid, slot) \<mapsto> (item, u))\<rparr>)" if "e slot = Some item" for item
    using that 2(4,5) by (auto simp: tables_texts_def slots_of_upd equipment_texts_def)
  with 2 show ?case by (auto split: option.splits)
qed simp

lemma upsertEquipment_texts:
  "tables_texts t \<Longrightarrow> equipment_texts e \<Longrightarrow> tables_texts (snd (upsertEquipment a sid e u t))"
  using equipment_tx_texts by (auto simp: upsertEquipment_def split: option.split sum.split)

lemma UpsertDelta_texts:
  assumes "tables_texts t" "delta_texts d" "UpsertDelta a now sid d t = (err, t1)"
  shows "tables_texts t1"
proof (cases "sid = [] \<or> Empty d")
  case False
  show ?thesis
  proof (cases "GetBySession a sid t")
    case (Inr found)
    let ?s = "(mergeSnapshot (case found of None \<Rightarrow> new_snapshot sid | Some s \<Rightarrow> s) d)
      \<lparr>sn_SessionID := sid, sn_UpdatedAt := rfc3339nano now\<rparr>"
    have s: "snapshot_texts ?s"
      using GetBySession_texts [OF assms(1)] Inr assms(2) by (auto simp: merge_texts split: option.split)
    obtain e t2 where u: "upsertSnapshot a ?s t = (e, t2)" by (rule prod.exhaust)
    have t2: "tables_texts t2" using upsertSnapshot_texts [OF assms(1) s, of a] by (simp add: u)
    have "equipment_texts (sn_Equipment ?s)" using s unfolding snapshot_texts_def by blast
    from upsertEquipment_texts [OF t2 this, of a sid "rfc3339nano now"] assms(3) False t2 show ?thesis
      by (simp add: UpsertDelta_def Inr Let_def u split: option.splits)
  qed (use False assms in \<open>simp add: UpsertDelta_def\<close>)
qed (use assms in \<open>auto simp: UpsertDelta_def\<close>)

lemma Ingest_texts:
  assumes "state_texts s" "text_ok u" "real_orders orders"
  shows "state_texts (snd (Ingest (router_UpsertDelta a now) orders sid u s))"
proof -
  note d = Parse_texts [OF assms(2,3)]
  show ?thesis
  proof (cases s)
    case (Inl t)
    with assms(1) d show ?thesis
      by (auto simp: state_texts_def Ingest_def router_UpsertDelta_def Let_def UpsertDelta_texts split: prod.split)
  next
    case (Inr m)
    with assms(1) d show ?thesis
      by (auto simp: state_texts_def Ingest_def router_UpsertDelta_def memory_UpsertDelta_def Let_def merge_texts
          split: option.split)
  qed
qed

lemma latest_texts: "state_texts s \<Longrightarrow> router_GetLatest i s = Inr (Some v) \<Longrightarrow> snapshot_texts v"
  by (auto simp: state_texts_def router_GetLatest_def GetLatest_def memory_GetLatest_def GetBySession_texts
      split: sum.splits option.splits)

text \<open>A database that is new or was written by the gateway.\<close>

definition file_texts :: "database \<Rightarrow> bool" where
  "file_texts file = tables_texts \<lparr>t_snapshot = if_missing (db_snapshot file), t_equipment = if_missing (db_equipment file)\<rparr>"

lemma file_texts_empty: "file_texts empty_database"
  by (simp add: file_texts_def tables_texts_def empty_database_def if_missing_def slots_of_def)

lemma NewService_texts: "file_texts file \<Longrightarrow> state_texts (NewService a path file)"
  using file_texts_empty
  by (auto simp: NewService_def NewSQLiteStore_def init_schema_def state_texts_def file_texts_def Let_def
      split: option.split)

subsection \<open>What a suggestion holds\<close>

definition parsed_texts :: "suggestion \<Rightarrow> bool" where
  "parsed_texts p \<longleftrightarrow> (\<forall>c \<in> set (sg_Commands p). text_ok c) \<and> text_ok (sg_Reason p)
     \<and> text_ok (sg_ExpectedOutcome p) \<and> text_ok (sg_GeneratedAt p)"

definition suggestion_texts :: "service \<Rightarrow> bool" where
  "suggestion_texts s \<longleftrightarrow> text_ok (su_lastError s) \<and> parsed_texts (su_latest s)"

lemma over_texts_ok:
  "over_texts old vs = Some cs \<Longrightarrow> \<forall>v \<in> set vs. json_ok v \<Longrightarrow> \<forall>c \<in> set old. text_ok c \<Longrightarrow> \<forall>c \<in> set cs. text_ok c"
proof (induction old vs arbitrary: cs rule: over_texts.induct)
  case (2 old v vs)
  let ?o = "case old of [] \<Rightarrow> [] | x # _ \<Rightarrow> x"
  obtain c ds where c: "over_text ?o v = Some c" "over_texts (tl old) vs = Some ds" "cs = c # ds"
    using 2(2) by (auto split: option.splits)
  have "text_ok ?o \<and> (\<forall>c \<in> set (tl old). text_ok c)" using 2(4) by (cases old) simp_all
  with 2(1) [OF c(1,2)] 2(3) c over_text_ok [OF c(1)] show ?case by simp
qed simp

lemma set_field_ok: "keeps set_field parsed_texts"
  by (auto simp: keeps_def set_field_def parsed_texts_def split: if_splits json.splits
      dest: over_text_ok over_texts_ok)

lemma set_fields_members: "set_fields ms s = decode_members set_field ms s"
  by (induction ms s rule: set_fields.induct) (auto split: option.split)

lemma no_suggestion_texts [simp]: "parsed_texts no_suggestion"
  by (simp add: parsed_texts_def no_suggestion_def)

lemma decode_strict_texts:
  assumes "text_ok raw" "\<And>u. text_ok (decode_error u)"
  shows "decode_strict decode_error raw = Inl e \<Longrightarrow> text_ok e"
    "decode_strict decode_error raw = Inr p \<Longrightarrow> parsed_texts p"
proof -
  show "decode_strict decode_error raw = Inl e \<Longrightarrow> text_ok e"
    using assms(2) by (auto simp: decode_strict_def Let_def split: option.splits prod.splits if_splits)
  assume "decode_strict decode_error raw = Inr p"
  then consider rest where "json_decode raw = Some (JNull, rest)" "p = no_suggestion"
    | ms rest where "json_decode raw = Some (JObj ms, rest)" "decode_members set_field ms no_suggestion = Some p"
    by (auto simp: decode_strict_def Let_def set_fields_members split: option.splits prod.splits if_splits json.splits)
  then show "parsed_texts p"
  proof cases
    case (2 ms rest)
    from json_decode_ok [OF 2(1) assms(1)] have "members_ok ms" by simp
    from decode_members_ok [OF set_field_ok 2(2) this] show ?thesis by simp
  qed simp
qed

lemma normalize_texts: "text_ok raw \<Longrightarrow> text_ok (normalizeSuggestionJSON raw)"
  by (simp add: normalizeSuggestionJSON_def Let_def part_texts split: option.split)

lemma parse_texts:
  assumes "text_ok raw" "\<And>u. text_ok (decode_error u)"
  shows "parseSuggestionJSON decode_error raw = Inl e \<Longrightarrow> text_ok e"
    "parseSuggestionJSON decode_error raw = Inr p \<Longrightarrow> parsed_texts p"
proof -
  note d = decode_strict_texts [OF normalize_texts [OF assms(1)] assms(2)]
  show "parseSuggestionJSON decode_error raw = Inl e \<Longrightarrow> text_ok e"
    using d(1) by (auto simp: parseSuggestionJSON_def Let_def scalar_def split: sum.splits option.splits if_splits)
  show "parseSuggestionJSON decode_error raw = Inr p \<Longrightarrow> parsed_texts p"
    using d(2) by (auto simp: parseSuggestionJSON_def Let_def parsed_texts_def part_texts
        split: sum.splits option.splits if_splits)
qed

lemma setLastError_texts: "text_ok e \<Longrightarrow> suggestion_texts s \<Longrightarrow> suggestion_texts (setLastError e now s)"
  by (simp add: suggestion_texts_def setLastError_def Let_def part_texts)

lemma finish_request_texts:
  assumes "suggestion_texts s" "\<And>u. text_ok (decode_error u)" "case answer of Inl e \<Rightarrow> text_ok e | Inr raw \<Rightarrow> text_ok raw"
  shows "suggestion_texts (finish_request decode_error sid seq answer now s)"
proof (cases answer)
  case (Inl e)
  with assms show ?thesis by (simp add: finish_request_def setLastError_texts)
next
  case (Inr raw)
  show ?thesis
  proof (cases "parseSuggestionJSON decode_error raw")
    case (Inl e)
    with Inr assms parse_texts(1) [OF _ assms(2) Inl] show ?thesis
      by (simp add: finish_request_def setLastError_texts)
  next
    case p: (Inr p)
    with Inr assms parse_texts(2) [OF _ assms(2) p] show ?thesis
      by (simp add: finish_request_def publish_def suggestion_texts_def parsed_texts_def)
  qed
qed

lemma section_texts [simp]:
  "suggestion_texts (IngestTerminal sid u s) = suggestion_texts s"
  "suggestion_texts (snd (CancelInFlight s)) = suggestion_texts s"
  "suggestion_texts (markInFlight sid seq s) = suggestion_texts s"
  "suggestion_texts (markCompleted sid seq s) = suggestion_texts s"
  "suggestion_texts (s\<lparr>su_timer := timers\<rparr>) = suggestion_texts s"
  "suggestion_texts (NewSuggestions limit)"
  by (simp_all add: suggestion_texts_def IngestTerminal_def CancelInFlight_def markInFlight_def markCompleted_def
      NewSuggestions_def Let_def)

end
