(* ===== verification/ResponseSpec.thy ===== *)
theory ResponseSpec
  imports TextSpec
begin

text \<open>
  The form of every response and of its log entry. Every JSON body parses, and holds data or an error,
  and the id of its request.
\<close>

subsection \<open>Well-formed responses\<close>

definition formed :: "utc \<Rightarrow> str \<Rightarrow> response \<Rightarrow> bool" where
  "formed now rid p \<longleftrightarrow>
     rs_type p = lit ''application/json'' \<and> rs_status p \<in> {200, 400, 409, 429, 500, 502}
   \<and> (\<exists>ms. parse_json (rs_body p) = Some (JObj ms) \<and> get ''meta'' ms = Some (newMeta rid now)
        \<and> (get ''data'' ms \<noteq> None \<longleftrightarrow> rs_status p = 200) \<and> (get ''error'' ms \<noteq> None \<longleftrightarrow> rs_status p \<noteq> 200))"

lemma formed_success [simp]:
  assumes "text_ok rid" "json_ok data"
  shows "formed now rid (writeSuccess now 200 rid data)"
proof -
  have "json_ok (JObj (member ''data'' data @ member ''meta'' (newMeta rid now)))"
    using json_ok_meta [OF assms(1)] assms(2) by simp
  from parse_line [OF this] show ?thesis
    by (simp add: formed_def writeSuccess_def writeJSON_def)
qed

lemma formed_error [simp]:
  assumes "text_ok rid" "members_ok details" "status \<in> {400, 409, 429, 500, 502}"
  shows "formed now rid (writeError now status rid code message details)"
proof -
  have "json_ok (JObj (member ''error'' (error_body code message details) @ member ''meta'' (newMeta rid now)))"
    using json_ok_meta [OF assms(1)] assms(2) by (simp add: error_body_def)
  from parse_line [OF this] show ?thesis
    using assms(3) by (auto simp: formed_def writeError_def writeJSON_def)
qed

lemma status_json_ok [simp]: "text_ok (st_SessionID st) \<Longrightarrow> json_ok (toSessionStatusPayload st)"
  by (simp add: toSessionStatusPayload_def)

lemma enqueue_json_ok [simp]: "json_ok (enqueue_payload st)"
  by (simp add: enqueue_payload_def)

subsection \<open>The session handlers\<close>

context session_manager
begin

lemma session_ids:
  assumes "ok g"
  shows "sm_Connect M host port g = ((st, err), g1) \<Longrightarrow> text_ok (st_SessionID st)"
    "sm_Disconnect M g = ((st, dropped, err), g1) \<Longrightarrow> text_ok (st_SessionID st)"
    "sm_Status M g = (st, g1) \<Longrightarrow> text_ok (st_SessionID st)"
    "sm_Enqueue M command g = ((st, err), g1) \<Longrightarrow> text_ok (st_SessionID st)"
proof -
  have r: "text_ok (st_SessionID st)" if "status_reply b n a e d = reply_of st err dropped" for b n a e d err dropped
    using that by (simp add: reply_fields)
  show "text_ok (st_SessionID st)" if "sm_Connect M host port g = ((st, err), g1)"
  proof (cases dial)
    case (Inl msg)
    with connect_law [OF assms that] show ?thesis by (auto simp: follows_def reply_of_def)
  next
    case (Inr conn)
    with connect_law [OF assms that] show ?thesis by (auto simp: follows_def r split: link.splits dest: r)
  qed
  show "text_ok (st_SessionID st)" if "sm_Disconnect M g = ((st, dropped, err), g1)"
    using disconnect_law [OF assms that] by (auto simp: follows_def split: link.splits dest: r)
  show "text_ok (st_SessionID st)" if "sm_Status M g = (st, g1)"
    using status_law [OF assms that] by (auto simp: follows_def split: link.splits dest: r)
  show "text_ok (st_SessionID st)" if "sm_Enqueue M command g = ((st, err), g1)"
    using enqueue_law [OF assms that] by (auto simp: follows_def split: link.splits if_splits dest: r)
qed

lemma session_replies_formed:
  assumes "ok g" "text_ok rid"
  shows "text_ok body \<Longrightarrow> formed now rid (fst (connect_reply M now rid body g))"
    "formed now rid (fst (disconnect_reply M now rid g))"
    "formed now rid (fst (status_reply_of M now rid g))"
    "formed now rid (fst (enqueue_reply M now rid body g))"
proof -
  note S = session_ids [OF assms(1)]
  show "formed now rid (fst (connect_reply M now rid body g))" if "text_ok body"
    using S(1) assms(2) decode_connect_ok [OF _ that]
    by (auto simp: connect_reply_def Let_def split: option.split prod.split gw_err.split)
  show "formed now rid (fst (disconnect_reply M now rid g))"
    using S(2) assms(2) by (auto simp: disconnect_reply_def Let_def split: option.split prod.split gw_err.split)
  show "formed now rid (fst (status_reply_of M now rid g))"
    using S(3) assms(2) by (auto simp: status_reply_of_def Let_def split: prod.split)
  show "formed now rid (fst (enqueue_reply M now rid body g))"
    using S(4) assms(2) by (auto simp: enqueue_reply_def Let_def split: option.split prod.split gw_err.split)
qed

lemma replies_keep:
  assumes "ok g"
  shows "ok (snd (connect_reply M now rid body g))" "ok (snd (disconnect_reply M now rid g))"
    "ok (snd (status_reply_of M now rid g))" "ok (snd (enqueue_reply M now rid body g))"
  using connect_law [OF assms] disconnect_law [OF assms] status_law [OF assms] enqueue_law [OF assms] assms
  by (auto simp: follows_def connect_reply_def disconnect_reply_def status_reply_of_def enqueue_reply_def Let_def
      split: option.split prod.split)

end

subsection \<open>The other handlers\<close>

text \<open>Unicode texts in what the state and the suggestion endpoints show.\<close>

definition router_texts :: "router \<Rightarrow> bool" where
  "router_texts r \<longleftrightarrow> text_ok (BuildVersion (ro_cfg r)) \<and> text_ok (BuildCommit (ro_cfg r))
     \<and> state_texts (ro_state r) \<and> suggestion_texts (ro_suggestions r)"

lemma snapshot_json_ok: "snapshot_texts s \<Longrightarrow> json_ok (snapshot_json s)"
proof -
  assume t: "snapshot_texts s"
  then have "json_ok (equipment_json (sn_Equipment s))"
    by (auto simp: snapshot_texts_def equipment_texts_def equipment_json_def members_ok_def split: option.split)
  moreover have "json_ok (prompt_json p)" for p by (simp add: prompt_json_def)
  ultimately show ?thesis
    using t by (auto simp: snapshot_texts_def snapshot_json_def split: option.split)
qed

lemma latest_json_ok: "suggestion_texts s \<Longrightarrow> json_ok (latest_json (Suggestion_Status s) (Latest s))"
  by (auto simp: suggestion_texts_def parsed_texts_def latest_json_def Suggestion_Status_def Latest_def Let_def)

lemma handle_formed:
  assumes "gw_ok (ro_gw r)" "router_texts r" "text_ok rid" "rid \<noteq> []"
    and "case req of SessionConnect body \<Rightarrow> text_ok body | _ \<Rightarrow> True"
  shows "formed (in_meta_time i) rid (fst (handle i rid req r))"
proof -
  note F = manager.session_replies_formed [OF assms(1,3)]
  have M: "fst (with_manager reply i rid r) = fst (reply (theManager i) (in_meta_time i) rid (ro_gw r))" for reply
    by (simp add: with_manager_ctx [OF assms(4)] split: prod.split)
  show ?thesis
  proof (cases req)
    case Health
    with assms show ?thesis by (simp add: handleHealth_def requestID_ctx router_texts_def)
  next
    case StateSnapshot
    have "Service_Snapshot (router_GetLatest i) (ro_state r) = Inr (Some s) \<Longrightarrow> json_ok (snapshot_json s)" for s
      using assms(2) latest_texts by (auto simp: router_texts_def Service_Snapshot_def snapshot_json_ok)
    with StateSnapshot assms(3,4) show ?thesis
      by (auto simp: handleStateSnapshot_def requestID_ctx Let_def split: sum.split option.split)
  next
    case SuggestionsLatest
    with assms show ?thesis
      by (simp add: handleSuggestionsLatest_def requestID_ctx router_texts_def latest_json_ok)
  next
    case SuggestionsCancel
    with assms show ?thesis by (simp add: handleSuggestionsCancel_def requestID_ctx split: prod.split)
  qed (use assms(5) F in \<open>simp_all add: handleSessionStatus_def handleSessionConnect_def
      handleSessionDisconnect_def handleEnqueueCommand_def M\<close>)
qed

lemma logged_response:
  "request_log rid m path (fold record_call (writer_calls p) newStatusRecorder) =
    \<lparr>lg_info = (400 \<le> (if rs_status p = 0 then 200 else rs_status p)), lg_request_id = rid, lg_method = m, lg_path = path,
     lg_status = (if rs_status p = 0 then 200 else rs_status p), lg_bytes = int (utf8_len (rs_body p))\<rparr>"
  by (simp add: request_log_def writer_calls_def newStatusRecorder_def logged_status_def Let_def)

text \<open>The response to a request and the entry in the log.\<close>

lemma response_shape:
  assumes "gw_ok (ro_gw r)" and "router_texts r" and "case req of SessionConnect body \<Rightarrow> text_ok body | _ \<Rightarrow> True"
    and "serve_logged i m path req r = (p, entry, r1)"
  shows "formed (in_meta_time i) (fst (nextRequestID (in_id_time i) r)) p
    \<and> entry = \<lparr>lg_info = (rs_status p \<noteq> 200), lg_request_id = fst (nextRequestID (in_id_time i) r),
               lg_method = m, lg_path = path, lg_status = rs_status p,
               lg_bytes = int (length (encode_utf8 (rs_body p)))\<rparr>"
proof -
  obtain rid r2 where n: "nextRequestID (in_id_time i) r = (rid, r2)" by (rule prod.exhaust)
  have r2: "gw_ok (ro_gw r2)" "router_texts r2"
    using n assms(1,2) by (auto simp: nextRequestID_def router_texts_def Let_def)
  have p: "p = fst (handle i rid req r2)"
    and e: "entry = request_log rid m path (fold record_call (writer_calls p) newStatusRecorder)"
    using assms(4) by (auto simp: serve_logged_def n Let_def split: prod.splits)
  from nextRequestID_ok [OF n] have f: "formed (in_meta_time i) rid p"
    unfolding p by (intro handle_formed [OF r2 _ _ assms(3)]) simp_all
  then have "rs_status p \<in> {200, 400, 409, 429, 500, 502}" by (simp add: formed_def)
  with f show ?thesis by (auto simp: n e logged_response utf8_len_def)
qed

end
