(* ===== verification/Running.thy ===== *)
theory Running
  imports ResponseSpec JoinSpec
begin

text \<open>
  A gateway in operation: requests, the goroutines of the session, the browsers and the jobs of the
  suggestion service, in any order. What holds in every state it can reach, and what its responses
  look like then.
\<close>

declare lit.simps [simp del]

subsection \<open>The steps\<close>

text \<open>
  A step is a request, one call of the callback with what the reader hands over, or one critical section
  of a goroutine; a job may be at any of its sections. \<open>enc\<close> encodes commands, \<open>dec\<close> decodes what the
  server sends, \<open>err\<close> are the texts of the JSON decoder's errors.
\<close>

definition request_texts :: "request \<Rightarrow> bool" where
  "request_texts req = (case req of SessionConnect body \<Rightarrow> text_ok body | _ \<Rightarrow> True)"

definition hub_take :: "nat \<Rightarrow> gateway \<Rightarrow> gateway" where
  "hub_take c g =
     (let (event, (h, m)) = take_event c (g_hub g, g_metrics g) in g\<lparr>g_hub := h, g_metrics := m\<rparr>)"

inductive gateway_step ::
    "(str \<Rightarrow> byte list option) \<Rightarrow> (byte list \<Rightarrow> str option) \<Rightarrow> (str \<Rightarrow> str) \<Rightarrow> router \<Rightarrow> router \<Rightarrow> bool"
  for enc :: "str \<Rightarrow> byte list option" and dec :: "byte list \<Rightarrow> str option" and err :: "str \<Rightarrow> str" where
  request: "request_texts req \<Longrightarrow> serve i req r = (p, r1) \<Longrightarrow> gateway_step enc dec err r r1"
| tick: "gateway_step enc dec err r (r\<lparr>ro_gw := sender_tick enc answer now (ro_gw r)\<rparr>)"
| upstream_text: "txt = Decode dec bytes \<Longrightarrow> real_orders orders \<Longrightarrow> gateway_step enc dec err r
      (on_terminal a now orders (lit ''s-1'') txt (r\<lparr>ro_gw := onTerminalOutput (lit ''s-1'') txt seen (ro_gw r)\<rparr>))"
| hangup: "gateway_step enc dec err r (r\<lparr>ro_gw := handleUpstreamDisconnect (lit ''s-1'') cause now (ro_gw r)\<rparr>)"
| join: "serve_terminal i a m path header r = (outcome, entry, r1) \<Longrightarrow> gateway_step enc dec err r r1"
| leave: "gateway_step enc dec err r (ws_done c r)"
| pump: "gateway_step enc dec err r (r\<lparr>ro_gw := hub_take c (ro_gw r)\<rparr>)"
| fire: "gateway_step enc dec err r (r\<lparr>ro_suggestions := (ro_suggestions r)\<lparr>su_timer := timers\<rparr>\<rparr>)"
| no_prompt: "text_ok e \<Longrightarrow> gateway_step enc dec err r
      (r\<lparr>ro_suggestions := setLastError (lit ''build suggestion prompt failed: '' @ e) now (ro_suggestions r)\<rparr>)"
| ask: "gateway_step enc dec err r (r\<lparr>ro_suggestions := markInFlight sid seq (ro_suggestions r)\<rparr>)"
| result: "case answer of Inl e \<Rightarrow> text_ok e | Inr raw \<Rightarrow> text_ok raw \<Longrightarrow> gateway_step enc dec err r
      (r\<lparr>ro_suggestions := finish_request err sid seq answer now (ro_suggestions r)\<rparr>)"
| complete: "gateway_step enc dec err r (r\<lparr>ro_suggestions := markCompleted sid seq (ro_suggestions r)\<rparr>)"

text \<open>A gateway starts on a database that is new or its own.\<close>

inductive running ::
    "(str \<Rightarrow> byte list option) \<Rightarrow> (byte list \<Rightarrow> str option) \<Rightarrow> (str \<Rightarrow> str) \<Rightarrow> router \<Rightarrow> bool"
  for enc :: "str \<Rightarrow> byte list option" and dec :: "byte list \<Rightarrow> str option" and err :: "str \<Rightarrow> str" where
  start: "file_texts file \<Longrightarrow> text_ok (BuildVersion cfg) \<Longrightarrow> text_ok (BuildCommit cfg) \<Longrightarrow>
    running enc dec err (NewRouter a file cfg)"
| step: "running enc dec err r \<Longrightarrow> gateway_step enc dec err r r1 \<Longrightarrow> running enc dec err r1"

subsection \<open>The invariant\<close>

definition router_ok :: "router \<Rightarrow> bool" where
  "router_ok r \<longleftrightarrow> gw_ok (ro_gw r) \<and> router_texts r"

lemma router_texts_frame [simp]:
  "router_texts (r\<lparr>ro_gw := g\<rparr>) = router_texts r"
  "router_texts r \<Longrightarrow> suggestion_texts s \<Longrightarrow> router_texts (r\<lparr>ro_suggestions := s\<rparr>)"
  "router_texts r \<Longrightarrow> suggestion_texts (ro_suggestions r)"
  by (simp_all add: router_texts_def)

lemma nextRequestID_frame: "nextRequestID t r = (rid, r1) \<Longrightarrow> router_ok r1 = router_ok r"
  by (auto simp: nextRequestID_def router_ok_def router_texts_def Let_def)

lemma handle_keeps: "router_ok r \<Longrightarrow> rid \<noteq> [] \<Longrightarrow> router_ok (snd (handle i rid req r))"
proof -
  assume ok: "router_ok r" and rid: "rid \<noteq> []"
  then have g: "gw_ok (ro_gw r)" by (simp add: router_ok_def)
  note K = manager.replies_keep [OF g]
  have M: "router_ok (snd (with_manager reply i rid r))"
    if "gw_ok (snd (reply (theManager i) (in_meta_time i) rid (ro_gw r)))" for reply
    using that ok by (auto simp: with_manager_ctx [OF rid] router_ok_def split: prod.split)
  have S: "router_ok (r\<lparr>ro_suggestions := snd (CancelInFlight (ro_suggestions r))\<rparr>)"
    using ok by (simp add: router_ok_def)
  show ?thesis
    using ok rid K M S
    by (cases req) (auto simp: handleHealth_def handleStateSnapshot_def handleSuggestionsLatest_def
        handleSuggestionsCancel_def handleSessionStatus_def handleSessionConnect_def handleSessionDisconnect_def
        handleEnqueueCommand_def requestID_ctx Let_def split: prod.split)
qed

lemma serve_keeps: "router_ok r \<Longrightarrow> router_ok (snd (serve i req r))"
  using nextRequestID_ok nextRequestID_frame handle_keeps by (auto simp: serve_def split: prod.split)

lemma hub_steps_keep:
  assumes "gw_ok g"
  shows "gw_ok (hub_remove c g)" "gw_ok (hub_take c g)"
proof -
  have h: "hub_ok (g_hub g, g_metrics g)" using assms by (simp add: gw_ok_def)
  obtain h1 m1 e h2 m2 where e: "Remove c (g_hub g, g_metrics g) = (h1, m1)" "take_event c (g_hub g, g_metrics g) = (e, (h2, m2))"
    by (metis surj_pair)
  from hub_ok_Remove [OF h, of c] hub_ok_take [OF h, of c]
  show "gw_ok (hub_remove c g)" "gw_ok (hub_take c g)"
    using assms by (simp_all add: e hub_remove_def hub_take_def gw_ok_def hub_only)
qed

lemma handleTerminalWS_texts:
  "handleTerminalWS i a rid header r = (outcome, r1) \<Longrightarrow> rid \<noteq> [] \<Longrightarrow> router_texts r1 = router_texts r"
  by (auto simp: handleTerminalWS_def requestID_ctx Let_def split: if_splits prod.splits)

lemma join_keeps:
  assumes "router_ok r" "serve_terminal i a m path header r = (outcome, entry, r1)"
  shows "router_ok r1"
proof -
  obtain rid r0 where n: "nextRequestID (in_id_time i) r = (rid, r0)" by (rule prod.exhaust)
  have h: "handleTerminalWS i (recorder_answers a) rid header r0 = (outcome, r1)"
    using assms(2) by (auto simp: serve_terminal_def n Let_def split: prod.splits)
  have rid: "text_ok rid" "rid \<noteq> []" using nextRequestID_ok [OF n] by simp_all
  have "router_ok r0" using nextRequestID_frame [OF n] assms(1) by simp
  with browser_joins [OF _ rid h] handleTerminalWS_texts [OF h rid(2)] show ?thesis by (simp add: router_ok_def)
qed

lemma callback_keeps:
  assumes "router_ok r" "decodes_text dec" "real_orders orders"
  shows "router_ok (on_terminal a now orders sid (Decode dec bytes)
    (r\<lparr>ro_gw := onTerminalOutput sid (Decode dec bytes) seen (ro_gw r)\<rparr>))"
proof -
  have "gw_ok (onTerminalOutput sid (Decode dec bytes) seen (ro_gw r))"
    using assms(1) by (simp add: router_ok_def output_keeps)
  moreover have "state_texts (snd (Ingest (router_UpsertDelta a now) orders sid (Decode dec bytes) (ro_state r)))"
    using assms by (intro Ingest_texts Decode_text) (simp_all add: router_ok_def router_texts_def)
  ultimately show ?thesis
    using assms(1) by (auto simp: router_ok_def router_texts_def on_terminal_def split: prod.split)
qed

text \<open>The environment: Unicode texts from the code page decoder and in the messages of the JSON decoder.\<close>

definition outside_texts :: "(byte list \<Rightarrow> str option) \<Rightarrow> (str \<Rightarrow> str) \<Rightarrow> bool" where
  "outside_texts dec err \<longleftrightarrow> decodes_text dec \<and> (\<forall>u. text_ok (err u))"

lemma step_keeps:
  assumes "gateway_step enc dec err r r1" "outside_texts dec err" "router_ok r"
  shows "router_ok r1"
proof -
  have g: "gw_ok (ro_gw r)" and t: "router_texts r"
    using assms(3) by (simp_all add: router_ok_def)
  have manager: "router_ok (r\<lparr>ro_gw := snd (gw_exec enc (op, now) (ro_gw r))\<rparr>)" for op now
    using simD(1) [OF g, of enc op now] t by (simp add: router_ok_def)
  have jobs: "router_ok (r\<lparr>ro_suggestions := s\<rparr>)" if "suggestion_texts s" for s
    using g t that by (simp add: router_ok_def)
  from assms(1) show ?thesis
  proof cases
    case (request req i p)
    with serve_keeps [OF assms(3), of i req] show ?thesis by simp
  next
    case (tick answer now)
    with manager [of "OpTick answer" now] show ?thesis by simp
  next
    case (upstream_text u bytes orders a now seen)
    with callback_keeps [OF assms(3)] assms(2) show ?thesis by (simp add: outside_texts_def)
  next
    case (hangup cause now)
    with manager [of "OpUpstreamEnd cause" now] show ?thesis by simp
  next
    case (join i a m path header outcome entry)
    with join_keeps assms(3) show ?thesis by blast
  next
    case (result answer sid seq now)
    with finish_request_texts assms(2) t show ?thesis by (simp add: outside_texts_def jobs)
  qed (use g t in \<open>simp_all add: ws_done_def router_ok_def hub_steps_keep setLastError_texts\<close>)
qed

lemma running_ok: "running enc dec err r \<Longrightarrow> outside_texts dec err \<Longrightarrow> router_ok r"
proof (induction rule: running.induct)
  case (start db cfg a)
  then show ?case
    by (simp add: router_ok_def router_texts_def NewRouter_def gw_ok_New NewService_texts Let_def)
next
  case (step r r1)
  then show ?case using step_keeps by blast
qed

text \<open>
  C10. Every response of a running gateway is well formed and logged as it was sent. Start the gateway on
  a database that is new or its own, and let requests, sender ticks, the callbacks on what the game server
  sends (any bytes), upstream ends, browsers and suggestion jobs (with any answers of the model)
  happen in any order. Then, whatever request comes next, the body of its response is one JSON object with the
  id of the request and a time, and with data exactly for status 200, an error otherwise, the status being 200,
  400, 409, 429, 500 or 502. The log entry carries the same id, that status and the length of the body
  in bytes, at level info exactly for an error. (What comes from outside as text is Unicode: bodies,
  answers, messages, the runes of the code page.)
\<close>

theorem responses_formed:
  assumes "running enc dec err r" and "outside_texts dec err" and "request_texts req"
    and "serve_logged i m path req r = (p, entry, r1)"
  shows "formed (in_meta_time i) (fst (nextRequestID (in_id_time i) r)) p
    \<and> entry = \<lparr>lg_info = (rs_status p \<noteq> 200), lg_request_id = fst (nextRequestID (in_id_time i) r),
               lg_method = m, lg_path = path, lg_status = rs_status p,
               lg_bytes = int (length (encode_utf8 (rs_body p)))\<rparr>"
  using running_ok [OF assms(1,2)] assms(3)
  by (intro response_shape [OF _ _ _ assms(4)]) (simp_all add: router_ok_def request_texts_def)

text \<open>A gateway that has read a text from the game server.\<close>

theorem responses_formed_witness:
  "\<exists>r p entry r1. running (\<lambda>_. None) (\<lambda>_. None) (\<lambda>_. []) r \<and> su_recent (ro_suggestions r) (lit ''s-1'') = [[104, 105]]
    \<and> serve_logged demo_env (lit ''GET'') (lit ''/api/v0/health'') Health r = (p, entry, r1)
    \<and> lg_status entry = rs_status p \<and> rs_type p = lit ''application/json''"
proof -
  let ?run = "running (\<lambda>_. None) (\<lambda>_. None) (\<lambda>_. [])"
  let ?init = "NewRouter db_opens empty_database (Load (\<lambda>_ _ _. 0) (\<lambda>_. []))"
  let ?txt = "Decode (\<lambda>_. None) [104, 105]"
  let ?r = "on_terminal all_good noon (\<lambda>_. equipmentAliases) (lit ''s-1'') ?txt
    (?init\<lparr>ro_gw := onTerminalOutput (lit ''s-1'') ?txt noon (ro_gw ?init)\<rparr>)"
  have start: "?run ?init"
    by (rule running.start) (simp_all add: file_texts_empty Load_def getenv_def Let_def)
  have "gateway_step (\<lambda>_. None) (\<lambda>_. None) (\<lambda>_. []) ?init ?r"
    by (rule gateway_step.upstream_text [OF refl]) (simp add: real_orders_def)
  from running.step [OF start this] have run: "?run ?r" .
  have out: "outside_texts (\<lambda>_. None) (\<lambda>_. [])" by (simp add: outside_texts_def decodes_text_def)
  have "?txt = [104, 105]" by code_simp
  then have "concat (map lines_of [?txt]) = [[104, 105]]" by (simp only:) code_simp
  then have lines: "su_recent (ro_suggestions ?r) (lit ''s-1'') = [[104, 105]]"
    using log_is_tail [of "[(lit ''s-1'', ?txt)]" "SuggestRecentLines (Load (\<lambda>_ _ _. 0) (\<lambda>_. []))" "lit ''s-1''"]
    by (simp add: on_terminal_def NewRouter_def Let_def last_n_def split: prod.split)
  obtain p entry r1 where s: "serve_logged demo_env (lit ''GET'') (lit ''/api/v0/health'') Health ?r = (p, entry, r1)"
    by (metis prod_cases3)
  from responses_formed [OF run out _ s] have "lg_status entry = rs_status p \<and> rs_type p = lit ''application/json''"
    by (simp add: request_texts_def formed_def)
  with run lines s show ?thesis by blast
qed

end
