(* ===== verification/MetricsPage.thy ===== *)
theory MetricsPage
  imports Http
begin

text \<open>
  The metrics page: its lines, one sample or comment each, whatever the session ids are.
\<close>

subsection \<open>The lines\<close>

text \<open>A sample is a name, its labels and a value; a comment gives the type of a metric.\<close>

definition type_line :: "string \<Rightarrow> string \<Rightarrow> str" where
  "type_line name kind = lit ''# TYPE '' @ lit name @ lit '' '' @ lit kind"

definition sample :: "string \<Rightarrow> str \<Rightarrow> str" where
  "sample name value = lit name @ lit '' '' @ value"

definition labelled :: "(rune \<Rightarrow> bool) \<Rightarrow> string \<Rightarrow> string \<Rightarrow> str \<Rightarrow> int64 \<Rightarrow> str" where
  "labelled printable name label v n = lit name @ lit ''{'' @ lit label @ lit ''='' @ quote printable v @ lit ''} '' @ show_int64 n"

definition page_lines :: "(rune \<Rightarrow> bool) \<Rightarrow> (int64 \<Rightarrow> str) \<Rightarrow> metrics_snapshot \<Rightarrow> str list" where
  "page_lines printable show_sum s =
     concat (map (\<lambda>(name, kind, value). [type_line name kind, sample name (show_int64 value)])
       [(''gateway_ws_connections'', ''gauge'', ms_WSConnections s),
        (''gateway_queue_depth'', ''gauge'', ms_QueueDepth s),
        (''gateway_queue_sent_total'', ''counter'', ms_QueueSentTotal s),
        (''gateway_queue_send_failed_total'', ''counter'', ms_QueueSendFailedTotal s),
        (''gateway_queue_rejected_total'', ''counter'', ms_QueueRejectedTotal s),
        (''gateway_queue_dropped_total'', ''counter'', ms_QueueDroppedTotal s),
        (''gateway_events_broadcast_total'', ''counter'', ms_EventsBroadcastTotal s)]) @
     [type_line ''gateway_queue_send_latency_seconds'' ''histogram''] @
     map (\<lambda>(le, n). labelled printable ''gateway_queue_send_latency_seconds_bucket'' ''le'' le n)
       (h_Buckets (ms_QueueSendLatency s) @ [(lit ''+Inf'', h_Count (ms_QueueSendLatency s))]) @
     [sample ''gateway_queue_send_latency_seconds_sum'' (show_sum (h_SumNs (ms_QueueSendLatency s))),
      sample ''gateway_queue_send_latency_seconds_count'' (show_int64 (h_Count (ms_QueueSendLatency s))),
      type_line ''gateway_queue_dropped_unsent_total'' ''counter''] @
     map (\<lambda>sid. labelled printable ''gateway_queue_dropped_unsent_total'' ''session_id'' sid
           (case ms_DroppedBySession s sid of None \<Rightarrow> 0 | Some n \<Rightarrow> n))
       (sorted_list_of_set (dom (ms_DroppedBySession s)))"

lemma lit_concat: "lit s @ lit t @ u = lit (s @ t) @ u"
  by simp

lemma bucket_line_eq: "bucket_line printable = (\<lambda>(le, n).
    labelled printable ''gateway_queue_send_latency_seconds_bucket'' ''le'' le n @ [10])"
  by (simp add: fun_eq_iff bucket_line_def labelled_def lit_concat del: lit.simps lit_append)

lemma metrics_text_lines:
  "metrics_text printable show_sum s = concat (map (\<lambda>l. l @ [10]) (page_lines printable show_sum s))"
  by (simp add: metrics_text_def page_lines_def metric_def formatLatencyBuckets_def formatDroppedBySession_def
      bucket_line_eq type_line_def sample_def labelled_def comp_def case_prod_unfold lit_concat del: lit.simps lit_append)

lemma split_lines: "\<forall>l \<in> set ls. c \<notin> set l \<Longrightarrow> split_on c (concat (map (\<lambda>l. l @ [c]) ls)) = ls @ [[]]"
  by (induction ls) (simp_all add: split_on_append)

subsection \<open>The quoting\<close>

text \<open>Reading one character of a quoted text back.\<close>

fun read_hex :: "nat \<Rightarrow> int \<Rightarrow> str \<Rightarrow> (rune \<times> str) option" where
  "read_hex 0 n s = Some (n, s)"
| "read_hex (Suc k) n [] = None"
| "read_hex (Suc k) n (c # s) = (case hex_value c of None \<Rightarrow> None | Some d \<Rightarrow> read_hex k (n * 16 + d) s)"

fun unquote_rune :: "str \<Rightarrow> (rune \<times> str) option" where
  "unquote_rune [] = None"
| "unquote_rune (c # s) =
     (if c \<noteq> 92 then Some (c, s)
      else case s of [] \<Rightarrow> None | e # t \<Rightarrow>
        if e = 120 then read_hex 2 0 t else if e = 117 then read_hex 4 0 t else if e = 85 then read_hex 8 0 t
        else map_option (\<lambda>r. (r, t))
          (map_of [(34, 34), (92, 92), (97, 7), (98, 8), (102, 12), (110, 10), (114, 13), (116, 9), (118, 11)] e))"

lemma read_hex_digits:
  "read_hex k n (map (\<lambda>j. hex_digit (r div 16 ^ j mod 16)) (rev [0..<k]) @ t) = Some (n * 16 ^ k + r mod 16 ^ k, t)"
proof (induction k arbitrary: n)
  case (Suc k)
  have "r mod 16 ^ Suc k = 16 ^ k * (r div 16 ^ k mod 16) + r mod 16 ^ k"
    by (simp add: power_Suc2 zmod_zmult2_eq del: power_Suc)
  then show ?case by (simp add: Suc hex_value_digit algebra_simps)
qed simp

lemma read_escapes:
  "0 \<le> r \<Longrightarrow> r < 256 \<Longrightarrow> read_hex 2 0 (hex_digit (r div 16) # hex_digit (r mod 16) # t) = Some (r, t)"
  "0 \<le> r \<Longrightarrow> r < 65536 \<Longrightarrow> read_hex 4 0 (drop 2 (u_escape r) @ t) = Some (r, t)"
  "0 \<le> r \<Longrightarrow> r < 16 ^ 8 \<Longrightarrow>
     read_hex 8 0 (map (\<lambda>k. hex_digit (r div 16 ^ k mod 16)) [7, 6, 5, 4, 3, 2, 1, 0] @ t) = Some (r, t)"
  using read_hex_digits [of 2 0 r t] read_hex_digits [of 4 0 r t] read_hex_digits [of 8 0 r t]
  by (simp_all add: upt_rec u_escape_def del: read_hex.simps)

lemma quote_rune_cases:
  assumes "scalar r"
  obtains "quote_rune printable r = [r]" "32 \<le> r" "r \<noteq> 34" "r \<noteq> 92"
  | "quote_rune printable r = [92, r]" "r = 34 \<or> r = 92"
  | e where "quote_rune printable r = [92, e]"
      "(e, r) \<in> set [(97, 7), (98, 8), (102, 12), (110, 10), (114, 13), (116, 9), (118, 11)]"
  | "quote_rune printable r = [92, 120, hex_digit (r div 16), hex_digit (r mod 16)]" "0 \<le> r" "r < 256"
  | "quote_rune printable r = 92 # 117 # drop 2 (u_escape r)" "0 \<le> r" "r < 65536"
  | "quote_rune printable r = [92, 85] @ map (\<lambda>k. hex_digit (r div 16 ^ k mod 16)) [7, 6, 5, 4, 3, 2, 1, 0]"
      "0 \<le> r" "r < 16 ^ 8"
proof -
  have r: "0 \<le> r" "r \<le> 1114111" using assms by (simp_all add: scalar_def)
  show thesis
  proof (cases "r = 34 \<or> r = 92")
    case True
    then show thesis by (intro that(2)) (simp_all add: quote_rune_def)
  next
    case q: False
    show thesis
    proof (cases "32 \<le> r \<and> r < 127 \<or> 127 < r \<and> printable r")
      case True
      then show thesis using q by (intro that(1)) (auto simp: quote_rune_def)
    next
      case p: False
      consider "r \<in> {7, 8, 12, 10, 13, 9, 11}" | "r \<notin> {7, 8, 12, 10, 13, 9, 11}" "r < 32 \<or> r = 127"
        | "127 < r" "r < 65536" | "127 < r" "65536 \<le> r"
        using p by linarith
      then show thesis
      proof cases
        case 1
        then show thesis by (auto simp: quote_rune_def intro: that(3))
      next
        case 2
        then show thesis using p q r by (intro that(4)) (auto simp: quote_rune_def)
      next
        case 3
        then show thesis using p q by (intro that(5)) (auto simp: quote_rune_def u_escape_def)
      next
        case 4
        then show thesis using p q r by (intro that(6)) (auto simp: quote_rune_def)
      qed
    qed
  qed
qed

lemma unquote_quote:
  assumes "scalar r"
  shows "unquote_rune (quote_rune printable r @ t) = Some (r, t)"
  using assms
proof (cases rule: quote_rune_cases [where printable = printable])
  case 4
  with read_escapes(1) [of r t] show ?thesis by (simp del: read_hex.simps)
next
  case 5
  with read_escapes(2) [of r t] show ?thesis by (simp del: read_hex.simps)
next
  case 6
  with read_escapes(3) [of r t] show ?thesis by (simp del: read_hex.simps)
qed auto

lemma quote_rune_start:
  assumes "scalar r"
  obtains c w where "quote_rune printable r = c # w" "c \<noteq> 34"
  using assms by (cases rule: quote_rune_cases [where printable = printable]) (simp_all add: that)

lemma hex_digit_newline: "hex_digit n = 10 \<Longrightarrow> n < 0"
  by (simp add: hex_digit_def split: if_splits)

lemma quote_no_newline:
  assumes "text_ok s"
  shows "10 \<notin> set (quote printable s)"
proof -
  have m: "\<not> n mod 16 < 0" for n :: int by simp
  have "10 \<notin> set (quote_rune printable r)" if "scalar r" for r
    using that
    by (cases rule: quote_rune_cases [where printable = printable])
      (auto simp: u_escape_def m pos_imp_zdiv_neg_iff dest!: hex_digit_newline hex_digit_newline [OF sym])
  with assms show ?thesis by (auto simp: quote_def text_ok_def)
qed

lemma quoted_inject:
  "text_ok u \<Longrightarrow> text_ok v \<Longrightarrow>
     concat (map (quote_rune printable) u) @ 34 # s = concat (map (quote_rune printable) v) @ 34 # t \<Longrightarrow> u = v \<and> s = t"
proof (induction u arbitrary: v)
  case Nil
  show ?case
  proof (cases v)
    case (Cons b w)
    with Nil.prems(2) have "scalar b" by simp
    then obtain c x where "quote_rune printable b = c # x" "c \<noteq> 34" by (rule quote_rune_start)
    with Nil.prems(3) show ?thesis by (simp add: Cons)
  qed (use Nil in simp)
next
  case (Cons a u)
  show ?case
  proof (cases v)
    case Nil
    from Cons.prems(1) have "scalar a" by simp
    then obtain c x where "quote_rune printable a = c # x" "c \<noteq> 34" by (rule quote_rune_start)
    with Cons.prems(3) show ?thesis by (simp add: Nil)
  next
    case v: (Cons b w)
    have "Some (a, concat (map (quote_rune printable) u) @ 34 # s) = Some (b, concat (map (quote_rune printable) w) @ 34 # t)"
      using arg_cong [OF Cons.prems(3), of unquote_rune] Cons.prems(1,2) by (simp add: v unquote_quote)
    with Cons.IH [of w] Cons.prems(1,2) show ?thesis by (simp add: v)
  qed
qed

lemma show_int64_no_newline: "10 \<notin> set (show_int64 w)"
proof -
  have "10 \<notin> set (digits n)" for n using digits_are_digits [of 10 n] by (auto simp: is_digit_def)
  then show ?thesis by (simp add: show_int64_def itoa_def)
qed

lemma labelled_no_newline: "10 \<notin> set (lit name) \<Longrightarrow> 10 \<notin> set (lit label) \<Longrightarrow> text_ok v \<Longrightarrow> 10 \<notin> set (labelled printable name label v n)"
  by (simp add: labelled_def quote_no_newline show_int64_no_newline)

lemma page_no_newline:
  assumes "\<forall>n. 10 \<notin> set (show_sum n)" "\<forall>sid \<in> dom (m_droppedBySession m). text_ok sid"
  shows "\<forall>l \<in> set (page_lines printable show_sum (Snapshot m)). 10 \<notin> set l"
proof -
  have labels: "text_ok le" if "(le, n) \<in> set (h_Buckets (ms_QueueSendLatency (Snapshot m)))" for le n
    using set_zip_leftD [of le n bucket_labels "latency_counts m"] that by (auto simp: Snapshot_def bucket_labels_def simp del: lit.simps)
  have "text_ok sid" if "sid \<in> set (sorted_list_of_set (dom (ms_DroppedBySession (Snapshot m))))" for sid
    using that assms(2) by (cases "finite (dom (m_droppedBySession m))") (auto simp: Snapshot_def)
  with labels assms(1) show ?thesis
    by (auto simp: page_lines_def type_line_def sample_def show_int64_no_newline labelled_no_newline scalar_def
        dest: labels)
qed

subsection \<open>The page\<close>

lemma show_int64_inject: "show_int64 v = show_int64 w \<longleftrightarrow> v = w"
proof -
  have neg: "45 # u \<noteq> digits n" for u n
  proof
    assume "45 # u = digits n"
    then have "45 \<in> set (digits n)" by (metis list.set_intros(1))
    from digits_are_digits [OF this] show False by (simp add: is_digit_def)
  qed
  have i: "itoa i = itoa j \<Longrightarrow> i = j" for i j
    using neg neg [symmetric] by (auto simp: itoa_def digits_inject split: if_splits)
  have "v = w" if "sint v = sint w"
    using arg_cong [OF that, of "of_int :: int \<Rightarrow> int64"] by simp
  with i show ?thesis by (auto simp: show_int64_def)
qed

lemma labelled_inject:
  "text_ok u \<Longrightarrow> text_ok v \<Longrightarrow> labelled printable name label u n = labelled printable name label v k \<Longrightarrow> u = v \<and> n = k"
  using quoted_inject [of u v printable "lit ''} '' @ show_int64 n" "lit ''} '' @ show_int64 k"]
  by (simp add: labelled_def quote_def show_int64_inject)

text \<open>
  C38. The lines of the metrics page. Whatever the metrics are, the page is answered with 200 and nothing
  changes; split at the newlines it is the type and the value of each counter and gauge, the buckets, the sum
  and the count of the histogram, and one sample per session with dropped commands. No session id can break
  a line or pass for another one: samples with different session ids or values are different lines.
  (The printing of the sum gives no newline; session ids are Unicode.)
\<close>

theorem metrics_page:
  assumes "\<forall>n. 10 \<notin> set (show_sum n)" and "\<forall>sid \<in> dom (m_droppedBySession (g_metrics (ro_gw r))). text_ok sid"
    and "handleMetrics printable show_sum r = (p, r1)"
  shows "r1 = r \<and> rs_status p = 200
    \<and> split_on 10 (rs_body p) = page_lines printable show_sum (Snapshot (g_metrics (ro_gw r))) @ [[]]
    \<and> (\<forall>name label u v n k. text_ok u \<and> text_ok v \<and> (u, n) \<noteq> (v, k) \<longrightarrow>
         labelled printable name label u n \<noteq> labelled printable name label v k)"
proof -
  have p: "r1 = r" "rs_status p = 200" "rs_body p = metrics_text printable show_sum (Snapshot (g_metrics (ro_gw r)))"
    using assms(3) by (auto simp: handleMetrics_def)
  have "split_on 10 (rs_body p) = page_lines printable show_sum (Snapshot (g_metrics (ro_gw r))) @ [[]]"
    unfolding p(3) metrics_text_lines by (rule split_lines [OF page_no_newline [OF assms(1,2)]])
  with p(1,2) labelled_inject show ?thesis by auto
qed

text \<open>A session id with a quotation mark and a newline.\<close>

theorem metrics_page_witness:
  "\<exists>r p r1. handleMetrics (\<lambda>_. False) show_int64 r = (p, r1)
    \<and> lit ''gateway_queue_dropped_unsent_total{session_id='' @ [34, 92, 34, 92, 110, 34] @ lit ''} 7'' \<in> set (split_on 10 (rs_body p))"
proof -
  let ?init = "NewRouter \<lparr>oa_mkdir = None, oa_open = None, oa_exec = (\<lambda>_. None)\<rparr> empty_database
    (Load (\<lambda>_ _ _. 0) (\<lambda>_. []))"
  let ?m = "NewMetrics\<lparr>m_droppedBySession := [[34, 10] \<mapsto> 7]\<rparr>"
  let ?r = "?init\<lparr>ro_gw := (ro_gw ?init)\<lparr>g_metrics := ?m\<rparr>\<rparr>"
  obtain p r1 where h: "handleMetrics (\<lambda>_. False) show_int64 ?r = (p, r1)" by (rule prod.exhaust)
  have "\<forall>sid \<in> dom (m_droppedBySession (g_metrics (ro_gw ?r))). text_ok sid" by (simp add: scalar_def)
  from metrics_page [OF _ this h]
  have "split_on 10 (rs_body p) = page_lines (\<lambda>_. False) show_int64 (Snapshot ?m) @ [[]]"
    by (simp add: show_int64_no_newline)
  moreover have "labelled (\<lambda>_. False) ''gateway_queue_dropped_unsent_total'' ''session_id'' [34, 10] 7
      \<in> set (page_lines (\<lambda>_. False) show_int64 (Snapshot ?m))"
    by (simp add: page_lines_def Snapshot_def)
  moreover have "labelled (\<lambda>_. False) ''gateway_queue_dropped_unsent_total'' ''session_id'' [34, 10] 7
      = lit ''gateway_queue_dropped_unsent_total{session_id='' @ [34, 92, 34, 92, 110, 34] @ lit ''} 7''"
    by code_simp
  ultimately show ?thesis using h by (metis UnCI set_append)
qed

end
