(* ===== verification/FrameSize.thy ===== *)
theory FrameSize
  imports Wire Decoder Clock
begin

text \<open>
  How long the frames get: the JSON of a terminal event is at most six bytes for each rune of its
  texts and a fixed rest, and a read of the game server decodes to at most as many runes as it has
  bytes, so the output of one read always fits the frame of 1 MiB that a reader accepts.
\<close>

declare lit.simps [simp del]

subsection \<open>The JSON of an event\<close>

lemma utf8_len_append [simp]: "utf8_len (s @ t) = utf8_len s + utf8_len t"
  by (simp add: utf8_len_def encode_utf8_append)

lemma utf8_len_concat: "\<forall>x \<in> set xs. utf8_len (f x) \<le> k \<Longrightarrow> utf8_len (concat (map f xs)) \<le> k * length xs"
  by (induction xs) auto

lemma rune_bytes_length: "length (rune_bytes r) \<le> 4" "0 \<le> r \<Longrightarrow> r < 128 \<Longrightarrow> length (rune_bytes r) = 1"
  by (simp_all add: rune_bytes_def)

lemma utf8_len_ascii: "\<forall>r \<in> set s. 0 \<le> r \<and> r < 128 \<Longrightarrow> utf8_len s = length s"
  by (induction s) (simp_all add: rune_bytes_length)

lemma hex_digit_ascii: "0 \<le> n \<Longrightarrow> n < 16 \<Longrightarrow> 0 \<le> hex_digit n \<and> hex_digit n < 128"
  by (simp add: hex_digit_def)

lemma u_escape_size:
  assumes "0 \<le> d" "d < 65536"
  shows "utf8_len (u_escape d) = 6"
proof -
  have "\<forall>r \<in> set (u_escape d). 0 \<le> r \<and> r < 128"
    using assms unfolding u_escape_def by (simp add: hex_digit_ascii)
  then show ?thesis by (simp add: utf8_len_ascii) (simp add: u_escape_def)
qed

lemma escape_size: "utf8_len (escape r) \<le> 6"
proof (cases "r \<in> {34, 92, 8, 12, 10, 13, 9}")
  case True
  then have "\<forall>x \<in> set (escape r). 0 \<le> x \<and> x < 128" "length (escape r) = 2" by (auto simp: escape_def)
  then show ?thesis by (simp add: utf8_len_ascii)
next
  case False
  then show ?thesis
    using rune_bytes_length(1) [of r] by (auto simp: escape_def u_escape_size)
qed

lemma string_size: "utf8_len (print_string s) \<le> 2 + 6 * length s"
  using utf8_len_concat [of s escape 6] escape_size by (simp add: print_string_def rune_bytes_length)

lemma digits_size: "n < 10 ^ Suc k \<Longrightarrow> length (digits n) \<le> Suc k"
proof (induction k arbitrary: n)
  case 0
  then show ?case by (subst digits.simps) simp
next
  case (Suc k)
  then have "n div 10 < 10 ^ Suc k" by (simp add: less_mult_imp_div_less)
  from Suc.IH [OF this] show ?case by (subst digits.simps) simp
qed

lemma digits_ascii: "\<forall>r \<in> set (digits n). 0 \<le> r \<and> r < 128"
proof
  fix r assume "r \<in> set (digits n)"
  then have "is_digit r" by (rule digits_are_digits)
  then show "0 \<le> r \<and> r < 128" by (simp add: is_digit_def)
qed

lemma jint_size: "int_range i \<Longrightarrow> utf8_len (print_json (jint i)) \<le> 20"
proof -
  assume "int_range i"
  then have n: "nat \<bar>i\<bar> < 10 ^ Suc 18" by (auto simp: int_range_def)
  have "\<forall>r \<in> set (itoa i). 0 \<le> r \<and> r < 128"
    using digits_ascii by (simp add: itoa_def)
  with digits_size [OF n] show ?thesis by (auto simp: jint_def utf8_len_ascii itoa_def split: if_splits)
qed

text \<open>The size of an object is that of its members, each with a name, a colon and a comma.\<close>

definition members_size :: "(str \<times> json) list \<Rightarrow> nat" where
  "members_size ms = (\<Sum>(k, v)\<leftarrow>ms. 4 + 6 * length k + utf8_len (print_json v))"

lemma members_size_simps [simp]:
  "members_size (ms @ ns) = members_size ms + members_size ns"
  "members_size (member name v) = 4 + 6 * length name + utf8_len (print_json v)"
  by (simp_all add: members_size_def member_def)

lemma omit_size: "members_size (omit z name v) \<le> 4 + 6 * length name + utf8_len (print_json v)"
  by (simp add: members_size_def omit_def)

lemma sep_by_size: "utf8_len (sep_by xs) \<le> (\<Sum>x\<leftarrow>xs. 1 + utf8_len x)"
  by (induction xs rule: sep_by.induct) (simp_all add: rune_bytes_length)

lemma object_size: "length (json_bytes (JObj ms)) \<le> 2 + members_size ms"
proof -
  let ?p = "\<lambda>(k, v). print_string k @ [58] @ print_json v"
  have "1 + utf8_len (?p m) \<le> (case m of (k, v) \<Rightarrow> 4 + 6 * length k + utf8_len (print_json v))" for m
    using string_size [of "fst m"] by (cases m) (simp add: rune_bytes_length)
  then have "(\<Sum>m\<leftarrow>ms. 1 + utf8_len (?p m)) \<le> members_size ms"
    unfolding members_size_def by (rule sum_list_mono)
  with sep_by_size [of "map ?p ms"] show ?thesis
    by (simp add: json_bytes_def utf8_len_def [symmetric] rune_bytes_length comp_def)
qed

lemma event_size:
  assumes "int_range (ev_QueueDepth e)" "int_range (ev_QueueMax e)"
  shows "length (json_bytes (JObj (event_members e)))
    \<le> 600 + 6 * (length (ev_Event e) + length (ev_SessionID e) + length (ev_Text e) + length (ev_QueueRejectCode e)
        + length (ev_Timestamp e))"
proof -
  note S = string_size [of "ev_Event e"] string_size [of "ev_SessionID e"] string_size [of "ev_Text e"]
    string_size [of "ev_QueueRejectCode e"] string_size [of "ev_Timestamp e"]
  have b: "utf8_len (print_json (JBool b)) \<le> 5" for b by (cases b) (simp_all add: lit.simps rune_bytes_length)
  have "members_size (event_members e) \<le> 598 + 6 * (length (ev_Event e) + length (ev_SessionID e) + length (ev_Text e)
      + length (ev_QueueRejectCode e) + length (ev_Timestamp e))"
    using S jint_size [OF assms(1)] jint_size [OF assms(2)] b [of "ev_Connected e"]
      omit_size [of "\<not> ev_Connected e" "''connected''" "JBool (ev_Connected e)"]
      omit_size [of "ev_Text e = []" "''text''" "JStr (ev_Text e)"]
      omit_size [of "ev_QueueDepth e = 0" "''queue_depth''" "jint (ev_QueueDepth e)"]
      omit_size [of "ev_QueueMax e = 0" "''queue_max''" "jint (ev_QueueMax e)"]
      omit_size [of "ev_QueueRejectCode e = []" "''queue_reject_code''" "JStr (ev_QueueRejectCode e)"]
    by (simp add: event_members_def)
  with object_size [of "event_members e"] show ?thesis by linarith
qed

subsection \<open>The text of a read\<close>

text \<open>What is assumed of the code page decoder: a rune needs a byte.\<close>

definition decodes_within :: "(byte list \<Rightarrow> str option) \<Rightarrow> bool" where
  "decodes_within dec \<longleftrightarrow> (\<forall>bs s. dec bs = Some s \<longrightarrow> length s \<le> length bs)"

lemma decode_ints_length: "length (decode_ints bs) \<le> length bs"
proof (induction bs rule: decode_ints.induct)
  case (1 bs)
  show ?case
  proof (cases "bs = []")
    case False
    with decode_rune_width [of bs] 1 show ?thesis
      by (subst decode_ints.simps) (cases "length bs"; simp; fastforce)
  qed (simp add: decode_ints.simps)
qed

lemma has_prefix_length: "has_prefix s p \<Longrightarrow> length p \<le> length s"
  by (induction s p rule: has_prefix.induct) simp_all

lemma replace_all_length: "length new \<le> length old \<Longrightarrow> length (replace_all old new s) \<le> length s"
proof (induction old new s rule: replace_all.induct)
  case (1 old new s)
  show ?case
  proof (cases s)
    case (Cons c t)
    show ?thesis
    proof (cases "old \<noteq> [] \<and> has_prefix s old")
      case True
      then have "length old \<le> length s" by (simp add: has_prefix_length)
      with 1(1) [OF Cons] 1(3) True Cons show ?thesis by (simp add: replace_all_Cons)
    next
      case False
      with 1(2) [OF Cons] 1(3) Cons show ?thesis by (auto simp: replace_all_Cons)
    qed
  qed simp
qed

lemma Decode_length: "decodes_within dec \<Longrightarrow> length (Decode dec bs) \<le> length bs"
proof (cases "dec bs")
  case None
  then show ?thesis
    using decode_ints_length [of "map uint bs"] by (simp add: Decode_def decode_utf8_def)
next
  case (Some s)
  assume "decodes_within dec"
  with Some have "length s \<le> length bs" by (simp add: decodes_within_def)
  with replace_all_length [of "[10]" "[13, 10]" s] Some show ?thesis by (simp add: Decode_def)
qed

lemma time_length: "length (rfc3339nano t) \<le> 30"
proof -
  have "length (strip_zeros s) \<le> length s" for s
    by (simp add: strip_zeros_def) (metis length_dropWhile_le length_rev)
  from this [of "pad 9 (nanos t)"] show ?thesis
    by (simp add: rfc3339nano_def seconds_text_def fraction_def)
qed

end
