(* ===== verification/Screen.thy ===== *)
theory Screen
  imports Running FrameSize
begin

text \<open>
  From the game server to the screen: the bytes of the server through the reader, the decoder, the hub,
  the channel of a browser that has joined, and the frames its write pump sends, up to the events a
  reader of those frames finds.
\<close>

declare lit.simps [simp del]

subsection \<open>A broadcast in the channel of one client\<close>

definition channel :: "nat \<Rightarrow> gateway \<Rightarrow> terminal_event list" where
  "channel c g = cl_send (h_heap (g_hub g) c)"

lemma cast_channel:
  assumes "gw_ok g" "c \<in> set (h_clients (g_hub g))" "length (channel c g) < 32"
  shows "c \<in> set (h_clients (g_hub (manager_broadcast e g)))" "channel c (manager_broadcast e g) = channel c g @ [e]"
proof -
  let ?s = "(g_hub g, IncEventsBroadcast (g_metrics g))"
  have ok: "hub_ok ?s" using assms(1) by (simp add: gw_ok_def hub_ok_def IncEventsBroadcast_def)
  then have d: "distinct (h_clients (fst ?s))" by (simp add: hub_ok_def)
  have f: "Broadcast e ?s = fold (offer e) (h_clients (fst ?s)) ?s" by (simp add: Broadcast_def)
  from fold_offer [OF ok d subset_refl f] assms(2,3)
  show "c \<in> set (h_clients (g_hub (manager_broadcast e g)))" "channel c (manager_broadcast e g) = channel c g @ [e]"
    by (auto simp: manager_broadcast_def channel_def send_capacity_def split: prod.split)
qed

lemma output_channel:
  assumes "gw_ok g" "c \<in> set (h_clients (g_hub g))" "length (channel c g) < 32"
  shows "c \<in> set (h_clients (g_hub (onTerminalOutput sid txt now g)))"
    "channel c (onTerminalOutput sid txt now g) = channel c g @ [output_event sid txt now]"
proof -
  let ?g = "touch sid now (g\<lparr>g_terminal := g_terminal g @ [(sid, txt)]\<rparr>)"
  have "gw_ok ?g" "g_hub ?g = g_hub g"
    using assms(1) by (auto simp: ok_touch) (auto simp: touch_def split: option.split)
  with cast_channel [of ?g c "output_event sid txt now"] assms(2,3)
  show "c \<in> set (h_clients (g_hub (onTerminalOutput sid txt now g)))"
    "channel c (onTerminalOutput sid txt now g) = channel c g @ [output_event sid txt now]"
    by (simp_all add: onTerminalOutput_def channel_def)
qed

subsection \<open>The reader\<close>

text \<open>The event of a piece that was decoded at a time, and the events of the rounds of the reader.\<close>

definition piece_event :: "(byte list \<Rightarrow> str option) \<Rightarrow> byte list \<times> utc \<Rightarrow> terminal_event" where
  "piece_event dec piece = output_event (lit ''s-1'') (Decode dec (fst piece)) (snd piece)"

lemma reader_channel:
  assumes "\<forall>x \<in> set rounds. goes_on x \<and> length (rr_data x) \<le> k"
    and "feed Filter f (map rr_data rounds) = (f1, out)" and "gw_ok g"
    and "c \<in> set (h_clients (g_hub g))" and "length (channel c g) + length rounds \<le> 32"
    and "readUpstream dec (lit ''s-1'') rounds f g = (exit, g1)"
  shows "\<exists>pieces. concat (map fst pieces) = out \<and> (\<forall>p \<in> set pieces. fst p \<noteq> [] \<and> length (fst p) \<le> k)
    \<and> exit = StillReading f1 \<and> c \<in> set (h_clients (g_hub g1)) \<and> channel c g1 = channel c g @ map (piece_event dec) pieces"
  using assms
proof (induction rounds arbitrary: f g out)
  case Nil
  then show ?case by (intro exI [of _ "[]"]) simp
next
  case (Cons x rounds)
  obtain f2 payload where F: "Filter f (rr_data x) = (f2, payload)" by (metis surj_pair)
  obtain f3 out2 where R: "feed Filter f2 (map rr_data rounds) = (f3, out2)" by (metis surj_pair)
  have f3: "f3 = f1" and out: "out = payload @ out2" using Cons.prems(2) F R by auto
  have x: "goes_on x" "length (rr_data x) \<le> k" using Cons.prems(1) by simp_all
  then have len: "length payload \<le> k" using telnet.run_short [of f "rr_data x"] F by simp
  let ?g = "if payload = [] then g else onTerminalOutput (lit ''s-1'') (Decode dec payload) (rr_now x) g"
  let ?es = "if payload = [] then [] else [(payload, rr_now x)]"
  have G: "gw_ok ?g" "c \<in> set (h_clients (g_hub ?g))" "channel c ?g = channel c g @ map (piece_event dec) ?es"
    using Cons.prems(3-5) by (auto simp: output_keeps output_channel piece_event_def)
  have run: "readUpstream dec (lit ''s-1'') rounds f2 ?g = (exit, g1)"
    using Cons.prems(6) x(1) by (auto simp: goes_on_def deliver_filter F split: if_splits)
  have "length (channel c ?g) + length rounds \<le> 32" using G(3) Cons.prems(5) by simp
  from Cons.IH [OF _ R [unfolded f3] G(1,2) this run] Cons.prems(1)
  obtain pieces where I: "concat (map fst pieces) = out2" "\<forall>p \<in> set pieces. fst p \<noteq> [] \<and> length (fst p) \<le> k"
    "exit = StillReading f1" "c \<in> set (h_clients (g_hub g1))" "channel c g1 = channel c ?g @ map (piece_event dec) pieces"
    by auto
  with G(3) out len show ?case by (intro exI [of _ "?es @ pieces"]) auto
qed

subsection \<open>The events on the wire\<close>

text \<open>
  An event that a reader can get back: Unicode texts, numbers of Go's \<open>int\<close>, and texts of together at
  most 5000 runes, so that its frame is shorter than 1 MiB.
\<close>

definition sendable :: "terminal_event \<Rightarrow> bool" where
  "sendable e \<longleftrightarrow> event_ok e
     \<and> length (ev_Event e) + length (ev_SessionID e) + length (ev_Text e) + length (ev_QueueRejectCode e)
         + length (ev_Timestamp e) \<le> 5000"

lemma pump_read:
  assumes "\<forall>w. set_deadline w" "wc_err w = None" "wc_out w = []" "\<forall>e \<in> set events. sendable e"
  shows "map read_event (read_payloads \<lparr>rc_data = wc_out (writePump marshalEvent set_deadline events w), rc_end = EOF\<rparr>)
    = map Some events"
proof -
  have "length (json_bytes (JObj (event_members e))) \<le> 2 ^ 20" if "e \<in> set events" for e
    using event_size [of e] assms(4) that by (fastforce simp: sendable_def event_ok_def)
  then have "read_payloads \<lparr>rc_data = wc_out (writePump marshalEvent set_deadline events w), rc_end = EOF\<rparr>
      = List.map_filter marshalEvent events"
    by (intro pump_in_order [OF assms(1-3)]) (simp add: marshalEvent_def)
  with assms(4) show ?thesis by (simp add: List.map_filter_def marshalEvent_def read_marshalled sendable_def)
qed

lemma text_ok_time: "text_ok (rfc3339nano t)"
  by (rule text_ok_ascii) (rule time_ascii)

lemma piece_sendable:
  assumes "decodes_text dec" "decodes_within dec" "length (fst p) \<le> 4096"
  shows "sendable (piece_event dec p)"
  using Decode_text [OF assms(1)] Decode_length [OF assms(2), of "fst p"] assms(3) time_length [of "snd p"]
  by (simp add: sendable_def event_ok_def piece_event_def output_event_def text_ok_time int_range_def)

text \<open>The channel of a browser that has just joined.\<close>

lemma joined_channel:
  assumes "gw_ok (ro_gw r)" "serve_terminal i a m path header r = (Upgraded p c, entry, r1)"
  shows "gw_ok (ro_gw r1)" "c \<in> set (h_clients (g_hub (ro_gw r1)))"
    "channel c (ro_gw r1) = [status_event (in_now i) (abs_gw (ro_gw r))]"
proof -
  obtain rid r0 where n: "nextRequestID (in_id_time i) r = (rid, r0)" by (rule prod.exhaust)
  have h: "handleTerminalWS i (recorder_answers a) rid header r0 = (Upgraded p c, r1)"
    using assms(2) by (auto simp: serve_terminal_def n Let_def split: prod.splits)
  have "gw_ok (ro_gw r0)" "text_ok rid" "rid \<noteq> []"
    using next_gw [OF n] assms(1) nextRequestID_ok [OF n] by simp_all
  from browser_joins [OF this h] next_gw [OF n]
  show "gw_ok (ro_gw r1)" "c \<in> set (h_clients (g_hub (ro_gw r1)))"
    "channel c (ro_gw r1) = [status_event (in_now i) (abs_gw (ro_gw r))]"
    by (simp_all add: clients_of_def client_of_def channel_def)
qed

text \<open>The numbers of a session fit Go's \<open>int\<close>.\<close>

definition counts_fit :: "gateway \<Rightarrow> bool" where
  "counts_fit g \<longleftrightarrow> int_range (g_queueMaxDepth g) \<and> int_range (int (length (pending (abs_gw g))))"

lemma status_sendable: "counts_fit g \<Longrightarrow> sendable (status_event now (abs_gw g))"
  using time_length [of now]
  by (auto simp: sendable_def event_ok_def status_event_def text_ok_time counts_fit_def pending_def int_range_def
      split: link.splits)

text \<open>
  C4. From the game server to the screen. Let a browser join a running gateway, in whatever state it is,
  and let the reader then take up to 31 reads of at most 4096 bytes, cut anywhere, of a well-formed
  Telnet stream. Then the browser is still served, and from the bytes its write pump sends on a
  connection that works a reader of the frames gets first the status of the session at the moment of the
  join and then one event of terminal output for every piece of the stream, each with the decoded text
  of its piece; the pieces together are exactly the data bytes of the stream. Nothing is lost,
  reordered or cut, and no frame exceeds 1 MiB. (31 events and the status fill the channel: this holds
  even when the pump takes nothing in the meantime. The code page decoder makes at most one rune of a
  byte, and the numbers of the session fit Go's \<open>int\<close>.)
\<close>

theorem upstream_to_screen:
  assumes "running enc dec err r" and "outside_texts dec err" and "decodes_within dec" and "counts_fit (ro_gw r)"
    and "serve_terminal i a m path header r = (Upgraded p c, entry, r1)"
    and "\<forall>x \<in> set items. well_formed x" and "\<forall>x \<in> set rounds. goes_on x \<and> length (rr_data x) \<le> 4096"
    and "length rounds \<le> 31" and "concat (map rr_data rounds) = concat (map wire items)"
    and "readUpstream dec (lit ''s-1'') rounds telnetStateData (ro_gw r1) = (exit, g)"
    and "\<forall>w. set_deadline w" and "wc_err w = None" and "wc_out w = []"
  shows "\<exists>pieces. concat (map fst pieces) = concat (map data_of items) \<and> [] \<notin> fst ` set pieces
    \<and> exit = StillReading telnetStateData \<and> c \<in> set (h_clients (g_hub g))
    \<and> map read_event (read_payloads
          \<lparr>rc_data = wc_out (writePump marshalEvent set_deadline (cl_send (h_heap (g_hub g) c)) w), rc_end = EOF\<rparr>)
      = Some (status_event (in_now i) (abs_gw (ro_gw r)))
        # map (\<lambda>(bytes, now). Some (output_event (lit ''s-1'') (Decode dec bytes) now)) pieces"
proof -
  let ?status = "status_event (in_now i) (abs_gw (ro_gw r))"
  have dec: "decodes_text dec" using assms(2) by (simp add: outside_texts_def)
  have J: "gw_ok (ro_gw r1)" "c \<in> set (h_clients (g_hub (ro_gw r1)))" "channel c (ro_gw r1) = [?status]"
    using joined_channel [OF _ assms(5)] running_ok [OF assms(1,2)] by (simp_all add: router_ok_def)
  have feed: "feed Filter telnetStateData (map rr_data rounds) = (telnetStateData, concat (map data_of items))"
    using assms(6,9) by (simp add: telnet.feed_run filter_items)
  obtain pieces where P: "concat (map fst pieces) = concat (map data_of items)"
    "\<forall>p \<in> set pieces. fst p \<noteq> [] \<and> length (fst p) \<le> 4096" "exit = StillReading telnetStateData"
    "c \<in> set (h_clients (g_hub g))" "channel c g = ?status # map (piece_event dec) pieces"
    using reader_channel [OF assms(7) feed J(1,2) _ assms(10)] J(3) assms(8) by auto
  have "\<forall>e \<in> set (channel c g). sendable e"
    using P(2,5) status_sendable [OF assms(4)] piece_sendable [OF dec assms(3)] by auto
  from pump_read [OF assms(11-13) this] P show ?thesis
    by (intro exI [of _ pieces]) (auto simp: channel_def piece_event_def case_prod_unfold)
qed

text \<open>A browser that joins a new gateway, and two reads of the game server.\<close>

lemma demo_joins:
  "\<exists>p c entry r1. serve_terminal demo_env demo_ws (lit ''GET'') (lit ''/api/v0/ws/terminal'') demo_header r
    = (Upgraded p c, entry, r1)"
proof -
  have "asks_upgrade demo_header" unfolding asks_upgrade_def demo_header_def by code_simp
  moreover obtain rid r0 where n: "nextRequestID (in_id_time demo_env) r = (rid, r0)" by (rule prod.exhaust)
  moreover have "rid \<noteq> []" using nextRequestID_ok [OF n] by simp
  ultimately show ?thesis
    by (auto simp: serve_terminal_def handleTerminalWS_def requestID_ctx asks_upgrade_def recorder_answers_def demo_ws_def
        Let_def split: prod.split)
qed

theorem upstream_to_screen_witness:
  "\<exists>p c entry r1 exit g pieces. serve_terminal demo_env demo_ws (lit ''GET'') (lit ''/api/v0/ws/terminal'') demo_header
      (NewRouter db_opens empty_database (Load (\<lambda>_ _ _. 0) (\<lambda>_. []))) = (Upgraded p c, entry, r1)
    \<and> readUpstream (\<lambda>_. None) (lit ''s-1'')
      [\<lparr>rr_deadline = None, rr_data = [104, 255], rr_err = None, rr_now = noon\<rparr>,
       \<lparr>rr_deadline = None, rr_data = [253, 24, 105], rr_err = Some NetTimeout, rr_now = noon\<rparr>]
      telnetStateData (ro_gw r1) = (exit, g)
    \<and> concat (map fst pieces) = [104, 105]
    \<and> map read_event (read_payloads \<lparr>rc_data = wc_out (writePump marshalEvent (\<lambda>_. True) (cl_send (h_heap (g_hub g) c))
        \<lparr>wc_out = [], wc_err = None\<rparr>), rc_end = EOF\<rparr>)
      = Some (status_event (in_now demo_env) (initial_spec 20))
        # map (\<lambda>(bytes, now). Some (output_event (lit ''s-1'') (Decode (\<lambda>_. None) bytes) now)) pieces"
proof -
  let ?r = "NewRouter db_opens empty_database (Load (\<lambda>_ _ _. 0) (\<lambda>_. []))"
  let ?items = "[Data 104, Negotiate 253 24, Data 105]"
  let ?rounds = "[\<lparr>rr_deadline = None, rr_data = [104, 255], rr_err = None, rr_now = noon\<rparr>,
    \<lparr>rr_deadline = None, rr_data = [253, 24, 105], rr_err = Some NetTimeout, rr_now = noon\<rparr>]"
  obtain p c entry r1 where join: "serve_terminal demo_env demo_ws (lit ''GET'') (lit ''/api/v0/ws/terminal'')
      demo_header ?r = (Upgraded p c, entry, r1)"
    using demo_joins by blast
  obtain exit g where read: "readUpstream (\<lambda>_. None) (lit ''s-1'') ?rounds telnetStateData (ro_gw r1) = (exit, g)"
    by (rule prod.exhaust)
  have start: "running (\<lambda>_. None) (\<lambda>_. None) (\<lambda>_. []) ?r"
    by (rule running.start) (simp_all add: file_texts_empty Load_def getenv_def Let_def)
  have out: "outside_texts (\<lambda>_. None) (\<lambda>_. [])" "decodes_within (\<lambda>_. None)"
    by (simp_all add: outside_texts_def decodes_text_def decodes_within_def)
  have "getenvInt (\<lambda>_. []) k 20 = 20" for k by (simp add: getenvInt_def getenv_def Let_def)
  then obtain interval where "ro_gw ?r = NewManager interval 20 NewMetrics"
    by (simp add: NewRouter_def Load_def Let_def)
  then have new: "abs_gw (ro_gw ?r) = initial_spec 20" "g_queueMaxDepth (ro_gw ?r) = 20"
    by (simp_all add: abs_New) (simp add: NewManager_def)
  have items: "\<forall>x \<in> set ?items. well_formed x" "\<forall>x \<in> set ?rounds. goes_on x \<and> length (rr_data x) \<le> 4096"
    "length ?rounds \<le> 31" "concat (map rr_data ?rounds) = concat (map wire ?items)"
    by (simp_all add: goes_on_def)
  have fit: "counts_fit (ro_gw ?r)"
    unfolding counts_fit_def new by (simp add: int_range_def pending_def initial_spec_def)
  from upstream_to_screen [OF start out fit join items read, of "\<lambda>_. True" "\<lparr>wc_out = [], wc_err = None\<rparr>", unfolded new]
  obtain pieces where "concat (map fst pieces) = [104, 105]"
    "map read_event (read_payloads \<lparr>rc_data = wc_out (writePump marshalEvent (\<lambda>_. True) (cl_send (h_heap (g_hub g) c))
        \<lparr>wc_out = [], wc_err = None\<rparr>), rc_end = EOF\<rparr>)
      = Some (status_event (in_now demo_env) (initial_spec 20))
        # map (\<lambda>(bytes, now). Some (output_event (lit ''s-1'') (Decode (\<lambda>_. None) bytes) now)) pieces"
    by auto
  with join read show ?thesis by (intro exI conjI)
qed

end
