(* ===== verification/EndToEnd.thy ===== *)
theory EndToEnd
  imports Http ManagerSpec StoreSpec SuggestionSpec
begin

text \<open>
  From the upstream connection to the API: the bytes of the game server through the reader, the decoder
  and the callback of the router into the state store and the suggestion log, and what the state
  endpoint then answers.
\<close>

subsection \<open>The texts of a session\<close>

text \<open>The callback on each text, with what the environment answers to it.\<close>

fun on_texts ::
    "(nat \<Rightarrow> db_answers \<times> utc \<times> (nat \<Rightarrow> alias_order)) \<Rightarrow> nat \<Rightarrow> (str \<times> str) list \<Rightarrow> router \<Rightarrow> router" where
  "on_texts env k [] r = r"
| "on_texts env k ((sid, txt) # ts) r =
     on_texts env (Suc k) ts (case env k of (a, now, orders) \<Rightarrow> on_terminal a now orders sid txt r)"

text \<open>
  The reader on a router: the rounds of \<open>readUpstream\<close>, and the callback on each text it hands over.
  The callback runs inside the reader and does not touch the gateway.
\<close>

definition upstream_says ::
    "(byte list \<Rightarrow> str option) \<Rightarrow> read_round list \<Rightarrow> (nat \<Rightarrow> db_answers \<times> utc \<times> (nat \<Rightarrow> alias_order)) \<Rightarrow> router \<Rightarrow> router" where
  "upstream_says dec rounds env r =
     (case readUpstream dec (lit ''s-1'') rounds telnetStateData (ro_gw r) of
        (_, g) \<Rightarrow> on_texts env 0 (drop (length (g_terminal (ro_gw r))) (g_terminal g)) (r\<lparr>ro_gw := g\<rparr>))"

fun calls_of ::
    "(nat \<Rightarrow> db_answers \<times> utc \<times> (nat \<Rightarrow> alias_order)) \<Rightarrow> nat \<Rightarrow> str list \<Rightarrow>
     ((db_answers \<times> utc) \<times> (nat \<Rightarrow> alias_order) \<times> str) list" where
  "calls_of env k [] = []"
| "calls_of env k (txt # ts) = (case env k of (a, now, orders) \<Rightarrow> ((a, now), orders, txt)) # calls_of env (Suc k) ts"

lemma on_texts_parts:
  "on_texts env k (map (\<lambda>txt. (sid, txt)) ts) r =
     r\<lparr>ro_state := (case ro_state r of
          Inl t \<Rightarrow> Inl (ingest_texts (\<lambda>i. UpsertDelta (fst i) (snd i)) sid (calls_of env k ts) t)
        | Inr m \<Rightarrow> Inr (ingest_texts (\<lambda>_ :: unit. memory_UpsertDelta) sid
                          (map (\<lambda>(i, orders, txt). ((), orders, txt)) (calls_of env k ts)) m)),
       ro_suggestions := fold (\<lambda>(sid, txt). IngestTerminal sid txt) (map (\<lambda>txt. (sid, txt)) ts) (ro_suggestions r)\<rparr>"
proof (induction ts arbitrary: k r)
  case (Cons u ts)
  obtain a now orders where e: "env k = (a, now, orders)" by (metis prod_cases3)
  show ?case
    by (simp add: Cons.IH e on_terminal_def ingest_texts_def Ingest_def router_UpsertDelta_def Let_def
        split: sum.split prod.split)
qed (simp add: ingest_texts_def split: sum.split)

subsection \<open>The state endpoint\<close>

text \<open>The answers of the database while a text is stored, or while the state is asked for.\<close>

definition stores_well :: "(nat \<Rightarrow> db_answers \<times> utc \<times> (nat \<Rightarrow> alias_order)) \<Rightarrow> bool" where
  "stores_well env \<longleftrightarrow> (\<forall>k. good_answers (fst (env k)))"

definition answers_well :: "env_answers \<Rightarrow> router \<Rightarrow> bool" where
  "answers_well i r \<longleftrightarrow>
     (case ro_state r of
        Inl t \<Rightarrow> good_answers (in_db i) \<and> (\<exists>answer. in_latest i = Inr answer \<and> latest_answer t answer)
      | Inr m \<Rightarrow> True)"

text \<open>The response that shows a state, whenever it was updated.\<close>

definition shows_state :: "env_answers \<Rightarrow> str \<Rightarrow> router \<Rightarrow> snapshot option \<Rightarrow> bool" where
  "shows_state i ctx r v \<longleftrightarrow>
     (\<exists>found. map_option (\<lambda>s. s\<lparr>sn_UpdatedAt := []\<rparr>) found = v
       \<and> fst (handleStateSnapshot i ctx r)
           = writeSuccess (in_meta_time i) 200 ctx (case found of None \<Rightarrow> JObj [] | Some s \<Rightarrow> snapshot_json s))"

lemma calls_good: "stores_well env \<Longrightarrow> \<forall>(i, orders, u) \<in> set (calls_of env k ts). good_answers (fst i)"
proof (induction ts arbitrary: k)
  case (Cons u ts)
  then show ?case by (auto simp: stores_well_def split: prod.splits) (metis fst_conv)
qed simp

lemma state_shown:
  assumes "ro_state r = NewService a path empty_database" "stores_well env" "ctx \<noteq> []"
    and r1: "r1 = on_texts env 0 (map (\<lambda>u. (lit ''s-1'', u)) ts) r" and "answers_well i r1"
  shows "shows_state i ctx r1 (stored_after (lit ''s-1'') (deltas_of (calls_of env 0 ts)))"
proof -
  let ?sid = "lit ''s-1''" and ?calls = "calls_of env 0 ts"
  let ?v = "stored_after ?sid (deltas_of ?calls)"
  have h: "fst (handleStateSnapshot i ctx r1) = (case router_GetLatest i (ro_state r1) of
        Inl err \<Rightarrow> writeError (in_meta_time i) 500 ctx ''INTERNAL_ERROR'' ''failed to load state snapshot'' []
      | Inr found \<Rightarrow> writeSuccess (in_meta_time i) 200 ctx (case found of None \<Rightarrow> JObj [] | Some s \<Rightarrow> snapshot_json s))"
    using assms(3) by (simp add: handleStateSnapshot_def requestID_def Service_Snapshot_def split: sum.split option.split)
  have "ro_state r = Inl init_tables \<or> ro_state r = Inr None"
    by (auto simp: assms(1) NewService_def NewSQLiteStore_def init_schema_def empty_database_def if_missing_def
        init_tables_def Let_def split: sum.split option.split)
  then show ?thesis
  proof
    assume "ro_state r = Inl init_tables"
    then have st: "ro_state r1 = Inl (ingest_texts (\<lambda>i. UpsertDelta (fst i) (snd i)) ?sid ?calls init_tables)"
      (is "_ = Inl ?t") by (simp add: r1 on_texts_parts)
    have T: "tables_ok ?sid ?t" "sql_content ?sid ?t = ?v"
      using sqlite_stores [OF _ calls_good [OF assms(2)] refl, of ?sid] by simp_all
    obtain answer where A: "good_answers (in_db i)" "in_latest i = Inr answer" "latest_answer ?t answer"
      using assms(5) by (auto simp: answers_well_def st)
    have "\<exists>found. GetLatest (in_db i) (Inr answer) ?t = Inr found
        \<and> map_option (\<lambda>s. s\<lparr>sn_UpdatedAt := []\<rparr>) found = ?v"
      using GetBySession_content [OF A(1) T(1)] latest_single [OF T(1) A(3)] T(2) by (auto simp: GetLatest_def)
    then show ?thesis by (auto simp: shows_state_def h st router_GetLatest_def A(2))
  next
    assume "ro_state r = Inr None"
    then have "ro_state r1 = Inr (stored_after ?sid (deltas_of (map (\<lambda>(i, orders, u). ((), orders, u)) ?calls)))"
      by (simp add: r1 on_texts_parts memory_stores)
    moreover have "deltas_of (map (\<lambda>(i, orders, u). ((), orders, u)) ?calls) = deltas_of ?calls"
      by (simp add: deltas_of_def comp_def case_prod_unfold)
    moreover have "map_option (\<lambda>s. s\<lparr>sn_UpdatedAt := []\<rparr>) ?v = ?v"
      by (simp add: stored_after_def summary_def new_snapshot_def)
    ultimately show ?thesis
      unfolding shows_state_def by (intro exI [of _ ?v] conjI) (simp_all add: h router_GetLatest_def memory_GetLatest_def)
  qed
qed

text \<open>
  C3. From the bytes of the game server to the API. Let a new session run until the server closes the
  connection: a well-formed Telnet stream in any reads, idle timeouts in between, no database statement
  failing. Cut into the pieces that were decoded, the data bytes of the stream give texts such that the
  state endpoint answers 200 with the sum of what the parser finds in them (the last location, prompt
  and tags, the last item of each slot), or the empty object when it finds nothing, whichever store is
  in use; the suggestion service has the last non-blank lines of the same texts; and the session is down.
\<close>

theorem upstream_to_api:
  assumes "\<forall>x \<in> set items. well_formed x" and "\<forall>x \<in> set rounds. goes_on x"
    and "concat (map rr_data rounds) = concat (map wire items)" and "gw_ok (ro_gw r)"
    and "ro_state r = NewService a path empty_database" and "ro_suggestions r = NewSuggestions limit"
    and "stores_well env" and "ctx \<noteq> []"
    and "r1 = upstream_says dec (rounds @ [\<lparr>rr_deadline = None, rr_data = [], rr_err = Some UpstreamEOF, rr_now = now\<rparr>]) env r"
    and "answers_well i r1"
  shows "\<exists>parts. concat parts = concat (map data_of items) \<and> [] \<notin> set parts
    \<and> shows_state i ctx r1 (stored_after (lit ''s-1'') (deltas_of (calls_of env 0 (map (Decode dec) parts))))
    \<and> su_recent (ro_suggestions r1) (lit ''s-1'') =
        last_n (nat (if limit \<le> 0 then 80 else limit)) (concat (map lines_of (map (Decode dec) parts)))
    \<and> gw_ok (ro_gw r1) \<and> link_of (ro_gw r1) = Down"
proof -
  obtain parts g where R: "concat parts = concat (map data_of items)" "[] \<notin> set parts"
      "readUpstream dec (lit ''s-1'') (rounds @ [\<lparr>rr_deadline = None, rr_data = [], rr_err = Some UpstreamEOF, rr_now = now\<rparr>])
        telnetStateData (ro_gw r) = (ReaderDone, g)"
      "g_terminal g = g_terminal (ro_gw r) @ map (\<lambda>p. (lit ''s-1'', Decode dec p)) parts" "gw_ok g" "link_of g = Down"
    using reader_run [OF assms(1-4), of dec now] by blast
  let ?ts = "map (Decode dec) parts"
  have r1: "r1 = on_texts env 0 (map (\<lambda>u. (lit ''s-1'', u)) ?ts) (r\<lparr>ro_gw := g\<rparr>)"
    by (simp add: assms(9) upstream_says_def R(3,4) comp_def del: lit.simps)
  have "shows_state i ctx r1 (stored_after (lit ''s-1'') (deltas_of (calls_of env 0 ?ts)))"
    by (rule state_shown [OF _ assms(7,8) r1 assms(10)]) (simp add: assms(5))
  moreover have sug: "ro_suggestions r1 = fold (\<lambda>(sid, u). IngestTerminal sid u)
      (map (\<lambda>u. (lit ''s-1'', u)) ?ts) (NewSuggestions limit)" and "ro_gw r1 = g"
    unfolding r1 on_texts_parts by (simp_all add: assms(6) del: map_map lit.simps)
  moreover have "su_recent (ro_suggestions r1) (lit ''s-1'') =
      last_n (nat (if limit \<le> 0 then 80 else limit)) (concat (map lines_of ?ts))"
    unfolding sug log_is_tail by (simp add: comp_def del: lit.simps)
  ultimately show ?thesis using R(1,2,5,6) by (intro exI [of _ parts]) simp
qed

text \<open>A gateway whose database cannot be opened, so that it keeps the state in memory.\<close>

lemma memory_stays: "ro_state r = Inr m \<Longrightarrow> \<exists>m1. ro_state (on_texts env k ts r) = Inr m1"
  by (induction env k ts r arbitrary: m rule: on_texts.induct)
    (auto simp: on_terminal_def Ingest_def router_UpsertDelta_def Let_def split: prod.splits)

definition no_dir :: open_answers where
  "no_dir = \<lparr>oa_mkdir = Some (lit ''read-only file system''), oa_open = None, oa_exec = (\<lambda>_. None)\<rparr>"

definition quiet_env :: "nat \<Rightarrow> db_answers \<times> utc \<times> (nat \<Rightarrow> alias_order)" where
  "quiet_env = (\<lambda>_. (all_good, noon, \<lambda>_. equipmentAliases))"

theorem upstream_to_api_witness:
  "\<exists>i r1 parts. concat parts = [104, 105]
    \<and> shows_state i [49] r1 (stored_after (lit ''s-1'') (deltas_of (calls_of quiet_env 0 (map (Decode (\<lambda>_. None)) parts))))
    \<and> link_of (ro_gw r1) = Down"
proof -
  let ?r = "NewRouter no_dir empty_database (Load (\<lambda>_ _ _. 0) (\<lambda>_. []))"
  let ?items = "[Data 104, Negotiate 253 24, Data 105]"
  let ?rounds = "[\<lparr>rr_deadline = None, rr_data = [104, 255], rr_err = None, rr_now = noon\<rparr>,
    \<lparr>rr_deadline = None, rr_data = [253, 24, 105], rr_err = Some NetTimeout, rr_now = noon\<rparr>]"
  let ?r1 = "upstream_says (\<lambda>_. None)
    (?rounds @ [\<lparr>rr_deadline = None, rr_data = [], rr_err = Some UpstreamEOF, rr_now = noon\<rparr>]) quiet_env ?r"
  have items: "\<forall>x \<in> set ?items. well_formed x" "\<forall>x \<in> set ?rounds. goes_on x"
    "concat (map rr_data ?rounds) = concat (map wire ?items)"
    by (simp_all add: goes_on_def)
  have gw: "gw_ok (ro_gw ?r)" by (simp add: NewRouter_def Load_def gw_ok_New)
  have svc: "ro_state ?r = NewService no_dir (SQLitePath (Load (\<lambda>_ _ _. 0) (\<lambda>_. []))) empty_database"
    "ro_suggestions ?r = NewSuggestions (SuggestRecentLines (Load (\<lambda>_ _ _. 0) (\<lambda>_. [])))"
    by (simp_all add: NewRouter_def)
  have well: "stores_well quiet_env" by (simp add: stores_well_def quiet_env_def all_good)
  have "ro_state ?r = Inr None"
    unfolding svc(1) by (simp add: NewService_def NewSQLiteStore_def no_dir_def Load_def getenv_def Let_def)
  then have "\<exists>m. ro_state ?r1 = Inr m"
    unfolding upstream_says_def by (auto split: prod.split intro!: memory_stays simp del: readUpstream.simps)
  then have ans: "answers_well i ?r1" for i by (auto simp: answers_well_def)
  from upstream_to_api [OF items gw svc well _ refl ans, of "[49]"]
  show ?thesis by (simp del: lit.simps readUpstream.simps) blast
qed

end
