(* ===== verification/OpenRouter.thy ===== *)
theory OpenRouter
  imports Suggestions Payload Http
begin

text \<open>
  \<open>suggestions/openrouter.go\<close>: the client of the language model. What the network does with a request
  is an input (\<open>exchange\<close>); an error carries its text and what \<open>errors.Is\<close> and \<open>errors.As\<close> find in it,
  which wrapping with \<open>%w\<close> keeps. Decoder errors have their text as a parameter. Files are
  written by the environment: the model gives the name and the text of each transcript.
\<close>

text \<open>
  \<open>ne_deadline\<close>: the chain of the error holds \<open>context.DeadlineExceeded\<close>; \<open>ne_net\<close>: the first
  \<open>net.Error\<close> of the chain, if there is one, as the answer of its method \<open>Timeout\<close>.
\<close>

record net_error =
  ne_text :: str
  ne_deadline :: bool
  ne_net :: "bool option"

datatype exchange =
    NotCreated str
  | NotDone net_error
  | NotRead net_error
  | Replied nat "byte list"

record openrouter =
  oc_baseURL :: str
  oc_model :: str
  oc_apiKey :: str
  oc_timeout :: int
  oc_transcriptDir :: str
  oc_transcriptSeq :: uint64

definition default_base :: str where "default_base = lit ''https://openrouter.ai/api/v1''"
definition default_model :: str where "default_model = lit ''openai/gpt-4o-mini''"
definition defaultLLMTranscriptDir :: str where "defaultLLMTranscriptDir = lit ''logs''"

definition trim_slashes :: "str \<Rightarrow> str" where
  "trim_slashes s = rev (dropWhile (\<lambda>r. r = 47) (rev s))"

definition NewOpenRouterClient :: "str \<Rightarrow> str \<Rightarrow> str \<Rightarrow> int \<Rightarrow> openrouter" where
  "NewOpenRouterClient baseURL model apiKey timeout =
     \<lparr>oc_baseURL = trim_slashes (if trim_space baseURL = [] then default_base else baseURL),
      oc_model = (if trim_space model = [] then default_model else model),
      oc_apiKey = apiKey,
      oc_timeout = (if timeout \<le> 0 then 120000 * millisecond else timeout),
      oc_transcriptDir = defaultLLMTranscriptDir, oc_transcriptSeq = 0\<rparr>"

subsection \<open>One request\<close>

definition system_prompt :: str where
  "system_prompt =
     lit ''You are an Arda MUD assistant. Return strict JSON only with keys: commands, reason, expected_outcome.''"

text \<open>The payload is made of maps, printed with their keys in order.\<close>

definition chat_message :: "string \<Rightarrow> str \<Rightarrow> json" where
  "chat_message role content = JObj (member ''content'' (JStr content) @ member ''role'' (JStr (lit role)))"

definition request_payload :: "str \<Rightarrow> str \<Rightarrow> json" where
  "request_payload model prompt =
     JObj (member ''messages'' (JArr [chat_message ''system'' system_prompt, chat_message ''user'' prompt]) @
           member ''model'' (JStr model) @ member ''temperature'' (JNum (lit ''0.2'')))"

record http_request =
  hq_url :: str
  hq_authorization :: str
  hq_content_type :: str
  hq_body :: "byte list"

definition chat_request :: "openrouter \<Rightarrow> str \<Rightarrow> http_request" where
  "chat_request c prompt =
     \<lparr>hq_url = oc_baseURL c @ lit ''/chat/completions'', hq_authorization = lit ''Bearer '' @ oc_apiKey c,
      hq_content_type = lit ''application/json'', hq_body = json_bytes (request_payload (oc_model c) prompt)\<rparr>"

text \<open>
  The decoding of the reply: the contents of the choices. As in \<open>Suggestions\<close>, unknown members are
  ignored here, null leaves a value, and a repeated member is decoded over the earlier one.
\<close>

definition content_field :: "str \<Rightarrow> json \<Rightarrow> str \<Rightarrow> str option" where
  "content_field k v s = (if fold_key k = lit ''content'' then over_text s v else Some s)"

definition over_struct :: "(str \<Rightarrow> json \<Rightarrow> 'a \<Rightarrow> 'a option) \<Rightarrow> 'a \<Rightarrow> json \<Rightarrow> 'a option" where
  "over_struct field s v =
     (case v of JNull \<Rightarrow> Some s | JObj ms \<Rightarrow> decode_members field ms s | _ \<Rightarrow> None)"

definition choice_field :: "str \<Rightarrow> json \<Rightarrow> str \<Rightarrow> str option" where
  "choice_field k v s = (if fold_key k = lit ''message'' then over_struct content_field s v else Some s)"

fun over_choices :: "str list \<Rightarrow> json list \<Rightarrow> str list option" where
  "over_choices old [] = Some []"
| "over_choices old (v # vs) =
     (case over_struct choice_field (case old of [] \<Rightarrow> [] | x # _ \<Rightarrow> x) v of
        None \<Rightarrow> None
      | Some s \<Rightarrow> map_option (Cons s) (over_choices (tl old) vs))"

definition reply_field :: "str \<Rightarrow> json \<Rightarrow> str list \<Rightarrow> str list option" where
  "reply_field k v cs =
     (if fold_key k = lit ''choices''
      then (case v of JNull \<Rightarrow> Some [] | JArr vs \<Rightarrow> over_choices cs vs | _ \<Rightarrow> None)
      else Some cs)"

definition decode_reply :: "byte list \<Rightarrow> str list option" where
  "decode_reply payload =
     (case read_json payload of None \<Rightarrow> None | Some v \<Rightarrow> over_struct reply_field [] v)"

definition plain_error :: "str \<Rightarrow> net_error + str" where
  "plain_error msg = Inl \<lparr>ne_text = msg, ne_deadline = False, ne_net = None\<rparr>"

definition wrap_error :: "string \<Rightarrow> net_error \<Rightarrow> net_error + str" where
  "wrap_error what e = Inl (e\<lparr>ne_text := lit what @ ne_text e\<rparr>)"

definition read_reply :: "(byte list \<Rightarrow> str) \<Rightarrow> exchange \<Rightarrow> net_error + str" where
  "read_reply decode_error x =
     (case x of
        NotCreated msg \<Rightarrow> plain_error (lit ''create openrouter request: '' @ msg)
      | NotDone e \<Rightarrow> wrap_error ''openrouter request failed: '' e
      | NotRead e \<Rightarrow> wrap_error ''read openrouter response: '' e
      | Replied status payload \<Rightarrow>
          if status \<ge> 400
          then plain_error (lit ''openrouter status '' @ itoa (int status) @ lit '': '' @ trim_space (decode_utf8 payload))
          else (case decode_reply payload of
                  None \<Rightarrow> plain_error (lit ''decode openrouter response: '' @ decode_error payload)
                | Some choices \<Rightarrow>
                    (case choices of
                       [] \<Rightarrow> plain_error (lit ''openrouter response has no choices'')
                     | c # _ \<Rightarrow>
                         let content = trim_space c
                         in if content = [] then plain_error (lit ''openrouter response content is empty'')
                            else Inr content)))"

subsection \<open>Transcripts\<close>

text \<open>\<open>json.MarshalIndent\<close> with two blanks.\<close>

definition new_line :: "nat \<Rightarrow> str" where
  "new_line depth = 10 # replicate (2 * depth) 32"

fun indented :: "nat \<Rightarrow> json \<Rightarrow> str" where
  "indented depth (JArr vs) =
     (if vs = [] then lit ''[]''
      else [91] @ sep_by (map (\<lambda>v. new_line (Suc depth) @ indented (Suc depth) v) vs) @ new_line depth @ [93])"
| "indented depth (JObj ms) =
     (if ms = [] then lit ''{}''
      else [123] @
           sep_by (map (\<lambda>(k, v). new_line (Suc depth) @ print_string k @ [58, 32] @ indented (Suc depth) v) ms) @
           new_line depth @ [125])"
| "indented depth v = print_json v"

record transcript =
  tr_name :: str
  tr_text :: str

definition at_least :: "nat \<Rightarrow> str \<Rightarrow> str" where
  "at_least n s = replicate (n - length s) 48 @ s"

definition file_time :: "utc \<Rightarrow> str" where
  "file_time t =
     pad 4 (year t) @ pad 2 (month t) @ pad 2 (day t) @ [84] @ pad 2 (hour t) @ pad 2 (minute t) @
     pad 2 (second t) @ [46] @ pad 9 (nanos t) @ [90]"

definition transcript_text :: "utc \<Rightarrow> str \<Rightarrow> str \<Rightarrow> byte list \<Rightarrow> net_error + str \<Rightarrow> str" where
  "transcript_text startedAt model prompt rawResponse r =
     lit ''started_at_utc: '' @ rfc3339nano startedAt @ [10] @ lit ''model: '' @ model @ [10] @
     lit ''request_json:'' @ [10] @ indented 0 (request_payload model prompt) @
     [10, 10] @ lit ''response_raw:'' @ [10] @
     (if rawResponse = [] then lit ''(empty)'' else decode_utf8 rawResponse) @ [10] @
     [10] @ lit ''response_content:'' @ [10] @
     (case r of Inr content \<Rightarrow> if trim_space content = [] then lit ''(empty)'' else content | Inl _ \<Rightarrow> lit ''(empty)'') @ [10] @
     [10] @ lit ''error:'' @ [10] @
     (case r of Inl e \<Rightarrow> ne_text e | Inr _ \<Rightarrow> lit ''(none)'') @ [10]"

text \<open>
  \<open>writeTranscript\<close>; without its directory nothing is counted or written. The directory is the constant
  \<open>logs\<close>, so that joining it with the file name is what \<open>filepath.Join\<close> gives.
\<close>

definition writeTranscript ::
    "bool \<Rightarrow> utc \<Rightarrow> str \<Rightarrow> byte list \<Rightarrow> net_error + str \<Rightarrow> openrouter \<Rightarrow> transcript option \<times> openrouter" where
  "writeTranscript mkdir_ok startedAt prompt rawResponse r c =
     (let dir = (if trim_space (oc_transcriptDir c) = [] then defaultLLMTranscriptDir else oc_transcriptDir c) in
      if \<not> mkdir_ok then (None, c)
      else
        let seq = oc_transcriptSeq c + 1
        in (Some \<lparr>tr_name = dir @ [47] @ file_time startedAt @ lit ''-'' @ at_least 6 (itoa (uint seq)) @ lit ''.log'',
                  tr_text = transcript_text startedAt (oc_model c) prompt rawResponse r\<rparr>,
            c\<lparr>oc_transcriptSeq := seq\<rparr>))"

text \<open>The bytes of the reply that the transcript shows.\<close>

definition raw_response :: "exchange \<Rightarrow> byte list" where
  "raw_response x = (case x of Replied status payload \<Rightarrow> payload | _ \<Rightarrow> [])"

record attempt_answers =
  at_exchange :: exchange
  at_time :: utc
  at_mkdir :: bool

text \<open>
  One attempt: the request that goes out (none when it cannot be created), the result, the transcript.
\<close>

definition requestOnce ::
    "(byte list \<Rightarrow> str) \<Rightarrow> attempt_answers \<Rightarrow> str \<Rightarrow> openrouter \<Rightarrow>
     ((net_error + str) \<times> http_request list \<times> transcript option) \<times> openrouter" where
  "requestOnce decode_error a prompt c =
     (let r = read_reply decode_error (at_exchange a);
          sent = (case at_exchange a of NotCreated _ \<Rightarrow> [] | _ \<Rightarrow> [chat_request c prompt]);
          (t, c1) = writeTranscript (at_mkdir a) (at_time a) prompt (raw_response (at_exchange a)) r c
      in ((r, sent, t), c1))"

subsection \<open>Attempts\<close>

definition isRetryableTimeout :: "net_error \<Rightarrow> bool" where
  "isRetryableTimeout e =
     (if ne_deadline e then True else case ne_net e of None \<Rightarrow> False | Some timeout \<Rightarrow> timeout)"

function attempts ::
    "(byte list \<Rightarrow> str) \<Rightarrow> (nat \<Rightarrow> attempt_answers) \<Rightarrow> str \<Rightarrow> nat \<Rightarrow> str \<Rightarrow> openrouter \<Rightarrow>
     ((str + str) \<times> http_request list) \<times> openrouter" where
  "attempts decode_error answers prompt attempt lastErr c =
     (if attempt < 2 then
        (case requestOnce decode_error (answers attempt) prompt c of
           ((r, sent, _), c1) \<Rightarrow>
             (case r of
                Inr content \<Rightarrow> ((Inr content, sent), c1)
              | Inl e \<Rightarrow>
                  if \<not> isRetryableTimeout e \<or> attempt = 1 then ((Inl (ne_text e), sent), c1)
                  else (case attempts decode_error answers prompt (Suc attempt) (ne_text e) c1 of
                          ((r2, sent2), c2) \<Rightarrow> ((r2, sent @ sent2), c2))))
      else ((Inl lastErr, []), c))"
  by pat_completeness auto
termination
  by (relation "measure (\<lambda>(_, _, _, attempt, _, _). 2 - attempt)") auto

declare attempts.simps [simp del]

definition RequestSuggestion ::
    "(byte list \<Rightarrow> str) \<Rightarrow> (nat \<Rightarrow> attempt_answers) \<Rightarrow> str \<Rightarrow> openrouter \<Rightarrow>
     ((str + str) \<times> http_request list) \<times> openrouter" where
  "RequestSuggestion decode_error answers prompt c =
     (if trim_space (oc_apiKey c) = [] then ((Inl (lit ''openrouter api key is not configured''), []), c)
      else attempts decode_error answers prompt 0 [] c)"

end
