(* ===== verification/OpenRouterSpec.thy ===== *)
theory OpenRouterSpec
  imports OpenRouter SuggestionSpec
begin

text \<open>
  What the client of the language model sends, when it tries again, and the way of an answer from the
  network to the suggestion the API shows.
\<close>

subsection \<open>The request\<close>

lemma payload_ok: "text_ok model \<Longrightarrow> text_ok prompt \<Longrightarrow> json_ok (request_payload model prompt)"
proof -
  assume "text_ok model" "text_ok prompt"
  moreover have "text_ok system_prompt" unfolding system_prompt_def by (simp add: scalar_def)
  moreover have "json_ok (JNum (lit ''0.2''))"
    by (simp add: valid_number_def int_part_def frac_part_def exp_part_def digits1_def num_char_def is_digit_def)
  ultimately show ?thesis
    by (simp add: request_payload_def chat_message_def scalar_def del: json_ok.simps(1))
qed

text \<open>
  C28. The request asks what was meant. Whatever Unicode text the prompt is (quotes, newlines and
  control characters of the terminal included), the body of the request, read back, is an object with
  the model and two messages: the instructions for the system and the prompt, unchanged, for the user.
\<close>

theorem chat_request_read:
  assumes "text_ok (oc_model c)" and "text_ok prompt"
  shows "\<exists>ms sys user. read_json (hq_body (chat_request c prompt)) = Some (JObj ms)
    \<and> get ''model'' ms = Some (JStr (oc_model c)) \<and> get ''messages'' ms = Some (JArr [JObj sys, JObj user])
    \<and> get_text ''role'' sys = lit ''system'' \<and> get_text ''content'' sys = system_prompt
    \<and> get_text ''role'' user = lit ''user'' \<and> get_text ''content'' user = prompt"
  unfolding chat_request_def
  using read_json_bytes [OF payload_ok [OF assms]]
  by (simp add: request_payload_def chat_message_def get_text_def del: lit.simps)

theorem chat_request_read_witness:
  "\<exists>ms. read_json (hq_body (chat_request (NewOpenRouterClient [] [] [] 0) [34, 10, 1103])) = Some (JObj ms)
     \<and> get ''model'' ms = Some (JStr default_model)"
proof -
  have m: "oc_model (NewOpenRouterClient [] [] [] 0) = default_model" by (simp add: NewOpenRouterClient_def)
  have "text_ok default_model" "text_ok [34, 10, 1103]" by (simp_all add: default_model_def scalar_def)
  with chat_request_read [of "NewOpenRouterClient [] [] [] 0" "[34, 10, 1103]"] show ?thesis unfolding m by blast
qed

subsection \<open>Trying again\<close>

definition outcome_of :: "net_error + str \<Rightarrow> str + str" where
  "outcome_of r = (case r of Inl e \<Rightarrow> Inl (ne_text e) | Inr content \<Rightarrow> Inr content)"

definition timed_out :: "net_error + str \<Rightarrow> bool" where
  "timed_out r = (case r of Inl e \<Rightarrow> ne_deadline e \<or> ne_net e = Some True | Inr _ \<Rightarrow> False)"

definition sent_for :: "exchange \<Rightarrow> http_request \<Rightarrow> http_request list" where
  "sent_for x q = (case x of NotCreated _ \<Rightarrow> [] | _ \<Rightarrow> [q])"

lemma requestOnce_eq:
  "\<exists>t c1. requestOnce err a prompt c =
      ((read_reply err (at_exchange a), sent_for (at_exchange a) (chat_request c prompt), t), c1)
    \<and> chat_request c1 prompt = chat_request c prompt"
proof -
  obtain t c1 where w: "writeTranscript (at_mkdir a) (at_time a) prompt (raw_response (at_exchange a))
      (read_reply err (at_exchange a)) c = (t, c1)" by (rule prod.exhaust)
  then have "chat_request c1 prompt = chat_request c prompt"
    by (auto simp: writeTranscript_def chat_request_def Let_def split: if_splits)
  moreover have "requestOnce err a prompt c =
      ((read_reply err (at_exchange a), sent_for (at_exchange a) (chat_request c prompt), t), c1)"
    unfolding requestOnce_def sent_for_def by (simp add: w)
  ultimately show ?thesis by blast
qed

lemma content_trimmed: "read_reply err x = Inr content \<Longrightarrow> content \<noteq> [] \<and> trim_space content = content"
  by (auto simp: read_reply_def plain_error_def wrap_error_def Let_def
      split: exchange.splits if_splits option.splits list.splits)

definition result_of :: "(byte list \<Rightarrow> str) \<Rightarrow> (nat \<Rightarrow> attempt_answers) \<Rightarrow> nat \<Rightarrow> net_error + str" where
  "result_of err answers k = read_reply err (at_exchange (answers k))"

definition sent_at :: "(nat \<Rightarrow> attempt_answers) \<Rightarrow> str \<Rightarrow> openrouter \<Rightarrow> nat \<Rightarrow> http_request list" where
  "sent_at answers prompt c k = sent_for (at_exchange (answers k)) (chat_request c prompt)"

definition expected :: "(byte list \<Rightarrow> str) \<Rightarrow> (nat \<Rightarrow> attempt_answers) \<Rightarrow> str \<Rightarrow> openrouter \<Rightarrow> (str + str) \<times> http_request list" where
  "expected err answers prompt c =
     (if trim_space (oc_apiKey c) = [] then (Inl (lit ''openrouter api key is not configured''), [])
      else if timed_out (result_of err answers 0)
      then (outcome_of (result_of err answers 1), sent_at answers prompt c 0 @ sent_at answers prompt c 1)
      else (outcome_of (result_of err answers 0), sent_at answers prompt c 0))"

lemma attempts_expected: "fst (RequestSuggestion err answers prompt c) = expected err answers prompt c"
proof -
  obtain t0 c0 where a0: "requestOnce err (answers 0) prompt c =
      ((result_of err answers 0, sent_at answers prompt c 0, t0), c0)"
    and q: "chat_request c0 prompt = chat_request c prompt"
    using requestOnce_eq [of err "answers 0" prompt c] by (auto simp: result_of_def sent_at_def)
  obtain t1 c1 where a1: "requestOnce err (answers (Suc 0)) prompt c0 =
      ((result_of err answers 1, sent_at answers prompt c 1, t1), c1)"
    using requestOnce_eq [of err "answers 1" prompt c0] q by (auto simp: result_of_def sent_at_def)
  have second: "fst (attempts err answers prompt (Suc 0) e c0)
      = (outcome_of (result_of err answers 1), sent_at answers prompt c 1)" for e
    by (subst attempts.simps) (simp add: a1 outcome_of_def split: sum.split)
  have first: "fst (attempts err answers prompt 0 [] c) =
      (if timed_out (result_of err answers 0)
       then (outcome_of (result_of err answers 1), sent_at answers prompt c 0 @ sent_at answers prompt c 1)
       else (outcome_of (result_of err answers 0), sent_at answers prompt c 0))"
  proof (cases "result_of err answers 0")
    case (Inl e)
    with second [of "ne_text e"] show ?thesis
      by (subst attempts.simps) (auto simp: a0 timed_out_def isRetryableTimeout_def outcome_of_def split: prod.splits option.splits)
  next
    case (Inr content)
    then show ?thesis by (subst attempts.simps) (simp add: a0 timed_out_def outcome_of_def)
  qed
  then show ?thesis by (simp add: RequestSuggestion_def expected_def)
qed

text \<open>
  C27. At most two requests, and the second only after a time out. Without an API key nothing is sent.
  Otherwise the result is that of the first attempt, unless it timed out (in the exchange or in the
  reading of the body); then the same request is sent once more and its result is final. The content
  returned is never blank and has no surrounding white space.
\<close>

theorem request_attempts:
  "fst (RequestSuggestion err answers prompt c) = expected err answers prompt c
    \<and> length (snd (fst (RequestSuggestion err answers prompt c))) \<le> 2
    \<and> set (snd (fst (RequestSuggestion err answers prompt c))) \<subseteq> {chat_request c prompt}
    \<and> {content. fst (fst (RequestSuggestion err answers prompt c)) = Inr content}
        \<subseteq> {content. content \<noteq> [] \<and> trim_space content = content}"
proof -
  have l: "length (sent_at answers prompt c k) \<le> 1" "set (sent_at answers prompt c k) \<subseteq> {chat_request c prompt}" for k
    by (simp_all add: sent_at_def sent_for_def split: exchange.split)
  have "outcome_of (result_of err answers k) = Inr content \<Longrightarrow> content \<noteq> [] \<and> trim_space content = content" for k content
    using content_trimmed by (auto simp: outcome_of_def result_of_def split: sum.splits)
  then show ?thesis
    using l [of 0] l [of 1] unfolding attempts_expected by (auto simp: expected_def)
qed

subsection \<open>From the network to the suggestion\<close>

definition reply_json :: "str \<Rightarrow> json" where
  "reply_json content =
     JObj (member ''choices'' (JArr [JObj (member ''message'' (JObj (member ''content'' (JStr content))))]))"

lemma key_folds:
  "fold_key (lit ''choices'') = lit ''choices''" "fold_key (lit ''message'') = lit ''message''"
  "fold_key (lit ''content'') = lit ''content''"
  by code_simp+

lemma decode_reply_json: "text_ok content \<Longrightarrow> decode_reply (json_bytes (reply_json content)) = Some [content]"
proof -
  assume "text_ok content"
  then have "json_ok (reply_json content)" by (simp add: reply_json_def scalar_def)
  from read_json_bytes [OF this] show ?thesis
    by (simp add: decode_reply_def reply_json_def over_struct_def member_def reply_field_def choice_field_def
        content_field_def over_text_def key_folds del: lit.simps)
qed

lemma normalize_trimmed: "normalizeSuggestionJSON (trim_space raw) = normalizeSuggestionJSON raw"
  by (simp add: normalizeSuggestionJSON_def)

text \<open>
  What a job gets when the first request is answered with status 200 and, as the content of the first
  choice, the requested object, bare or fenced, with commands and nothing blank.
\<close>

definition answered_well :: "openrouter \<Rightarrow> (nat \<Rightarrow> attempt_answers) \<Rightarrow> str list \<Rightarrow> str \<Rightarrow> str \<Rightarrow> bool" where
  "answered_well c answers cs reason outcome \<longleftrightarrow>
     trim_space (oc_apiKey c) \<noteq> []
   \<and> (\<exists>raw. at_exchange (answers 0) = Replied 200 (json_bytes (reply_json raw)) \<and> text_ok raw
        \<and> presents (answer_json cs reason outcome) raw)
   \<and> cs \<noteq> [] \<and> (\<forall>x \<in> set cs. text_ok x \<and> \<not> blank x)
   \<and> text_ok reason \<and> \<not> blank reason \<and> text_ok outcome \<and> \<not> blank outcome"

lemma answer_parsed:
  assumes "answered_well c answers cs reason outcome"
  shows "\<exists>content. fst (fst (RequestSuggestion derr answers prompt c)) = Inr content
    \<and> parseSuggestionJSON err content = Inr \<lparr>sg_Commands = map trim_space cs, sg_Reason = reason,
         sg_ExpectedOutcome = outcome, sg_GeneratedAt = []\<rparr>"
proof -
  obtain raw where a: "trim_space (oc_apiKey c) \<noteq> []" "text_ok raw"
    "at_exchange (answers 0) = Replied 200 (json_bytes (reply_json raw))"
    "presents (answer_json cs reason outcome) raw"
    and ok: "cs \<noteq> []" "\<forall>x \<in> set cs. text_ok x" "\<forall>x \<in> set cs. trim_space x \<noteq> []" "text_ok reason" "text_ok outcome"
      "trim_space reason \<noteq> []" "trim_space outcome \<noteq> []"
    using assms by (auto simp: answered_well_def blank_def trim_space_eq_Nil)
  have n: "normalizeSuggestionJSON raw = answer_json cs reason outcome"
    using a(4) answer_ends by (rule normalize_presents)
  have ne: "trim_space raw \<noteq> []"
  proof
    assume "trim_space raw = []"
    then have "normalizeSuggestionJSON raw = []" by (simp add: normalizeSuggestionJSON_def fence_def)
    with n answer_ends(1) [of cs reason outcome] show False by simp
  qed
  have "read_reply derr (at_exchange (answers 0)) = Inr (trim_space raw)"
    using ne by (simp add: a(3) read_reply_def decode_reply_json [OF a(2)])
  then have "fst (fst (RequestSuggestion derr answers prompt c)) = Inr (trim_space raw)"
    unfolding attempts_expected using a(1) by (simp add: expected_def result_of_def timed_out_def outcome_of_def)
  moreover have "decode_strict err (answer_json cs reason outcome) = Inr \<lparr>sg_Commands = cs, sg_Reason = reason,
      sg_ExpectedOutcome = outcome, sg_GeneratedAt = []\<rparr>"
    by (rule decode_answer [OF ok(2,4,5)])
  then have "parseSuggestionJSON err (trim_space raw) = Inr \<lparr>sg_Commands = map trim_space cs, sg_Reason = reason,
      sg_ExpectedOutcome = outcome, sg_GeneratedAt = []\<rparr>"
    using ok empty_at_None [of 0 cs] by (simp add: parseSuggestionJSON_def normalize_trimmed n)
  ultimately show ?thesis by blast
qed

text \<open>A first suggestion: the model answers with one command, not fenced.\<close>

definition demo_raw :: str where
  "demo_raw = answer_json [lit '' look ''] (lit ''curious'') (lit ''a view'')"

definition demo_client :: openrouter where
  "demo_client = NewOpenRouterClient [] [] (lit ''key'') 0"

definition demo_answers :: "nat \<Rightarrow> attempt_answers" where
  "demo_answers = (\<lambda>_. \<lparr>at_exchange = Replied 200 (json_bytes (reply_json demo_raw)), at_time = zero_time, at_mkdir = True\<rparr>)"

lemma demo_answered: "answered_well demo_client demo_answers [lit '' look ''] (lit ''curious'') (lit ''a view'')"
proof -
  have key: "trim_space (oc_apiKey demo_client) \<noteq> []"
    unfolding demo_client_def NewOpenRouterClient_def openrouter.simps by code_simp
  have a0: "at_exchange (demo_answers 0) = Replied 200 (json_bytes (reply_json demo_raw))"
    by (simp add: demo_answers_def)
  have raw: "text_ok demo_raw" unfolding demo_raw_def by code_simp
  have plain: "96 \<notin> set demo_raw" unfolding demo_raw_def by code_simp
  have "demo_raw = [] @ demo_raw @ []" "blank []" by (simp_all add: blank_def)
  with plain have "presents demo_raw demo_raw" unfolding presents_def by blast
  then have p: "presents (answer_json [lit '' look ''] (lit ''curious'') (lit ''a view'')) demo_raw"
    unfolding demo_raw_def [symmetric] .
  have cs: "\<forall>x \<in> set [lit '' look '']. text_ok x \<and> \<not> blank x" "[lit '' look ''] \<noteq> []" by code_simp+
  have t: "text_ok (lit ''curious'')" "\<not> blank (lit ''curious'')" "text_ok (lit ''a view'')" "\<not> blank (lit ''a view'')"
    by code_simp+
  from key a0 raw p cs t show ?thesis unfolding answered_well_def by blast
qed

end
