(* ===== verification/Pipeline.thy ===== *)
theory Pipeline
  imports OpenRouterSpec SuggestionRace ApiSpec
begin

text \<open>
  From the network to the API, with all goroutines of the suggestion service running: a job whose request
  is answered well, what the API shows after it has reported, and until when.
\<close>

declare lit.simps [simp del]

text \<open>A job has reported when it is past \<open>finish_request\<close>, or has ended without a prompt.\<close>

definition reported :: "phase \<Rightarrow> bool" where
  "reported ph \<longleftrightarrow> ph = Completing \<or> ph = Finished"

text \<open>A step in which no job reports.\<close>

definition undisturbed :: "(str \<Rightarrow> str) \<Rightarrow> suggestion_sys \<Rightarrow> suggestion_sys \<Rightarrow> bool" where
  "undisturbed err y z \<longleftrightarrow> job_step err y z
     \<and> (\<forall>k < length (sy_jobs y). reported (snd (snd (sy_jobs z ! k))) \<longrightarrow> reported (snd (snd (sy_jobs y ! k))))"

lemma reports:
  assumes "at i y (sid, seq, ph0)" "\<not> reported ph0" "reported ph" "sy_jobs z = sy_jobs (advance i ph y)"
  shows "\<not> (\<forall>k < length (sy_jobs y). reported (snd (snd (sy_jobs z ! k))) \<longrightarrow> reported (snd (snd (sy_jobs y ! k))))"
  using assms by (auto simp: at_def advance_def intro!: exI [of _ i])

lemma undisturbed_keeps:
  assumes "undisturbed err y z"
  shows "Latest (sy_service z) = Latest (sy_service y)" "su_lastError (sy_service z) = su_lastError (sy_service y)"
proof -
  have st: "job_step err y z" and calm: "\<forall>k < length (sy_jobs y). reported (snd (snd (sy_jobs z ! k)))
      \<longrightarrow> reported (snd (snd (sy_jobs y ! k)))"
    using assms by (simp_all add: undisturbed_def)
  from st have "Latest (sy_service z) = Latest (sy_service y) \<and> su_lastError (sy_service z) = su_lastError (sy_service y)"
  proof cases
    case (no_prompt i sid seq recent snap e now)
    then have "sy_jobs z = sy_jobs (advance i Finished y)" by simp
    moreover have "\<not> reported (Copied recent)" "reported Finished" by (simp_all add: reported_def)
    ultimately show ?thesis using reports [OF no_prompt(2)] calm by blast
  next
    case (result i sid seq prompt a now)
    then have "sy_jobs z = sy_jobs (advance i Completing y)" by simp
    moreover have "\<not> reported (Answered prompt a)" "reported Completing" by (simp_all add: reported_def)
    ultimately show ?thesis using reports [OF result(2)] calm by blast
  qed (auto simp: Latest_def IngestTerminal_def CancelInFlight_def markInFlight_def markCompleted_def Let_def)
  then show "Latest (sy_service z) = Latest (sy_service y)" "su_lastError (sy_service z) = su_lastError (sy_service y)"
    by simp_all
qed

lemma undisturbed_run:
  assumes "(undisturbed err)\<^sup>*\<^sup>* y z"
  shows "Latest (sy_service z) = Latest (sy_service y)" "su_lastError (sy_service z) = su_lastError (sy_service y)"
    "job_reach err limit y \<Longrightarrow> job_reach err limit z"
proof -
  show "Latest (sy_service z) = Latest (sy_service y)" "su_lastError (sy_service z) = su_lastError (sy_service y)"
    using assms by (induction rule: rtranclp_induct) (simp_all add: undisturbed_keeps)
  show "job_reach err limit y \<Longrightarrow> job_reach err limit z"
    using assms
    by (induction rule: rtranclp_induct) (auto simp: undisturbed_def intro: job_reach.step)
qed

text \<open>A job that has reported is completing or finished from then on.\<close>

lemma at_forward:
  assumes "job_step err y z" "at k y (sid, seq, ph)" "ph = Completing \<or> ph = Finished"
  shows "at k z (sid, seq, Completing) \<or> at k z (sid, seq, Finished)"
  using assms(1)
proof cases
  case (complete i sid1 seq1)
  with assms(2,3) show ?thesis
    by (cases "i = k") (auto simp: at_def advance_def)
next
  case (fire sid1 seq1)
  with assms(2,3) show ?thesis by (auto simp: at_def nth_append)
qed (use assms(2,3) in \<open>auto simp: at_def advance_def nth_list_update\<close>)

lemma at_forward_run:
  "(undisturbed err)\<^sup>*\<^sup>* y z \<Longrightarrow> at k y (sid, seq, Completing) \<Longrightarrow>
   at k z (sid, seq, Completing) \<or> at k z (sid, seq, Finished)"
  by (induction rule: rtranclp_induct) (auto simp: undisturbed_def dest: at_forward)

lemma jobs_distinct: "job_reach err limit z \<Longrightarrow> few z \<Longrightarrow> distinct (ids z)"
  using reach_numbered [of err limit z] by (simp add: numbered_def split: prod.splits)

lemma finished_not_flying:
  "job_reach err limit z \<Longrightarrow> few z \<Longrightarrow> at k z (sid, seq, Finished) \<Longrightarrow> (sid, seq) \<notin> flying z"
  using flying_at [OF jobs_distinct, of err limit z k sid seq Finished] by simp

lemma completes:
  assumes "job_reach err limit z" "few z" "at k z (sid, seq, Completing)"
  shows "\<exists>z1. undisturbed err z z1 \<and> at k z1 (sid, seq, Finished) \<and> flying z1 = flying z - {(sid, seq)}"
proof -
  let ?z1 = "(advance k Finished z)\<lparr>sy_service := markCompleted sid seq (sy_service z)\<rparr>"
  have "job_step err z ?z1" using assms(3) by (rule job_step.complete)
  moreover have "reported (snd (snd (sy_jobs ?z1 ! j))) \<longrightarrow> reported (snd (snd (sy_jobs z ! j)))"
    if "j < length (sy_jobs z)" for j
    using assms(3) that by (cases "j = k") (auto simp: at_def advance_def reported_def)
  ultimately have "undisturbed err z ?z1" by (simp add: undisturbed_def)
  moreover have "at k ?z1 (sid, seq, Finished)" using at_advance [OF assms(3), of Finished] by simp
  moreover have "flying ?z1 = flying z - {(sid, seq)}"
    using flying_advance [OF jobs_distinct [OF assms(1,2)] assms(3), of Finished] by simp
  ultimately show ?thesis by blast
qed

text \<open>The only step that takes a job from its answer to completion.\<close>

lemma result_published:
  assumes "job_step err y y1" "at k y (sid, seq, Answered prompt (Inr content))" "at k y1 (sid, seq, Completing)"
    and "parseSuggestionJSON err content = Inr parsed" "su_jobSeq (sy_service y) sid = seq"
  shows "\<exists>now. sy_service y1 = publish sid seq (parsed\<lparr>sg_GeneratedAt := rfc3339nano now\<rparr>) (sy_service y)"
proof -
  have same: "i = k" if "at i y (sid1, seq1, ph0)" "y1 = (advance i ph y)\<lparr>sy_service := s\<rparr>" for i sid1 seq1 ph0 ph s
    using that assms(2,3) by (cases "i = k") (auto simp: at_def advance_def)
  from assms(1) show ?thesis
  proof cases
    case (result i sid1 seq1 prompt1 a now)
    have "i = k" using same [OF result(2,1)] .
    with result assms(2) have "sid1 = sid" "seq1 = seq" "a = Inr content" by (auto simp: at_def)
    with result(1) assms(4) show ?thesis by (auto simp: finish_request_def)
  next
    case (ingest sid1 u)
    with assms(2,3) show ?thesis by (auto simp: at_def)
  next
    case cancel
    with assms(2,3) show ?thesis by (auto simp: at_def)
  next
    case (fire sid1 seq1)
    with assms(2,3) show ?thesis by (auto simp: at_def nth_append)
  qed (use assms(2,3) in \<open>auto simp: at_def advance_def nth_list_update split: if_splits\<close>)
qed

lemma latest_members:
  assumes "Latest s = (p, True)" "su_lastError s = []" "sg_GeneratedAt p \<noteq> []"
  shows "\<exists>ms. latest_json (Suggestion_Status s) (Latest s) = JObj ms
    \<and> get ''commands'' ms = Some (JArr (map JStr (sg_Commands p))) \<and> get_text ''reason'' ms = sg_Reason p
    \<and> get_text ''expected_outcome'' ms = sg_ExpectedOutcome p \<and> get_text ''generated_at'' ms = sg_GeneratedAt p
    \<and> get ''last_error'' ms = None \<and> get ''in_progress'' ms = Some (JBool (rt_InProgress (Suggestion_Status s)))"
proof -
  have "rt_LastError (Suggestion_Status s) = []" using assms(2) by (simp add: Suggestion_Status_def Let_def)
  then show ?thesis using assms by (simp add: latest_json_def get_text_def)
qed

text \<open>
  C12. From the network to the API. In any run of the suggestion service, with any other jobs, texts, timers
  and cancels in between, let the model have answered a job with status 200 and, as the content of its
  first choice, the requested object, bare or fenced, with commands and nothing blank; and let the job
  report while its session has had no newer text. Then the API answers 200 with that suggestion, its
  commands trimmed, its reason and outcome unchanged, the time it was made and no last error, in every
  state the service reaches until another job reports (whose failure would be shown beside it, even if
  that job is stale). The member \<open>in_progress\<close> and the counter are those of the jobs still in flight;
  the job itself can always complete, without a report of another job, and is then none of them.
\<close>

theorem suggestion_served:
  assumes "job_reach err limit y" and "few z" and "answered_well c net cs reason outcome"
    and "at k y (sid, seq, Answered prompt (fst (fst (RequestSuggestion derr net prompt c))))"
    and "su_jobSeq (sy_service y) sid = seq"
    and "job_step err y y1" and "at k y1 (sid, seq, Completing)"
    and "(undisturbed err)\<^sup>*\<^sup>* y1 z" and "ro_suggestions r = sy_service z" and "ctx \<noteq> []"
  shows "\<exists>ms now. fst (handleSuggestionsLatest i ctx r) = writeSuccess (in_meta_time i) 200 ctx (JObj ms)
    \<and> get ''commands'' ms = Some (JArr (map JStr (map trim_space cs))) \<and> get_text ''reason'' ms = reason
    \<and> get_text ''expected_outcome'' ms = outcome \<and> get_text ''generated_at'' ms = rfc3339nano now
    \<and> get ''last_error'' ms = None \<and> get ''in_progress'' ms = Some (JBool (flying z \<noteq> {}))
    \<and> su_inFlight (sy_service z) = int (card (flying z))
    \<and> (at k z (sid, seq, Finished) \<and> (sid, seq) \<notin> flying z
       \<or> (\<exists>z1. undisturbed err z z1 \<and> at k z1 (sid, seq, Finished) \<and> flying z1 = flying z - {(sid, seq)}))"
proof -
  obtain content where content: "fst (fst (RequestSuggestion derr net prompt c)) = Inr content"
    "parseSuggestionJSON err content = Inr \<lparr>sg_Commands = map trim_space cs, sg_Reason = reason,
         sg_ExpectedOutcome = outcome, sg_GeneratedAt = []\<rparr>"
    using answer_parsed [OF assms(3), of derr prompt err] by blast
  obtain now where y1: "sy_service y1 = publish sid seq \<lparr>sg_Commands = map trim_space cs, sg_Reason = reason,
         sg_ExpectedOutcome = outcome, sg_GeneratedAt = rfc3339nano now\<rparr> (sy_service y)"
    using result_published [OF assms(6) assms(4) [unfolded content(1)] assms(7) content(2) assms(5)] by auto
  have reach: "job_reach err limit z"
    by (rule undisturbed_run(3) [OF assms(8) job_reach.step [OF assms(1,6)]])
  have "Latest (sy_service z) = (\<lparr>sg_Commands = map trim_space cs, sg_Reason = reason,
         sg_ExpectedOutcome = outcome, sg_GeneratedAt = rfc3339nano now\<rparr>, True)" "su_lastError (sy_service z) = []"
    using undisturbed_run(1,2) [OF assms(8)] assms(5) by (simp_all add: y1 publish_def Latest_def)
  from latest_members [OF this] have "\<exists>ms. latest_json (Suggestion_Status (sy_service z)) (Latest (sy_service z)) = JObj ms
    \<and> get ''commands'' ms = Some (JArr (map JStr (map trim_space cs))) \<and> get_text ''reason'' ms = reason
    \<and> get_text ''expected_outcome'' ms = outcome \<and> get_text ''generated_at'' ms = rfc3339nano now
    \<and> get ''last_error'' ms = None
    \<and> get ''in_progress'' ms = Some (JBool (rt_InProgress (Suggestion_Status (sy_service z))))"
    by (simp add: rfc3339nano_def)
  moreover have "fst (handleSuggestionsLatest i ctx r)
      = writeSuccess (in_meta_time i) 200 ctx (latest_json (Suggestion_Status (sy_service z)) (Latest (sy_service z)))"
    using assms(9,10) by (simp add: handleSuggestionsLatest_def requestID_ctx)
  moreover have "at k z (sid, seq, Finished) \<and> (sid, seq) \<notin> flying z
       \<or> (\<exists>z1. undisturbed err z z1 \<and> at k z1 (sid, seq, Finished) \<and> flying z1 = flying z - {(sid, seq)})"
    using at_forward_run [OF assms(8,7)] finished_not_flying [OF reach assms(2)] completes [OF reach assms(2)] by blast
  ultimately show ?thesis using in_flight_facts [OF reach assms(2)] by auto
qed

text \<open>The first suggestion of a session, right after the job has reported: the job is still in flight.\<close>

theorem suggestion_served_witness:
  "\<exists>z r ms. job_reach (\<lambda>_. []) 5 z \<and> ro_suggestions r = sy_service z
    \<and> fst (handleSuggestionsLatest demo_env [49] r) = writeSuccess (in_meta_time demo_env) 200 [49] (JObj ms)
    \<and> get ''commands'' ms = Some (JArr [JStr (lit ''look'')]) \<and> get ''in_progress'' ms = Some (JBool (flying z \<noteq> {}))"
proof -
  let ?p = "demo_prompt [demo_text]"
  let ?a = "fst (fst (RequestSuggestion (\<lambda>_. []) demo_answers ?p demo_client))"
  let ?y = "advance 0 (Answered ?p ?a) demo1" and ?r = "NewRouter db_opens empty_database (Load (\<lambda>_ _ _. 0) (\<lambda>_. []))"
  let ?z = "do_result 0 1 ?a zero_time ?y"
  note y = reach_answered [OF demo1(1) [of "\<lambda>_. []"] demo1(2), of ?a]
  have step: "job_step (\<lambda>_. []) ?y ?z" by (rule step_result [OF y(2)])
  have z: "at 0 ?z ([1], 1, Completing)" using at_advance [OF y(2), of Completing] by (simp add: do_result_def)
  have few: "few ?z" using demo_few(1) by (simp add: few_def do_result_def)
  have seq: "su_jobSeq (sy_service ?y) [1] = 1" using demo1(3) by simp
  have sug: "ro_suggestions (?r\<lparr>ro_suggestions := sy_service ?z\<rparr>) = sy_service ?z" by simp
  have m: "map JStr (map trim_space [lit '' look '']) = [JStr (lit ''look'')]" by code_simp
  from suggestion_served [OF y(1) few demo_answered y(2) seq step z rtranclp.rtrancl_refl sug, of "[49]" demo_env]
  obtain ms where "fst (handleSuggestionsLatest demo_env [49] (?r\<lparr>ro_suggestions := sy_service ?z\<rparr>))
      = writeSuccess (in_meta_time demo_env) 200 [49] (JObj ms)"
    "get ''commands'' ms = Some (JArr [JStr (lit ''look'')])" "get ''in_progress'' ms = Some (JBool (flying ?z \<noteq> {}))"
    unfolding m by auto
  with job_reach.step [OF y(1) step] sug show ?thesis by blast
qed

end
