(* ===== verification/Program.thy ===== *)
theory Program
  imports Http
begin

text \<open>
  \<open>cmd/gateway/main.go\<close>: the server \<open>main\<close> sets up from the environment, and the life of the process as
  the goroutine that listens and the one that waits for a signal. What the library answers (the end of
  \<open>ListenAndServe\<close>, a signal, the end of \<open>Shutdown\<close>) are the events.
\<close>

definition second_ns :: int where "second_ns = 1000 * millisecond"

definition defaultShutdownTimeout :: int where "defaultShutdownTimeout = 10 * second_ns"

record server =
  sv_Addr :: str
  sv_Handler :: router
  sv_ReadTimeout :: int
  sv_WriteTimeout :: int
  sv_IdleTimeout :: int

definition main_server :: "open_answers \<Rightarrow> database \<Rightarrow> (nat \<Rightarrow> nat \<Rightarrow> nat \<Rightarrow> nat) \<Rightarrow> environ \<Rightarrow> server" where
  "main_server a file part env =
     (let cfg = Load part env
      in \<lparr>sv_Addr = Address cfg, sv_Handler = NewRouter a file cfg, sv_ReadTimeout = 15 * second_ns,
          sv_WriteTimeout = 15 * second_ns, sv_IdleTimeout = 60 * second_ns\<rparr>)"

datatype main_phase = Waiting | ShuttingDown | Exited nat

text \<open>
  \<open>ListenFailed\<close> is an error other than \<open>ErrServerClosed\<close>, \<open>ListenClosed\<close> that error or none. The shutdown
  ends without an error, or with one (when its context, of \<open>defaultShutdownTimeout\<close>, is over, for instance).
\<close>

datatype main_event = ListenFailed str | ListenClosed | SignalReceived | ShutdownReturned "str option"

fun main_step :: "main_event \<Rightarrow> main_phase \<Rightarrow> main_phase" where
  "main_step e (Exited code) = Exited code"
| "main_step (ListenFailed msg) ph = Exited 1"
| "main_step ListenClosed ph = ph"
| "main_step SignalReceived Waiting = ShuttingDown"
| "main_step SignalReceived ShuttingDown = ShuttingDown"
| "main_step (ShutdownReturned err) ShuttingDown = (case err of None \<Rightarrow> Exited 0 | Some msg \<Rightarrow> Exited 1)"
| "main_step (ShutdownReturned err) Waiting = Waiting"

text \<open>The process exits with 0 only after a signal and a shutdown without error, and never with another code than 0 or 1.\<close>

lemma exited_stays: "fold main_step evs (Exited code) = Exited code"
  by (induction evs) simp_all

lemma shutdown_exit:
  "fold main_step evs ShuttingDown = Exited code \<Longrightarrow> code \<le> 1 \<and> (code = 0 \<longrightarrow> ShutdownReturned None \<in> set evs)"
proof (induction evs)
  case (Cons e evs)
  then show ?case by (cases e) (auto simp: exited_stays split: option.splits)
qed simp

lemma main_exit:
  "fold main_step evs Waiting = Exited code \<Longrightarrow>
     code \<le> 1 \<and> (code = 0 \<longrightarrow> ShutdownReturned None \<in> set (tl (dropWhile (\<lambda>e. e \<noteq> SignalReceived) evs)))"
proof (induction evs)
  case (Cons e evs)
  then show ?case by (cases e) (auto simp: exited_stays dest: shutdown_exit)
qed simp

end
