(* ===== verification/Spec2Isabelle.thy ===== *)
theory Spec2Isabelle
  imports Prelude GoStrings Scanner Telnet Utf8 Decoder WsFrame Metrics Fifo Queue Clock Hub HubRace Manager
    ManagerSpec ManagerRace RaceRuns CommandRace Regex Parser ParserSpec Json Store MemoryStore StoreSpec Suggestions SuggestionSpec SuggestionRace
    JsonSafe Payload Wire WireSpec Config Handshake Http ApiSpec JoinSpec TextSpec ResponseSpec Running MetricsPage
    FrameSize Screen EndToEnd OpenRouter OpenRouterSpec Pipeline Program
begin

text \<open>
  Verification of the gateway backend, the Go program under \<open>src/backend\<close>.

  The gateway holds one connection to a text game server (MUD) and shows it to browsers. A session
  manager dials the server, a queue sends the player's commands to it at a steady pace, a reader turns
  its bytes into text, a hub sends every event to the browsers over WebSockets. The text also goes to a
  parser that keeps the state of the character in a store, and to a service that asks a language model
  for the next commands. An HTTP interface operates all of it. Paths below are relative to
  \<open>src/backend/internal\<close>.

  \<^bold>\<open>The parts and their theories.\<close>

  \<^item> \<open>Prelude\<close>, \<open>GoStrings\<close>, \<open>Scanner\<close>, \<open>Utf8\<close>: lemmas on lists, maps and words; the functions of Go's
    \<open>strings\<close> and \<open>strconv\<close> the program uses, on texts as lists of code points; a locale for loops that
    walk over a list with a state, and chunking; UTF-8.
  \<^item> \<open>Telnet\<close> (\<open>gateway/telnet.go\<close>): \<open>telnet_state\<close> is the state of \<open>TelnetFilter\<close>, \<open>filter_byte\<close> the body
    of its loop, \<open>Filter\<close> the method. Chunks do not matter and exactly the data bytes pass.
  \<^item> \<open>Decoder\<close> (\<open>gateway/decoder.go\<close>): \<open>Decode\<close> and \<open>fixSmaugYaArtifact\<close>. Where the repair acts, and
    exactly which cuts of the input change the result.
  \<^item> \<open>WsFrame\<close>, \<open>Handshake\<close>, \<open>Wire\<close> (\<open>gateway/wsframe.go\<close>): \<open>writeTextFrame\<close>, \<open>readFrame\<close>,
    \<open>WebsocketAcceptKey\<close> with SHA-1 and base64, \<open>marshalEvent\<close>. Frames are read back; so are events
    through the write pump.
  \<^item> \<open>Metrics\<close> (\<open>gateway/metrics.go\<close>): the record \<open>metrics\<close>, one operation per method.
  \<^item> \<open>Fifo\<close>, \<open>Queue\<close> (\<open>gateway/queue.go\<close>): the record \<open>queue\<close> is \<open>CommandQueue\<close>; \<open>run_tick\<close> is a tick
    of its sender loop. \<open>Fifo\<close> is the contract of a bounded queue, interpreted in \<open>Queue\<close>.
  \<^item> \<open>Clock\<close>: times of the UTC clock, their RFC 3339 text, and how far texts compare as times do.
  \<^item> \<open>Hub\<close>, \<open>HubRace\<close> (\<open>gateway/hub.go\<close>): clients are numbered, \<open>hub\<close> holds their channels.
    \<open>HubRace\<close> cuts the methods into their critical sections and what follows the unlock (the gauge,
    closing the channel, closing the connection) and interleaves them (\<open>hub_step\<close>).
  \<^item> \<open>Manager\<close>, \<open>ManagerSpec\<close>, \<open>ManagerRace\<close>, \<open>RaceRuns\<close>, \<open>CommandRace\<close> (\<open>gateway/manager.go\<close>): the record \<open>gateway\<close> is \<open>Manager\<close>
    with its session, queue, hub and metrics. \<open>ManagerSpec\<close> has the abstract link (\<open>spec\<close>: down, or up
    on a connection with pending commands) that the manager refines when its calls follow one another,
    and follows bytes to the callback. \<open>ManagerRace\<close> interleaves requests, readers and sender loops at
    their critical sections and channel operations (\<open>race_step\<close>): a disconnect is its locked part, the
    close of the connection, the locked part of \<open>StopAndDrop\<close>, the close of the stop channel and the wait
    for the loop; a tick is the pop, the choice of the connection, the write, the time of the session and
    the counters. \<open>CommandRace\<close> follows commands to the wire over all these runs: at most once always, in
    order and to their connection while no connect overlaps a disconnect. \<open>RaceRuns\<close> has the runs that
    show what an overlap or a stale reader breaks.
  \<^item> \<open>Regex\<close>, \<open>Parser\<close>, \<open>ParserSpec\<close> (\<open>state/parser.go\<close>): the regular expressions as lists of items for a
    leftmost-first matcher of the fragment of RE2 they use; \<open>Parse\<close> and every function it calls.
  \<^item> \<open>Store\<close>, \<open>StoreSpec\<close> (\<open>state/store.go\<close>, \<open>state/service.go\<close>): the SQLite store as two tables with the
    effect of its statements, the memory store, the service. The locale \<open>snapshot_store\<close> is their
    common contract; both interpret it. \<open>MemoryStore\<close> has the memory store again with its maps as
    objects of a heap, and says which snapshots share them.
  \<^item> \<open>Json\<close>, \<open>JsonSafe\<close>, \<open>Payload\<close>: the printer and parser of \<open>encoding/json\<close> for the values the program
    uses, their round trip, and that what the decoder returns can be printed again.
  \<^item> \<open>Suggestions\<close>, \<open>SuggestionSpec\<close>, \<open>SuggestionRace\<close> (\<open>suggestions/service.go\<close>): the record \<open>service\<close>
    and every method; what answers are accepted; the interleaving of jobs and texts (\<open>job_step\<close>).
  \<^item> \<open>OpenRouter\<close>, \<open>OpenRouterSpec\<close> (\<open>suggestions/openrouter.go\<close>): the request, the reading of the reply,
    the retry, the transcript. \<open>Pipeline\<close>: the way of an answer from the network to the API, over the
    runs of \<open>SuggestionRace\<close>.
  \<^item> \<open>Config\<close> (\<open>config/config.go\<close>): \<open>Load\<close>, with \<open>time.ParseDuration\<close>. \<open>Program\<close> (\<open>cmd/gateway/main.go\<close>): the
    server and the life of the process.
  \<^item> \<open>Http\<close> (\<open>httpapi/*.go\<close>): the record \<open>router\<close>, \<open>NewRouter\<close> with the callback it gives the manager,
    every handler, \<open>serve\<close> and \<open>serve_logged\<close> as the request passes \<open>withRequestLogging\<close>, and
    \<open>handleTerminalWS\<close>, with \<open>serve_terminal\<close> behind that log. The session handlers work over the interface
    \<open>sessionManager\<close>, as in the code. \<open>MetricsPage\<close>: the lines of the metrics page.
  \<^item> \<open>ApiSpec\<close>: the locale \<open>session_manager\<close> has the laws of that interface and the answers of the handlers
    over it; interpreted on the session manager, it carries the refinement of \<open>ManagerSpec\<close> up to the
    JSON responses. \<open>TextSpec\<close>: what the parser, the stores and the suggestions hold is Unicode text.
    \<open>ResponseSpec\<close>: the form of a response and of its log entry. \<open>Running\<close>: the whole gateway as a step
    relation (\<open>gateway_step\<close>: requests, the session's goroutines, browsers, jobs), its invariant, and the
    responses in every reachable state. \<open>JoinSpec\<close>: the accept key, and a browser that joins and leaves.
    \<open>EndToEnd\<close>: from the bytes of the game server to the state endpoint and the suggestion log.
    \<open>FrameSize\<close>, \<open>Screen\<close>: from the same bytes to the events a browser reads, each in a frame of bounded
    length. \<open>WireSpec\<close> compares the events with the description of the API in \<open>src/api/openapi\<close>.

  \<^bold>\<open>How the code is translated.\<close> A struct is a record, a method a function from the state to its
  results and the new state, an error a value of a sum or option type or of \<open>gw_err\<close>. Counters are
  words of 64 bits and wrap; Go's \<open>int\<close> is \<open>int\<close> where the values are bounded by lengths or checked on
  entry, with the bounds of \<open>strconv\<close> and the JSON decoder written out. A byte is a word of 8 bits, a
  text a list of code points; texts from the network are decoded first, malformed UTF-8 giving U+FFFD.
  Goroutines are steps of inductive relations, one step per critical section or channel operation.
  The clock, the dialler, the network, the database and the timers are inputs: each answer an
  operation asks for is an argument.

  \<^bold>\<open>Parameters.\<close> What is not source code here, and what is assumed of it: the code page tables of
  \<open>golang.org/x/text\<close> (each byte has one rune, named \<open>charmap_table\<close>, or at most one, \<open>decodes_within\<close>; Unicode runes,
  named \<open>outside_texts\<close>);
  the texts of the decoder's errors;
  which runes \<open>%q\<close> prints; how \<open>%f\<close> prints; the rounding of the fraction of a duration; the order in which
  the runtime walks the map of equipment aliases, which is chosen anew for every label.

  \<^bold>\<open>Bounds.\<close> No function has fuel. The loops of the source recurse structurally or have a termination
  proof; the attempts of the client end by the measure \<open>2 - attempt\<close>. Sequence numbers are words, and
  the theorems that need them to be distinct say for how many operations (\<open>2 ^ 64\<close>).

  \<^bold>\<open>Not modelled.\<close> Log calls other than the entry of a request; \<open>Close\<close> of the database, which nothing
  calls; the sleep before a retry; \<open>Flush\<close> of the status recorder; the context values that carry a
  request id, which are an argument of the handlers. The lock of the memory store makes its methods
  atomic, and they are single steps here; the SQLite store has no lock, and its methods are single steps
  because the texts of one reader are ingested one after another. Two readers that overlap, an old one
  still ingesting while a new connection is read, could interleave the statements of two \<open>UpsertDelta\<close>
  calls, which is not modelled. A tick's report of its failure is one step with its counters, and the
  broadcasts of a manager call one step with the section before them. A write that fails is taken to have sent nothing; memory does not run
  out, so a channel or a queue of any configured size can be made. The SQLite database is one database
  for all statements, which a file is; whether the connections of \<open>database/sql\<close> share the tables of the
  path \<open>:memory:\<close> is a matter of the driver.
\<close>

end
